(* ===== verification/Prelude.thy ===== *)
theory Prelude
  imports "HOL-Library.Word"
begin

text \<open>
  Shared vocabulary of the development.

  Every operation of zpp_lib is a total HOL function. What a C++ call can do beside returning
  normally is a value of \<open>fault\<close>: a failed \<open>ZPP_ASSERT\<close> with assertions compiled in
  (\<open>Panic\<close>), a call that does not return in the present kernel state (\<open>Stuck\<close>), and
  undefined behaviour such as reading a dangling pointer or writing outside an array
  (\<open>Undef\<close>). \<open>'a run\<close> is the sum of a fault and a normal result, and \<open>bindR\<close> runs a
  continuation after a normal result, as the semicolon of the source does.
\<close>

section \<open>Faults and the sequencing of calls\<close>

datatype fault = Panic | Stuck | Undef

type_synonym 'a run = "fault + 'a"

definition bindR :: "'a run \<Rightarrow> ('a \<Rightarrow> 'b run) \<Rightarrow> 'b run" where
  "bindR m f = (case m of Inl e \<Rightarrow> Inl e | Inr a \<Rightarrow> f a)"

named_theorems run_simps \<open>rewrite rules for sequenced calls\<close>

lemma bindR_Inl [simp, run_simps]: "bindR (Inl e) f = Inl e"
  by (simp add: bindR_def)

lemma bindR_Inr [simp, run_simps]: "bindR (Inr a) f = f a"
  by (simp add: bindR_def)

lemma bindR_assoc: "bindR (bindR m f) g = bindR m (\<lambda>a. bindR (f a) g)"
  by (cases m) simp_all

lemma bindR_eq_Inr: "bindR m f = Inr b \<longleftrightarrow> (\<exists>a. m = Inr a \<and> f a = Inr b)"
  by (cases m) simp_all

lemma bindR_eq_Inl: "bindR m f = Inl e \<longleftrightarrow> m = Inl e \<or> (\<exists>a. m = Inr a \<and> f a = Inl e)"
  by (cases m) auto

lemma bindR_cong [fundef_cong]:
  "m = m' \<Longrightarrow> (\<And>a. m' = Inr a \<Longrightarrow> f a = g a) \<Longrightarrow> bindR m f = bindR m' g"
  by (cases m') simp_all

text \<open>
  \<open>ZPP_ASSERT(cond, ...)\<close> (src/zpp_include/zpp_assert.hpp) is Zephyr's \<open>__ASSERT\<close>: nothing
  unless \<open>CONFIG_ASSERT\<close> is set, and a fatal error when the condition is false.
\<close>

definition ZPP_ASSERT :: "bool \<Rightarrow> bool \<Rightarrow> unit run" where
  "ZPP_ASSERT config_assert cond = (if config_assert \<and> \<not> cond then Inl Panic else Inr ())"

lemma ZPP_ASSERT_True [simp, run_simps]: "ZPP_ASSERT a True = Inr ()"
  by (simp add: ZPP_ASSERT_def)

lemma ZPP_ASSERT_off [simp, run_simps]: "ZPP_ASSERT False c = Inr ()"
  by (simp add: ZPP_ASSERT_def)

lemma ZPP_ASSERT_on [simp, run_simps]: "ZPP_ASSERT True False = Inl Panic"
  by (simp add: ZPP_ASSERT_def)

section \<open>Machine integers\<close>

text \<open>
  \<open>int\<close> is 32 bits wide and \<open>size_t\<close> has the 32 bits of the targets zpp_lib is built for.
\<close>

type_synonym u8 = "8 word"
type_synonym u16 = "16 word"
type_synonym u32 = "32 word"
type_synonym u64 = "64 word"
type_synonym size_t = "32 word"

lemma unat_u32_dec: "(c :: u32) \<noteq> 0 \<Longrightarrow> unat (c - 1) = unat c - 1"
  by (rule unat_minus_one)

lemma unat_u8_inc: "unat (c :: u8) < 255 \<Longrightarrow> unat (c + 1) = Suc (unat c)"
  by (simp add: unat_word_ariths)

lemma unat_u32_of_nat [simp]: "n < 4294967296 \<Longrightarrow> unat (word_of_nat n :: u32) = n"
  by (simp add: unat_of_nat)

lemma unat_u16_of_nat [simp]: "n < 65536 \<Longrightarrow> unat (word_of_nat n :: u16) = n"
  by (simp add: unat_of_nat)

lemma unat_u8_of_nat [simp]: "n < 256 \<Longrightarrow> unat (word_of_nat n :: u8) = n"
  by (simp add: unat_of_nat)

lemma unat_u32_lt: "unat (x :: u32) < 4294967296"
  using unsigned_less [of x] by simp

lemma unat_u16_lt: "unat (x :: u16) < 65536"
  using unsigned_less [of x] by simp

lemma unat_u8_lt: "unat (x :: u8) < 256"
  using unsigned_less [of x] by simp

lemma unat_ucast_32_64 [simp]: "unat (ucast (w :: u32) :: u64) = unat w"
  using unat_u32_lt [of w] by (simp add: unsigned_ucast_eq take_bit_nat_eq_self)

lemma unat_ucast_16_32 [simp]: "unat (ucast (w :: u16) :: u32) = unat w"
  using unat_u16_lt [of w] by (simp add: unsigned_ucast_eq take_bit_nat_eq_self)

lemma unat_ucast_8_32 [simp]: "unat (ucast (w :: u8) :: u32) = unat w"
  using unat_u8_lt [of w] by (simp add: unsigned_ucast_eq take_bit_nat_eq_self)

lemma unat_ucast_32_16: "unat (ucast (w :: u32) :: u16) = unat w mod 65536"
  by (simp add: unsigned_ucast_eq take_bit_eq_mod)

section \<open>Lists\<close>

text \<open>The first index at which a predicate holds, as the search loops of the pools compute it.\<close>

fun find_index :: "('a \<Rightarrow> bool) \<Rightarrow> 'a list \<Rightarrow> nat" where
  "find_index P [] = 0"
| "find_index P (x # xs) = (if P x then 0 else Suc (find_index P xs))"

lemma find_index_le: "find_index P xs \<le> length xs"
  by (induction xs) auto

lemma find_index_less_iff: "find_index P xs < length xs \<longleftrightarrow> (\<exists>x\<in>set xs. P x)"
  by (induction xs) auto

lemma find_index_nth: "find_index P xs < length xs \<Longrightarrow> P (xs ! find_index P xs)"
  by (induction xs) (auto split: if_splits)

lemma find_index_before: "j < find_index P xs \<Longrightarrow> \<not> P (xs ! j)"
  by (induction xs arbitrary: j) (auto simp: nth_Cons split: if_splits nat.splits)

section \<open>Counting\<close>

text \<open>How many indices of a finite set are in a given condition.\<close>

definition tally :: "'i set \<Rightarrow> ('s \<Rightarrow> bool) \<Rightarrow> ('i \<Rightarrow> 's) \<Rightarrow> nat" where
  "tally T P f = card {i \<in> T. P (f i)}"

lemma tally_upd:
  assumes "finite T" and "t \<in> T"
  shows "tally T P (f(t := x)) + of_bool (P (f t)) = tally T P f + of_bool (P x)"
proof -
  let ?R = "{i \<in> T - {t}. P (f i)}"
  have "{i \<in> T. P ((f(t := x)) i)} = ?R \<union> (if P x then {t} else {})"
    "{i \<in> T. P (f i)} = ?R \<union> (if P (f t) then {t} else {})"
    using assms(2) by auto
  moreover have "finite ?R" "t \<notin> ?R" using assms(1) by auto
  ultimately show ?thesis by (simp add: tally_def)
qed

lemma tally_le: "finite T \<Longrightarrow> tally T P f \<le> card T"
  by (auto simp: tally_def intro: card_mono)

lemma tally_all: "finite T \<Longrightarrow> tally T P f = card T \<longleftrightarrow> (\<forall>t\<in>T. P (f t))"
proof -
  assume fin: "finite T"
  have "card {i \<in> T. P (f i)} = card T \<longleftrightarrow> {i \<in> T. P (f i)} = T"
    using fin card_subset_eq [of T "{i \<in> T. P (f i)}"] by auto
  then show ?thesis by (auto simp: tally_def)
qed

lemma tally_none: "finite T \<Longrightarrow> tally T P f = 0 \<longleftrightarrow> (\<forall>t\<in>T. \<not> P (f t))"
  by (auto simp: tally_def)

lemma tally_mono: "finite T \<Longrightarrow> (\<And>x. P x \<Longrightarrow> Q x) \<Longrightarrow> tally T P f \<le> tally T Q f"
  unfolding tally_def by (rule card_mono) auto

end
