(* ===== verification/Zephyr_API.thy ===== *)
theory Zephyr_API
  imports Prelude
begin

text \<open>
  What zpp_lib uses of Zephyr and of the C library, as parameters of the model. None of this code
  is in the repository, so nothing here computes: each record below is a bundle of functions over
  an abstract kernel state \<open>'k\<close> which the definitions of the components take as an argument.
  What the library relies on is stated beside each bundle as a named hypothesis
  (\<open>mutex_laws\<close>, \<open>sem_laws\<close>, ...): the behaviour documented in Zephyr's API reference, over
  an abstract view of the kernel objects. A blocking call returns \<open>None\<close> when it does not return
  in the present state.
\<close>

section \<open>Addresses, threads, errno\<close>

type_synonym addr = nat
type_synonym tid = nat

text \<open>The values of the \<open>E...\<close> macros of \<open>errno.h\<close>, by the macro's name.\<close>

type_synonym errno_values = "string \<Rightarrow> nat"

definition neg_errno :: "errno_values \<Rightarrow> string \<Rightarrow> int" where
  "neg_errno E name = - int (E name)"

text \<open>
  \<open>errno.h\<close> macros are positive; the enumeration of zephyr_error_code.hpp, whose underlying type
  has 8 bits, compiles only when they are below 256; and the codes a single kernel call can return
  are told apart.
\<close>

definition errno_laws :: "errno_values \<Rightarrow> bool" where
  "errno_laws E \<longleftrightarrow> (\<forall>n. n \<noteq> ''0'' \<longrightarrow> 0 < E n \<and> E n < 256) \<and> E ''0'' = 0 \<and>
     E ''EBUSY'' \<noteq> E ''EAGAIN'' \<and> E ''ENOMSG'' \<noteq> E ''EAGAIN''"

lemma neg_errno_neg: "errno_laws E \<Longrightarrow> n \<noteq> ''0'' \<Longrightarrow> neg_errno E n < 0"
  by (simp add: errno_laws_def neg_errno_def)

lemma neg_errno_nonzero: "errno_laws E \<Longrightarrow> n \<noteq> ''0'' \<Longrightarrow> neg_errno E n \<noteq> 0"
  using neg_errno_neg by fastforce

section \<open>Timeouts\<close>

record k_timeout_t =
  ticks :: int

record clock_api =
  K_NO_WAIT :: k_timeout_t
  K_FOREVER :: k_timeout_t
  K_MSEC :: "int \<Rightarrow> k_timeout_t"
  K_USEC :: "int \<Rightarrow> k_timeout_t"

definition K_TIMEOUT_EQ :: "k_timeout_t \<Rightarrow> k_timeout_t \<Rightarrow> bool" where
  "K_TIMEOUT_EQ a b = (ticks a = ticks b)"

definition clock_laws :: "clock_api \<Rightarrow> bool" where
  "clock_laws C \<longleftrightarrow> K_NO_WAIT C \<noteq> K_FOREVER C \<and> K_MSEC C 0 = K_NO_WAIT C \<and> K_USEC C 0 = K_NO_WAIT C \<and>
     (\<forall>d. K_MSEC C d \<noteq> K_FOREVER C \<and> K_USEC C d \<noteq> K_FOREVER C)"

section \<open>A view of the kernel objects\<close>

text \<open>
  \<open>mx V k a\<close> is the owner and lock count of the mutex at \<open>a\<close>; \<open>sm V k a\<close> the count and the
  limit of the semaphore at \<open>a\<close>; \<open>ev V k a\<close> the events posted on the event object at \<open>a\<close>.
\<close>

record 'k view =
  mx :: "'k \<Rightarrow> addr \<Rightarrow> (tid \<times> nat) option"
  sm :: "'k \<Rightarrow> addr \<Rightarrow> nat \<times> nat"
  ev :: "'k \<Rightarrow> addr \<Rightarrow> u32"

section \<open>Mutexes\<close>

record 'k mutex_api =
  k_mutex_init :: "addr \<Rightarrow> 'k \<Rightarrow> 'k"
  k_mutex_lock :: "tid \<Rightarrow> addr \<Rightarrow> k_timeout_t \<Rightarrow> 'k \<Rightarrow> (int \<times> 'k) option"
  k_mutex_unlock :: "tid \<Rightarrow> addr \<Rightarrow> 'k \<Rightarrow> int \<times> 'k"

text \<open>
  Zephyr's documentation of \<open>k_mutex_lock\<close>: the lock count is 0 when the mutex is free; the owner
  may lock it again; \<open>-EBUSY\<close> is "returned without waiting", \<open>-EAGAIN\<close> is "waiting period timed
  out". Of \<open>k_mutex_unlock\<close>: \<open>-EPERM\<close> when the caller does not own the mutex, \<open>-EINVAL\<close>
  when it is not locked. A mutex call touches no other object.
\<close>

definition mutex_laws :: "errno_values \<Rightarrow> clock_api \<Rightarrow> 'k mutex_api \<Rightarrow> 'k view \<Rightarrow> bool" where
  "mutex_laws E C M V \<longleftrightarrow>
     (\<forall>a k. mx V (k_mutex_init M a k) = (mx V k)(a := None) \<and> sm V (k_mutex_init M a k) = sm V k
        \<and> ev V (k_mutex_init M a k) = ev V k) \<and>
     (\<forall>t a d k. mx V k a = None \<longrightarrow>
        (\<exists>k'. k_mutex_lock M t a d k = Some (0, k') \<and> mx V k' = (mx V k)(a := Some (t, 1))
           \<and> sm V k' = sm V k \<and> ev V k' = ev V k)) \<and>
     (\<forall>t a d k n. mx V k a = Some (t, n) \<longrightarrow>
        (\<exists>k'. k_mutex_lock M t a d k = Some (0, k') \<and> mx V k' = (mx V k)(a := Some (t, Suc n))
           \<and> sm V k' = sm V k \<and> ev V k' = ev V k)) \<and>
     (\<forall>t a k u n. mx V k a = Some (u, n) \<and> u \<noteq> t \<longrightarrow>
        k_mutex_lock M t a (K_NO_WAIT C) k = Some (neg_errno E ''EBUSY'', k)) \<and>
     (\<forall>t a k u n. mx V k a = Some (u, n) \<and> u \<noteq> t \<longrightarrow> k_mutex_lock M t a (K_FOREVER C) k = None) \<and>
     (\<forall>t a k n. mx V k a = Some (t, Suc n) \<longrightarrow>
        (\<exists>k'. k_mutex_unlock M t a k = (0, k')
           \<and> mx V k' = (mx V k)(a := (if n = 0 then None else Some (t, n)))
           \<and> sm V k' = sm V k \<and> ev V k' = ev V k)) \<and>
     (\<forall>t a k u n. mx V k a = Some (u, n) \<and> u \<noteq> t \<longrightarrow>
        k_mutex_unlock M t a k = (neg_errno E ''EPERM'', k)) \<and>
     (\<forall>t a k. mx V k a = None \<longrightarrow> k_mutex_unlock M t a k = (neg_errno E ''EINVAL'', k))"

section \<open>Semaphores\<close>

record 'k sem_api =
  k_sem_init :: "addr \<Rightarrow> u32 \<Rightarrow> u32 \<Rightarrow> 'k \<Rightarrow> int \<times> 'k"
  k_sem_take :: "addr \<Rightarrow> k_timeout_t \<Rightarrow> 'k \<Rightarrow> (int \<times> 'k) option"
  k_sem_give :: "addr \<Rightarrow> 'k \<Rightarrow> 'k"

text \<open>
  Documented: \<open>k_sem_init\<close> fails with \<open>-EINVAL\<close> when the limit is 0 or below the initial count;
  \<open>k_sem_take\<close> takes a token when there is one, else returns \<open>-EBUSY\<close> without waiting, or pends;
  \<open>k_sem_give\<close> adds a token unless the limit is reached.
\<close>

definition sem_laws :: "errno_values \<Rightarrow> clock_api \<Rightarrow> 'k sem_api \<Rightarrow> 'k view \<Rightarrow> bool" where
  "sem_laws E C S V \<longleftrightarrow>
     (\<forall>a i l k. l \<noteq> 0 \<and> i \<le> l \<longrightarrow>
        (\<exists>k'. k_sem_init S a i l k = (0, k') \<and> sm V k' = (sm V k)(a := (unat i, unat l))
           \<and> mx V k' = mx V k \<and> ev V k' = ev V k)) \<and>
     (\<forall>a i l k. l = 0 \<or> l < i \<longrightarrow> k_sem_init S a i l k = (neg_errno E ''EINVAL'', k)) \<and>
     (\<forall>a d k c l. sm V k a = (Suc c, l) \<longrightarrow>
        (\<exists>k'. k_sem_take S a d k = Some (0, k') \<and> sm V k' = (sm V k)(a := (c, l))
           \<and> mx V k' = mx V k \<and> ev V k' = ev V k)) \<and>
     (\<forall>a k l. sm V k a = (0, l) \<longrightarrow> k_sem_take S a (K_NO_WAIT C) k = Some (neg_errno E ''EBUSY'', k)) \<and>
     (\<forall>a k l. sm V k a = (0, l) \<longrightarrow> k_sem_take S a (K_FOREVER C) k = None) \<and>
     (\<forall>a k c l. sm V k a = (c, l) \<longrightarrow>
        (let k' = k_sem_give S a k in sm V k' = (sm V k)(a := (if c < l then Suc c else c, l))
           \<and> mx V k' = mx V k \<and> ev V k' = ev V k))"

section \<open>Event objects\<close>

record 'k event_api =
  k_event_init :: "addr \<Rightarrow> 'k \<Rightarrow> 'k"
  k_event_set :: "addr \<Rightarrow> u32 \<Rightarrow> 'k \<Rightarrow> 'k"
  k_event_post :: "addr \<Rightarrow> u32 \<Rightarrow> 'k \<Rightarrow> 'k"
  k_event_clear :: "addr \<Rightarrow> u32 \<Rightarrow> 'k \<Rightarrow> 'k"
  k_event_wait :: "addr \<Rightarrow> u32 \<Rightarrow> bool \<Rightarrow> k_timeout_t \<Rightarrow> 'k \<Rightarrow> (u32 \<times> 'k) option"
  k_is_in_isr :: "'k \<Rightarrow> bool"

unbundle bit_operations_syntax

text \<open>
  Documented: \<open>k_event_set\<close> replaces the posted events, \<open>k_event_post\<close> merges into them,
  \<open>k_event_clear\<close> removes events; \<open>k_event_wait\<close> returns the matching events when one of those
  it waits for is posted (without consuming them), 0 at a timeout.
\<close>

definition event_laws :: "clock_api \<Rightarrow> 'k event_api \<Rightarrow> 'k view \<Rightarrow> bool" where
  "event_laws C A V \<longleftrightarrow>
     (\<forall>a k. ev V (k_event_init A a k) = (ev V k)(a := 0) \<and> mx V (k_event_init A a k) = mx V k
        \<and> sm V (k_event_init A a k) = sm V k \<and> k_is_in_isr A (k_event_init A a k) = k_is_in_isr A k) \<and>
     (\<forall>a f k. ev V (k_event_set A a f k) = (ev V k)(a := f) \<and> mx V (k_event_set A a f k) = mx V k
        \<and> sm V (k_event_set A a f k) = sm V k \<and> k_is_in_isr A (k_event_set A a f k) = k_is_in_isr A k) \<and>
     (\<forall>a f k. ev V (k_event_post A a f k) = (ev V k)(a := ev V k a OR f)
        \<and> mx V (k_event_post A a f k) = mx V k
        \<and> sm V (k_event_post A a f k) = sm V k \<and> k_is_in_isr A (k_event_post A a f k) = k_is_in_isr A k) \<and>
     (\<forall>a f k. ev V (k_event_clear A a f k) = (ev V k)(a := ev V k a AND NOT f)
        \<and> mx V (k_event_clear A a f k) = mx V k
        \<and> sm V (k_event_clear A a f k) = sm V k
        \<and> k_is_in_isr A (k_event_clear A a f k) = k_is_in_isr A k) \<and>
     (\<forall>a f d k. ev V k a AND f \<noteq> 0 \<longrightarrow> k_event_wait A a f False d k = Some (ev V k a AND f, k)) \<and>
     (\<forall>a f k. ev V k a AND f = 0 \<longrightarrow> k_event_wait A a f False (K_FOREVER C) k = None) \<and>
     (\<forall>a f k. ev V k a AND f = 0 \<longrightarrow> k_event_wait A a f False (K_NO_WAIT C) k = Some (0, k))"

section \<open>Threads\<close>

text \<open>
  A \<open>k_tid_t\<close> is the address of the \<open>struct k_thread\<close>. \<open>k_thread_create\<close> gets that address, the
  index of the stack and the first argument of the entry function (the other arguments are null
  pointers in the modelled build); \<open>k_thread_exit\<close> is what happens when the entry function returns.
\<close>

record 'k thread_api =
  k_thread_create :: "tid \<Rightarrow> nat \<Rightarrow> addr \<Rightarrow> int \<Rightarrow> u32 \<Rightarrow> k_timeout_t \<Rightarrow> 'k \<Rightarrow> tid option \<times> 'k"
  k_thread_name_set :: "tid \<Rightarrow> string \<Rightarrow> 'k \<Rightarrow> int \<times> 'k"
  k_thread_start :: "tid \<Rightarrow> 'k \<Rightarrow> 'k"
  k_thread_join :: "tid \<Rightarrow> k_timeout_t \<Rightarrow> 'k \<Rightarrow> (int \<times> 'k) option"
  k_thread_exit :: "tid \<Rightarrow> 'k \<Rightarrow> 'k"

text \<open>What a \<open>struct k_thread\<close> holds: the argument and the stack of the thread it describes.\<close>

datatype kthread = Unused | Created addr nat | Running addr nat | Dead

type_synonym 'k thread_view = "'k \<Rightarrow> tid \<Rightarrow> kthread"

text \<open>
  Documented: \<open>k_thread_create\<close> initialises the structure and returns its address, and a thread
  made with \<open>K_FOREVER\<close> waits for \<open>k_thread_start\<close>; nothing is promised when the structure or
  the stack belongs to a running thread. (The law extends this to a structure that was created and never started: the code
  creates one there again when a failed start is followed by another.) \<open>k_thread_join\<close> returns 0 once the
  thread has ended; its \<open>-EDEADLK\<close>, for a thread that joins itself, is not modelled.
  \<open>k_thread_name_set\<close> returns 0 when names are configured (\<open>named\<close>) and \<open>-ENOSYS\<close> when not.
  None of these calls touches a mutex, semaphore or event.
\<close>

definition thread_laws ::
  "errno_values \<Rightarrow> clock_api \<Rightarrow> 'k thread_api \<Rightarrow> bool \<Rightarrow> 'k view \<Rightarrow> 'k thread_view \<Rightarrow> bool" where
  "thread_laws E C T named V TV \<longleftrightarrow>
     (\<forall>t s a prio opt k. (\<forall>b n. TV k t \<noteq> Running b n) \<longrightarrow>
        (\<exists>k'. k_thread_create T t s a prio opt (K_FOREVER C) k = (Some t, k') \<and>
           TV k' = (TV k)(t := Created a s) \<and> mx V k' = mx V k \<and> sm V k' = sm V k \<and> ev V k' = ev V k)) \<and>
     (\<forall>t n k. \<exists>k'. k_thread_name_set T t n k = (if named then 0 else neg_errno E ''ENOSYS'', k') \<and>
        TV k' = TV k \<and> mx V k' = mx V k \<and> sm V k' = sm V k \<and> ev V k' = ev V k) \<and>
     (\<forall>t a s k. TV k t = Created a s \<longrightarrow> TV (k_thread_start T t k) = (TV k)(t := Running a s)) \<and>
     (\<forall>t k. mx V (k_thread_start T t k) = mx V k \<and> sm V (k_thread_start T t k) = sm V k
        \<and> ev V (k_thread_start T t k) = ev V k) \<and>
     (\<forall>t k. TV k t = Dead \<longrightarrow> k_thread_join T t (K_FOREVER C) k = Some (0, k)) \<and>
     (\<forall>t k a s. TV k t = Running a s \<or> TV k t = Created a s \<longrightarrow> k_thread_join T t (K_FOREVER C) k = None) \<and>
     (\<forall>t k a s. TV k t = Running a s \<longrightarrow> TV (k_thread_exit T t k) = (TV k)(t := Dead)) \<and>
     (\<forall>t k. mx V (k_thread_exit T t k) = mx V k \<and> sm V (k_thread_exit T t k) = sm V k
        \<and> ev V (k_thread_exit T t k) = ev V k)"

text \<open>Mutex and event calls leave the threads alone.\<close>

definition thread_frame :: "'k mutex_api \<Rightarrow> 'k event_api \<Rightarrow> 'k thread_view \<Rightarrow> bool" where
  "thread_frame M A TV \<longleftrightarrow>
     (\<forall>t a d k r k'. k_mutex_lock M t a d k = Some (r, k') \<longrightarrow> TV k' = TV k) \<and>
     (\<forall>t a k r k'. k_mutex_unlock M t a k = (r, k') \<longrightarrow> TV k' = TV k) \<and>
     (\<forall>a f k. TV (k_event_set A a f k) = TV k \<and> TV (k_event_post A a f k) = TV k \<and>
        TV (k_event_clear A a f k) = TV k)"

end
