(* ===== verification/Error_Result.thy ===== *)
theory Error_Result
  imports Zephyr_API
begin

text \<open>
  The error codes (src/zpp_include/zephyr_error_code.hpp) and the two result classes
  (src/zpp_include/zephyr_result.hpp). An error code is a value of the 8-bit enumeration, named or
  not; \<open>zephyr_error_code_table\<close> lists the enumerators with the \<open>errno.h\<close> macro each is
  defined as. The locale \<open>error_result\<close> is the contract the two classes share.
\<close>

section \<open>ZephyrErrorCode\<close>

type_synonym zephyr_error_code = u8

definition zephyr_error_code_table :: "(string \<times> string) list" where
  "zephyr_error_code_table = [
    (''Ok'', ''0''), (''Perm'', ''EPERM''), (''Noent'', ''ENOENT''), (''Srch'', ''ESRCH''),
    (''Intr'', ''EINTR''), (''Io'', ''EIO''), (''Nxio'', ''ENXIO''), (''E2big'', ''E2BIG''),
    (''Noexec'', ''ENOEXEC''), (''Badf'', ''EBADF''), (''Child'', ''ECHILD''),
    (''Again'', ''EAGAIN''), (''Nomem'', ''ENOMEM''), (''Acces'', ''EACCES''),
    (''Fault'', ''EFAULT''), (''Notblk'', ''ENOTBLK''), (''Busy'', ''EBUSY''),
    (''Exits'', ''EEXIST''), (''Xdev'', ''EXDEV''), (''Nodev'', ''ENODEV''),
    (''Notdir'', ''ENOTDIR''), (''Isdir'', ''EISDIR''), (''Inval'', ''EINVAL''),
    (''Nfile'', ''ENFILE''), (''Mfile'', ''EMFILE''), (''Notty'', ''ENOTTY''),
    (''Txtbsy'', ''ETXTBSY''), (''Fbig'', ''EFBIG''), (''Nospc'', ''ENOSPC''),
    (''Spipe'', ''ESPIPE''), (''Rofs'', ''EROFS''), (''Mlink'', ''EMLINK''),
    (''Pipe'', ''EPIPE''), (''Dom'', ''EDOM''), (''Range'', ''ERANGE''),
    (''Nomsg'', ''ENOMSG''), (''Deadlk'', ''EDEADLK''), (''Nolck'', ''ENOLCK''),
    (''Nostr'', ''ENOSTR''), (''Nodata'', ''ENODATA''), (''Time'', ''ETIME''),
    (''Nosr'', ''ENOSR''), (''Proto'', ''EPROTO''), (''Badmsg'', ''EBADMSG''),
    (''Nosys'', ''ENOSYS''), (''Notempty'', ''ENOTEMPTY''),
    (''Nametoolong'', ''ENAMETOOLONG''), (''Loop'', ''ELOOP''),
    (''Opnotsupp'', ''EOPNOTSUPP''), (''Pfnosupport'', ''EPFNOSUPPORT''),
    (''Connreset'', ''ECONNRESET''), (''Nobufs'', ''ENOBUFS''),
    (''Afnosupport'', ''EAFNOSUPPORT''), (''Prototype'', ''EPROTOTYPE''),
    (''Notsock'', ''ENOTSOCK''), (''Noprotoopt'', ''ENOPROTOOPT''),
    (''Shutdown'', ''ESHUTDOWN''), (''Connrefused'', ''ECONNREFUSED''),
    (''Addrinuse'', ''EADDRINUSE''), (''Connaborted'', ''ECONNABORTED''),
    (''Netunreach'', ''ENETUNREACH''), (''Netdown'', ''ENETDOWN''),
    (''Timeout'', ''ETIMEDOUT''), (''Hostdown'', ''EHOSTDOWN''),
    (''Hostunreach'', ''EHOSTUNREACH''), (''Inprogress'', ''EINPROGRESS''),
    (''Already'', ''EALREADY''), (''Destaddrreq'', ''EDESTADDRREQ''),
    (''Msgsize'', ''EMSGSIZE''), (''Protonosupport'', ''EPROTONOSUPPORT''),
    (''Socktnosupport'', ''ESOCKTNOSUPPORT''), (''Addrnotavail'', ''EADDRNOTAVAIL''),
    (''Netreset'', ''ENETRESET''), (''Isconn'', ''EISCONN''), (''Notconn'', ''ENOTCONN''),
    (''Toomanyrefs'', ''ETOOMANYREFS''), (''Notsup'', ''ENOTSUP''), (''Ilseq'', ''EILSEQ''),
    (''Overflow'', ''EOVERFLOW''), (''Canceled'', ''ECANCELED''),
    (''WouldBlock'', ''EWOULDBLOCK'')]"

definition enumerator :: "errno_values \<Rightarrow> string \<Rightarrow> zephyr_error_code option" where
  "enumerator E name = map_option (\<lambda>macro. word_of_nat (E macro)) (map_of zephyr_error_code_table name)"

definition Already :: "errno_values \<Rightarrow> zephyr_error_code" where
  "Already E = word_of_nat (E ''EALREADY'')"

definition Nodev :: "errno_values \<Rightarrow> zephyr_error_code" where
  "Nodev E = word_of_nat (E ''ENODEV'')"

definition Nomem :: "errno_values \<Rightarrow> zephyr_error_code" where
  "Nomem E = word_of_nat (E ''ENOMEM'')"

definition Nosys :: "errno_values \<Rightarrow> zephyr_error_code" where
  "Nosys E = word_of_nat (E ''ENOSYS'')"

lemma enumerator_named [simp]:
  "enumerator E ''Already'' = Some (Already E)"
  "enumerator E ''Nodev'' = Some (Nodev E)"
  "enumerator E ''Nomem'' = Some (Nomem E)"
  "enumerator E ''Nosys'' = Some (Nosys E)"
  by (simp_all add: enumerator_def zephyr_error_code_table_def Already_def Nodev_def Nomem_def Nosys_def)

text \<open>
  \<open>zephyr_to_zpp_error_code(uint32_t v)\<close> is a \<open>static_cast\<close> to the 8-bit enumeration: the low
  byte. Its callers pass the \<open>int\<close> a kernel call returned, converted to \<open>uint32_t\<close>.
\<close>

definition zephyr_to_zpp_error_code :: "u32 \<Rightarrow> zephyr_error_code" where
  "zephyr_to_zpp_error_code v = ucast v"

definition ret_code :: "int \<Rightarrow> zephyr_error_code" where
  "ret_code ret = zephyr_to_zpp_error_code (word_of_int ret)"

lemma uint_ret_code: "uint (ret_code ret) = ret mod 256"
proof -
  have "uint (ret_code ret) = (ret mod 2 ^ 32) mod 2 ^ 8"
    by (simp add: ret_code_def zephyr_to_zpp_error_code_def uint_up_ucast is_down unsigned_ucast_eq
        take_bit_eq_mod uint_word_of_int)
  also have "\<dots> = ret mod 2 ^ 8"
    by (rule mod_mod_cancel) simp
  finally show ?thesis by simp
qed

text \<open>A kernel call that fails with \<open>-e\<close> stores the byte \<open>256 - e\<close>, not \<open>e\<close>.\<close>

lemma ret_code_neg_errno:
  assumes "errno_laws E" and "n \<noteq> ''0''"
  shows "ret_code (neg_errno E n) = word_of_nat (256 - E n)"
proof -
  from assms have e: "0 < E n" "E n < 256"
    by (auto simp: errno_laws_def)
  have "uint (ret_code (neg_errno E n)) = (- int (E n)) mod 256"
    by (simp add: uint_ret_code neg_errno_def)
  also have "\<dots> = 256 - int (E n)"
    using e by (simp add: zmod_zminus1_eq_if)
  also have "\<dots> = int (unat (word_of_nat (256 - E n) :: u8))"
    using e by (subst unat_u8_of_nat) (simp_all add: of_nat_diff)
  finally show ?thesis
    by (simp add: word_uint_eq_iff del: of_nat_diff)
qed

lemma ret_code_wrong:
  assumes "errno_laws E" and "n \<noteq> ''0''"
  shows "ret_code (neg_errno E n) = word_of_nat (E m) \<longleftrightarrow> E n + E m = 256"
proof -
  from assms have e: "0 < E n" "E n < 256" "E m < 256"
    by (auto simp: errno_laws_def) (metis less_numeral_extra(3) zero_less_numeral)
  then have "(word_of_nat (256 - E n) :: u8) = word_of_nat (E m) \<longleftrightarrow> 256 - E n = E m"
    by (metis One_nat_def add.right_neutral add_Suc_right diff_less unat_u8_of_nat zero_less_numeral)
  then show ?thesis
    using assms e by (auto simp: ret_code_neg_errno)
qed

section \<open>ZephyrResult\<close>

record zephyr_result =
  r_is_ok :: bool
  r_error_value :: zephyr_error_code

definition ZephyrResult :: zephyr_result where
  "ZephyrResult = \<lparr>r_is_ok = True, r_error_value = 0\<rparr>"

definition ZephyrResult_error :: "zephyr_error_code \<Rightarrow> zephyr_result" where
  "ZephyrResult_error e = \<lparr>r_is_ok = False, r_error_value = e\<rparr>"

definition r_assign_error :: "zephyr_error_code \<Rightarrow> zephyr_result \<Rightarrow> zephyr_result" where
  "r_assign_error e res = res\<lparr>r_is_ok := False, r_error_value := e\<rparr>"

definition r_bool :: "zephyr_result \<Rightarrow> bool" where
  "r_bool res = r_is_ok res"

definition r_error :: "bool \<Rightarrow> zephyr_result \<Rightarrow> zephyr_error_code run" where
  "r_error config_assert res =
     bindR (ZPP_ASSERT config_assert (\<not> r_is_ok res)) (\<lambda>_. Inr (r_error_value res))"

definition r_assign_error_from :: "bool \<Rightarrow> zephyr_result \<Rightarrow> zephyr_result \<Rightarrow> zephyr_result run" where
  "r_assign_error_from config_assert other res =
     (let res = res\<lparr>r_is_ok := False\<rparr> in
      bindR (r_error config_assert other) (\<lambda>e. Inr (res\<lparr>r_error_value := e\<rparr>)))"

section \<open>ZephyrBoolResult\<close>

record zephyr_bool_result =
  b_is_ok :: bool
  b_bool_result :: bool
  b_error_value :: zephyr_error_code

definition ZephyrBoolResult :: zephyr_bool_result where
  "ZephyrBoolResult = \<lparr>b_is_ok = True, b_bool_result = True, b_error_value = 0\<rparr>"

definition ZephyrBoolResult_error :: "zephyr_error_code \<Rightarrow> zephyr_bool_result" where
  "ZephyrBoolResult_error e = \<lparr>b_is_ok = False, b_bool_result = False, b_error_value = e\<rparr>"

definition b_assign_value :: "bool \<Rightarrow> zephyr_bool_result \<Rightarrow> zephyr_bool_result" where
  "b_assign_value v res = res\<lparr>b_is_ok := True, b_bool_result := v\<rparr>"

definition b_assign_error :: "zephyr_error_code \<Rightarrow> zephyr_bool_result \<Rightarrow> zephyr_bool_result" where
  "b_assign_error e res = res\<lparr>b_is_ok := False, b_bool_result := False, b_error_value := e\<rparr>"

definition b_has_error :: "zephyr_bool_result \<Rightarrow> bool" where
  "b_has_error res = (\<not> b_is_ok res)"

definition b_bool :: "bool \<Rightarrow> zephyr_bool_result \<Rightarrow> bool run" where
  "b_bool config_assert res =
     bindR (ZPP_ASSERT config_assert (\<not> b_has_error res)) (\<lambda>_. Inr (b_bool_result res))"

definition b_error :: "bool \<Rightarrow> zephyr_bool_result \<Rightarrow> zephyr_error_code run" where
  "b_error config_assert res =
     bindR (ZPP_ASSERT config_assert (b_has_error res)) (\<lambda>_. Inr (b_error_value res))"

definition b_assign_error_from ::
  "bool \<Rightarrow> zephyr_bool_result \<Rightarrow> zephyr_bool_result \<Rightarrow> zephyr_bool_result run" where
  "b_assign_error_from config_assert other res =
     (let res = res\<lparr>b_is_ok := False, b_bool_result := False\<rparr> in
      bindR (b_error config_assert other) (\<lambda>e. Inr (res\<lparr>b_error_value := e\<rparr>)))"

lemmas result_defs =
  ZephyrResult_def ZephyrResult_error_def r_assign_error_def r_bool_def r_error_def
  r_assign_error_from_def ZephyrBoolResult_def ZephyrBoolResult_error_def b_assign_value_def
  b_assign_error_def b_has_error_def b_bool_def b_error_def b_assign_error_from_def

text \<open>
  An error result never reads as true, whatever was assigned before: the invariant every
  constructor and every assignment of \<open>ZephyrBoolResult\<close> keeps.
\<close>

definition b_consistent :: "zephyr_bool_result \<Rightarrow> bool" where
  "b_consistent res \<longleftrightarrow> (b_bool_result res \<longrightarrow> b_is_ok res)"

lemma b_consistent_ops [simp, intro]:
  "b_consistent ZephyrBoolResult"
  "b_consistent (ZephyrBoolResult_error e)"
  "b_consistent (b_assign_value v res)"
  "b_consistent (b_assign_error e res)"
  by (simp_all add: b_consistent_def result_defs)

section \<open>The contract of a result class\<close>

locale error_result =
  fixes ok :: 'r
    and assign_error :: "zephyr_error_code \<Rightarrow> 'r \<Rightarrow> 'r"
    and assign_from :: "bool \<Rightarrow> 'r \<Rightarrow> 'r \<Rightarrow> 'r run"
    and failed :: "'r \<Rightarrow> bool"
    and error :: "bool \<Rightarrow> 'r \<Rightarrow> zephyr_error_code run"
  assumes ok_not_failed: "\<not> failed ok"
    and assign_failed: "failed (assign_error e r)"
    and error_assigned: "error a (assign_error e r) = Inr e"
    and error_of_ok: "\<not> failed r \<Longrightarrow> error True r = Inl Panic"
    and error_of_failed: "failed r \<Longrightarrow> error a r = error False r"
    and error_off: "\<exists>e. error False r = Inr e"
    and assign_from_error: "error a other = Inr e \<Longrightarrow> assign_from a other r = Inr (assign_error e r)"
begin

lemma last_error_wins: "error a (assign_error e (assign_error e' r)) = Inr e"
  by (rule error_assigned)

lemma error_total_on_failed: "failed r \<Longrightarrow> \<exists>e. error a r = Inr e"
  using error_of_failed error_off by metis

lemma error_copies:
  assumes "failed other" and "assign_from a other r = Inr r'"
  shows "failed r' \<and> error a r' = error a other"
proof -
  from assms(1) obtain e where e: "error a other = Inr e"
    using error_total_on_failed by blast
  with assms(2) have "r' = assign_error e r"
    using assign_from_error by simp
  with e show ?thesis
    by (simp add: assign_failed error_assigned)
qed

end

interpretation zr: error_result ZephyrResult r_assign_error r_assign_error_from "\<lambda>r. \<not> r_bool r" r_error
  by unfold_locales (auto simp: result_defs ZPP_ASSERT_def)

interpretation zb: error_result ZephyrBoolResult b_assign_error b_assign_error_from b_has_error b_error
  by unfold_locales (auto simp: result_defs ZPP_ASSERT_def)

section \<open>What an error result tells its caller\<close>

text \<open>
  Every wrapper stores the error of a kernel call with
  \<open>assign_error(zephyr_to_zpp_error_code(ret))\<close>, where \<open>ret\<close> is the negative number the kernel
  returned, while the enumerators of \<open>ZephyrErrorCode\<close> are the positive numbers of errno.h. The
  caller therefore reads \<open>256 - errno\<close>: it is the enumerator of the error that happened only for
  \<open>errno = 128\<close>, it is never \<open>Ok\<close>, and it equals the enumerator of another error \<open>m\<close> exactly
  when the two numbers add up to 256.
\<close>

theorem kernel_errors_misnamed:
  assumes "errno_laws E" and "n \<noteq> ''0''" and "(c, n) \<in> set zephyr_error_code_table"
  shows "r_error a (r_assign_error (ret_code (neg_errno E n)) res) = Inr (word_of_nat (256 - E n)) \<and>
    (word_of_nat (256 - E n) = (word_of_nat (E m) :: zephyr_error_code) \<longleftrightarrow> E n + E m = 256) \<and>
    word_of_nat (256 - E n) \<noteq> (0 :: zephyr_error_code)"
proof -
  have "E n \<noteq> 256" using assms(1,2) by (auto simp: errno_laws_def)
  then have "word_of_nat (256 - E n) \<noteq> (0 :: zephyr_error_code)"
    using ret_code_wrong [OF assms(1,2), of "''0''"] assms(1,2)
    by (simp add: ret_code_neg_errno errno_laws_def)
  then show ?thesis
    using assms(1,2) ret_code_wrong [OF assms(1,2), of m]
    by (simp add: zr.error_assigned ret_code_neg_errno)
qed

text \<open>The numbers of newlib's errno.h; any other name gets an unused number.\<close>

definition newlib_errno :: errno_values where
  "newlib_errno n =
     (if n = ''0'' then 0 else if n = ''EAGAIN'' then 11 else if n = ''EBUSY'' then 16
      else if n = ''ENOMSG'' then 35 else if n = ''EMSGSIZE'' then 122 else if n = ''ENOTSUP'' then 134 else 200)"

theorem kernel_errors_misnamed_witness:
  "r_error True (r_assign_error (ret_code (neg_errno newlib_errno ''ENOTSUP'')) ZephyrResult)
    = Inr (word_of_nat (newlib_errno ''EMSGSIZE''))"
proof -
  have E: "errno_laws newlib_errno" by (simp add: errno_laws_def newlib_errno_def)
  have "(''Notsup'', ''ENOTSUP'') \<in> set zephyr_error_code_table" by (simp add: zephyr_error_code_table_def)
  from kernel_errors_misnamed [OF E _ this, of True ZephyrResult "''EMSGSIZE''"] show ?thesis
    by (simp add: newlib_errno_def)
qed

end
