(* ===== verification/Kernel_Pool.thy ===== *)
theory Kernel_Pool
  imports Zephyr_API
begin

text \<open>
  With \<open>CONFIG_USERSPACE\<close> the kernel objects behind \<open>Mutex\<close>, \<open>Semaphore\<close> and \<open>Event\<close> come
  from static arrays: a constructor searches a busy flag that is false, the destructor searches
  the object's address. This theory has the parts of that pattern the classes share, and the
  locale \<open>object_pool\<close>: what an owner of such a pool promises to the objects it serves.
\<close>

section \<open>Busy flags\<close>

text \<open>
  \<open>for (; index < nslots; index++) if (!BUSY[index]) break;\<close> over the first \<open>nslots\<close> flags.
\<close>

definition free_slot :: "nat \<Rightarrow> bool list \<Rightarrow> nat" where
  "free_slot nslots busy = find_index (\<lambda>b. \<not> b) (take nslots busy)"

text \<open>\<open>for (index = 0; index < nslots; index++) if (p == ARRAY[index])\<close>.\<close>

definition slot_of :: "nat \<Rightarrow> addr list \<Rightarrow> addr \<Rightarrow> nat" where
  "slot_of nslots arr p = find_index (\<lambda>a. a = p) (take nslots arr)"

definition live_slots :: "addr list \<Rightarrow> bool list \<Rightarrow> addr set" where
  "live_slots arr busy = {arr ! i |i. i < length busy \<and> busy ! i}"

lemma free_slot_le: "free_slot nslots busy \<le> nslots"
  using find_index_le [of "\<lambda>b. \<not> b" "take nslots busy"] by (simp add: free_slot_def)

lemma free_slot_free:
  assumes "free_slot nslots busy < nslots" and "length busy = nslots"
  shows "\<not> busy ! free_slot nslots busy"
  using assms find_index_nth [of "\<lambda>b. \<not> b" "take nslots busy"] by (simp add: free_slot_def)

lemma free_slot_full:
  assumes "length busy = nslots"
  shows "free_slot nslots busy = nslots \<longleftrightarrow> (\<forall>i<nslots. busy ! i)"
proof -
  have "free_slot nslots busy = nslots \<longleftrightarrow> \<not> find_index (\<lambda>b. \<not> b) busy < length busy"
    using assms find_index_le [of "\<lambda>b. \<not> b" busy] by (simp add: free_slot_def) linarith
  also have "\<dots> \<longleftrightarrow> (\<forall>b\<in>set busy. b)"
    by (simp add: find_index_less_iff)
  finally show ?thesis
    using assms by (simp add: all_set_conv_all_nth)
qed

lemma slot_of_nth:
  assumes "distinct arr" and "length arr = nslots" and "i < nslots"
  shows "slot_of nslots arr (arr ! i) = i"
proof -
  let ?j = "find_index (\<lambda>a. a = arr ! i) arr"
  from assms have "?j < length arr"
    by (subst find_index_less_iff) auto
  moreover from this have "arr ! ?j = arr ! i"
    using find_index_nth [of "\<lambda>a. a = arr ! i" arr] by simp
  ultimately show ?thesis
    using assms by (simp add: slot_of_def nth_eq_iff_index_eq)
qed

lemma slot_of_member: "p \<in> set arr \<Longrightarrow> length arr = nslots \<Longrightarrow> slot_of nslots arr p < nslots"
  by (auto simp: slot_of_def find_index_less_iff)

lemma slot_of_absent: "p \<notin> set arr \<Longrightarrow> length arr = nslots \<Longrightarrow> slot_of nslots arr p = nslots"
  using find_index_less_iff [of "\<lambda>a. a = p" arr] find_index_le [of "\<lambda>a. a = p" arr]
  unfolding slot_of_def by (auto simp: order_le_less)

lemma live_slots_subset: "length arr = length busy \<Longrightarrow> live_slots arr busy \<subseteq> set arr"
  by (auto simp: live_slots_def)

lemma finite_live_slots [simp]: "length arr = length busy \<Longrightarrow> finite (live_slots arr busy)"
  by (rule finite_subset [OF live_slots_subset]) simp_all

lemma live_slots_iff:
  "distinct arr \<Longrightarrow> length arr = length busy \<Longrightarrow> i < length busy \<Longrightarrow>
    arr ! i \<in> live_slots arr busy \<longleftrightarrow> busy ! i"
  by (auto simp: live_slots_def nth_eq_iff_index_eq)

lemma live_slots_set:
  "distinct arr \<Longrightarrow> length arr = length busy \<Longrightarrow> i < length busy \<Longrightarrow>
    live_slots arr (busy[i := True]) = insert (arr ! i) (live_slots arr busy)"
  by (auto simp: live_slots_def nth_list_update)

lemma live_slots_clear:
  assumes "distinct arr" and "length arr = length busy" and "i < length busy"
  shows "live_slots arr (busy[i := False]) = live_slots arr busy - {arr ! i}"
proof
  show "live_slots arr (busy[i := False]) \<subseteq> live_slots arr busy - {arr ! i}"
    using assms by (auto simp: live_slots_def nth_list_update nth_eq_iff_index_eq split: if_splits)
  show "live_slots arr busy - {arr ! i} \<subseteq> live_slots arr (busy[i := False])"
  proof
    fix x assume "x \<in> live_slots arr busy - {arr ! i}"
    then obtain j where "x = arr ! j" "j < length busy" "busy ! j" "j \<noteq> i"
      by (auto simp: live_slots_def)
    then show "x \<in> live_slots arr (busy[i := False])"
      by (auto simp: live_slots_def nth_list_update intro!: exI [of _ j])
  qed
qed

lemma live_slots_full:
  assumes "distinct arr" and "length arr = length busy"
  shows "card (live_slots arr busy) = length busy \<longleftrightarrow> (\<forall>i<length busy. busy ! i)"
proof
  assume full: "\<forall>i<length busy. busy ! i"
  then have "live_slots arr busy = set arr"
    unfolding live_slots_def set_conv_nth using assms(2) by (intro Collect_cong) (metis)
  then show "card (live_slots arr busy) = length busy"
    using assms by (simp add: distinct_card)
next
  assume "card (live_slots arr busy) = length busy"
  with assms have "card (live_slots arr busy) = card (set arr)"
    by (simp add: distinct_card)
  then have "live_slots arr busy = set arr"
    using live_slots_subset [OF assms(2)] by (metis card_subset_eq finite_set)
  then show "\<forall>i<length busy. busy ! i"
    using assms live_slots_iff nth_mem by metis
qed

text \<open>Taking the first free slot of a pool that is not full, and giving one back.\<close>

lemma take_free_slot:
  assumes "distinct arr" and "length arr = n" and "length busy = n" and "card (live_slots arr busy) < n"
  shows "free_slot n busy < n" and "\<not> busy ! free_slot n busy" and "arr ! free_slot n busy \<notin> live_slots arr busy"
    and "live_slots arr (busy[free_slot n busy := True]) = insert (arr ! free_slot n busy) (live_slots arr busy)"
proof -
  have "free_slot n busy \<noteq> n" using assms free_slot_full [of busy n] live_slots_full [of arr busy] by auto
  then show i: "free_slot n busy < n" using free_slot_le [of n busy] by simp
  then show free: "\<not> busy ! free_slot n busy" using assms(3) by (rule free_slot_free)
  with i show "arr ! free_slot n busy \<notin> live_slots arr busy" using assms by (simp add: live_slots_iff)
  from i show "live_slots arr (busy[free_slot n busy := True]) = insert (arr ! free_slot n busy) (live_slots arr busy)"
    using assms by (simp add: live_slots_set)
qed

lemma give_back_slot:
  assumes "distinct arr" and "length arr = n" and "length busy = n" and "a \<in> live_slots arr busy"
  shows "slot_of n arr a < n" and "live_slots arr (busy[slot_of n arr a := False]) = live_slots arr busy - {a}"
proof -
  obtain i where i: "a = arr ! i" "i < n" "busy ! i" using assms(3,4) by (auto simp: live_slots_def)
  then have "slot_of n arr a = i" using assms by (simp add: slot_of_nth)
  with i assms show "slot_of n arr a < n" "live_slots arr (busy[slot_of n arr a := False]) = live_slots arr busy - {a}"
    by (simp_all add: live_slots_clear)
qed

lemma full_has_no_slot:
  assumes "distinct arr" and "length arr = n" and "length busy = n" and "card (live_slots arr busy) = n"
  shows "free_slot n busy = n"
  using assms live_slots_full [of arr busy] free_slot_full [of busy n] by simp

lemma live_slots_card:
  assumes "distinct arr" and "length arr = n" and "length busy = n"
  shows "finite (live_slots arr busy)" and "card (live_slots arr busy) \<le> n"
  using assms card_mono [of "set arr" "live_slots arr busy"] live_slots_subset [of arr busy] card_length [of arr]
  by simp_all

section \<open>The contract of a pool\<close>

text \<open>\<open>n\<close> objects constructed one after the other.\<close>

fun alloc_many :: "('p \<Rightarrow> (addr \<times> 'p) run) \<Rightarrow> nat \<Rightarrow> 'p \<Rightarrow> (addr list \<times> 'p) run" where
  "alloc_many alloc 0 p = Inr ([], p)"
| "alloc_many alloc (Suc n) p =
     bindR (alloc p) (\<lambda>(a, p'). bindR (alloc_many alloc n p') (\<lambda>(as, p''). Inr (a # as, p'')))"

locale object_pool =
  fixes alloc :: "'p \<Rightarrow> (addr \<times> 'p) run"
    and release :: "addr \<Rightarrow> 'p \<Rightarrow> 'p run"
    and live :: "'p \<Rightarrow> addr set"
    and capacity :: nat
    and full :: fault
    and invar :: "'p \<Rightarrow> bool"
  assumes live_finite: "invar p \<Longrightarrow> finite (live p) \<and> card (live p) \<le> capacity"
    and alloc_fresh: "invar p \<Longrightarrow> card (live p) < capacity \<Longrightarrow>
      \<exists>a p'. alloc p = Inr (a, p') \<and> a \<notin> live p \<and> live p' = insert a (live p) \<and> invar p'"
    and alloc_full: "invar p \<Longrightarrow> card (live p) = capacity \<Longrightarrow> alloc p = Inl full"
    and release_live: "invar p \<Longrightarrow> a \<in> live p \<Longrightarrow>
      \<exists>p'. release a p = Inr p' \<and> live p' = live p - {a} \<and> invar p'"
begin

lemma alloc_then_release:
  assumes "invar p" and "alloc p = Inr (a, p')"
  shows "\<exists>p''. release a p' = Inr p'' \<and> live p'' = live p \<and> invar p''"
proof -
  from assms have "card (live p) < capacity"
    using live_finite alloc_full by (metis Inl_Inr_False le_neq_implies_less)
  with assms have *: "a \<notin> live p" "live p' = insert a (live p)" "invar p'"
    using alloc_fresh [of p] by auto
  then obtain p'' where "release a p' = Inr p''" "live p'' = live p' - {a}" "invar p''"
    using release_live [of p' a] by auto
  with * show ?thesis by auto
qed

text \<open>Objects that are alive together never share a kernel object.\<close>

lemma alloc_many_distinct:
  assumes "invar p" and "card (live p) + n \<le> capacity"
  shows "\<exists>as p'. alloc_many alloc n p = Inr (as, p') \<and> length as = n \<and> distinct as \<and>
    set as \<inter> live p = {} \<and> live p' = live p \<union> set as \<and> invar p'"
  using assms
proof (induction n arbitrary: p)
  case 0
  then show ?case by simp
next
  case (Suc n)
  then obtain a p1 where a: "alloc p = Inr (a, p1)" "a \<notin> live p" "live p1 = insert a (live p)" "invar p1"
    using alloc_fresh [of p] by auto
  with Suc.prems have "card (live p1) + n \<le> capacity"
    using live_finite [of p] by simp
  with Suc.IH [OF a(4)] obtain as p' where "alloc_many alloc n p1 = Inr (as, p')" "length as = n"
    "distinct as" "set as \<inter> live p1 = {}" "live p' = live p1 \<union> set as" "invar p'"
    by blast
  with a show ?case by auto
qed

lemma alloc_many_too_many:
  assumes "invar p" and "capacity < card (live p) + n"
  shows "alloc_many alloc n p = Inl full"
  using assms
proof (induction n arbitrary: p)
  case 0
  then show ?case using live_finite [of p] by simp
next
  case (Suc n)
  show ?case
  proof (cases "card (live p) = capacity")
    case True
    then show ?thesis using alloc_full [OF Suc.prems(1)] by auto
  next
    case False
    then have "card (live p) < capacity"
      using live_finite [OF Suc.prems(1)] by simp
    then obtain a p1 where a: "alloc p = Inr (a, p1)" "a \<notin> live p" "live p1 = insert a (live p)" "invar p1"
      using alloc_fresh [OF Suc.prems(1)] by auto
    then have "capacity < card (live p1) + n"
      using Suc.prems live_finite [of p] by simp
    with Suc.IH [OF a(4)] a(1) show ?thesis by auto
  qed
qed

end

end
