(* ===== verification/Kernel_Instance.thy ===== *)
theory Kernel_Instance
  imports Zephyr_API
begin

text \<open>
  A concrete kernel that keeps the documented behaviour of theory Zephyr_API. It shows that the
  hypotheses of the properties can hold together: every witness of the development evaluates the
  model on it. No definition of a component and no property mentions it.
\<close>

record rk =
  rk_mx :: "addr \<Rightarrow> (tid \<times> nat) option"
  rk_sm :: "addr \<Rightarrow> nat \<times> nat"
  rk_ev :: "addr \<Rightarrow> u32"
  rk_isr :: bool
  rk_th :: "tid \<Rightarrow> kthread"
  rk_wq :: "bool \<times> addr list"

definition rk0 :: rk where
  "rk0 = \<lparr>rk_mx = (\<lambda>_. None), rk_sm = (\<lambda>_. (0, 0)), rk_ev = (\<lambda>_. 0), rk_isr = False,
     rk_th = (\<lambda>_. Unused), rk_wq = (False, [])\<rparr>"

definition ref_view :: "rk view" where
  "ref_view = \<lparr>mx = rk_mx, sm = rk_sm, ev = rk_ev\<rparr>"

lemma ref_view_sel [simp]: "mx ref_view = rk_mx" "sm ref_view = rk_sm" "ev ref_view = rk_ev"
  by (simp_all add: ref_view_def)

definition ref_errno :: errno_values where
  "ref_errno n =
     (if n = ''0'' then 0 else if n = ''EPERM'' then 1 else if n = ''EAGAIN'' then 11
      else if n = ''EBUSY'' then 16 else if n = ''EINVAL'' then 22 else if n = ''ENOMSG'' then 35
      else if n = ''EALREADY'' then 120 else 200)"

definition ref_clock :: clock_api where
  "ref_clock = \<lparr>K_NO_WAIT = \<lparr>ticks = 0\<rparr>, K_FOREVER = \<lparr>ticks = -1\<rparr>,
     K_MSEC = (\<lambda>d. \<lparr>ticks = max 0 d\<rparr>), K_USEC = (\<lambda>d. \<lparr>ticks = (max 0 d + 999) div 1000\<rparr>)\<rparr>"

lemma ref_errno_laws [simp]: "errno_laws ref_errno"
  by (simp add: errno_laws_def ref_errno_def)

lemma ref_clock_laws [simp]: "clock_laws ref_clock"
  by (auto simp: clock_laws_def ref_clock_def)

definition ref_mutex :: "rk mutex_api" where
  "ref_mutex =
     \<lparr>k_mutex_init = (\<lambda>a k. k\<lparr>rk_mx := (rk_mx k)(a := None)\<rparr>),
      k_mutex_lock = (\<lambda>t a d k.
        case rk_mx k a of
          None \<Rightarrow> Some (0, k\<lparr>rk_mx := (rk_mx k)(a := Some (t, 1))\<rparr>)
        | Some (u, n) \<Rightarrow>
            if u = t then Some (0, k\<lparr>rk_mx := (rk_mx k)(a := Some (t, Suc n))\<rparr>)
            else if ticks d = 0 then Some (neg_errno ref_errno ''EBUSY'', k)
            else if ticks d = -1 then None else Some (neg_errno ref_errno ''EAGAIN'', k)),
      k_mutex_unlock = (\<lambda>t a k.
        case rk_mx k a of
          None \<Rightarrow> (neg_errno ref_errno ''EINVAL'', k)
        | Some (u, n) \<Rightarrow>
            if u \<noteq> t then (neg_errno ref_errno ''EPERM'', k)
            else (0, k\<lparr>rk_mx := (rk_mx k)(a := (if n \<le> 1 then None else Some (t, n - 1)))\<rparr>))\<rparr>"

lemma ref_mutex_laws [simp]: "mutex_laws ref_errno ref_clock ref_mutex ref_view"
  by (auto simp: mutex_laws_def ref_mutex_def ref_view_def ref_clock_def)

definition ref_sem :: "rk sem_api" where
  "ref_sem =
     \<lparr>k_sem_init = (\<lambda>a i l k.
        if l = 0 \<or> l < i then (neg_errno ref_errno ''EINVAL'', k)
        else (0, k\<lparr>rk_sm := (rk_sm k)(a := (unat i, unat l))\<rparr>)),
      k_sem_take = (\<lambda>a d k.
        case rk_sm k a of (c, l) \<Rightarrow>
          if 0 < c then Some (0, k\<lparr>rk_sm := (rk_sm k)(a := (c - 1, l))\<rparr>)
          else if ticks d = 0 then Some (neg_errno ref_errno ''EBUSY'', k)
          else if ticks d = -1 then None else Some (neg_errno ref_errno ''EAGAIN'', k)),
      k_sem_give = (\<lambda>a k.
        case rk_sm k a of (c, l) \<Rightarrow> k\<lparr>rk_sm := (rk_sm k)(a := (if c < l then Suc c else c, l))\<rparr>)\<rparr>"

lemma ref_sem_laws [simp]: "sem_laws ref_errno ref_clock ref_sem ref_view"
  by (auto simp: sem_laws_def ref_sem_def ref_view_def ref_clock_def Let_def)

definition ref_event :: "rk event_api" where
  "ref_event =
     \<lparr>k_event_init = (\<lambda>a k. k\<lparr>rk_ev := (rk_ev k)(a := 0)\<rparr>),
      k_event_set = (\<lambda>a f k. k\<lparr>rk_ev := (rk_ev k)(a := f)\<rparr>),
      k_event_post = (\<lambda>a f k. k\<lparr>rk_ev := (rk_ev k)(a := rk_ev k a OR f)\<rparr>),
      k_event_clear = (\<lambda>a f k. k\<lparr>rk_ev := (rk_ev k)(a := rk_ev k a AND NOT f)\<rparr>),
      k_event_wait = (\<lambda>a f reset d k.
        if rk_ev k a AND f \<noteq> 0 then Some (rk_ev k a AND f, k)
        else if ticks d = -1 then None else Some (0, k)),
      k_is_in_isr = rk_isr\<rparr>"

lemma ref_event_laws [simp]: "event_laws ref_clock ref_event ref_view"
  by (auto simp: event_laws_def ref_event_def ref_view_def ref_clock_def)

lemma ref_event_isr [simp]: "k_is_in_isr ref_event = rk_isr"
  by (simp add: ref_event_def)

definition ref_thread :: "bool \<Rightarrow> rk thread_api" where
  "ref_thread named =
     \<lparr>k_thread_create = (\<lambda>t s a prio opt d k. (Some t, k\<lparr>rk_th := (rk_th k)(t := Created a s)\<rparr>)),
      k_thread_name_set = (\<lambda>t n k. (if named then 0 else neg_errno ref_errno ''ENOSYS'', k)),
      k_thread_start = (\<lambda>t k. case rk_th k t of
          Created a s \<Rightarrow> k\<lparr>rk_th := (rk_th k)(t := Running a s)\<rparr> | _ \<Rightarrow> k),
      k_thread_join = (\<lambda>t d k. if rk_th k t = Dead then Some (0, k)
          else if ticks d = -1 then None else Some (neg_errno ref_errno ''EAGAIN'', k)),
      k_thread_exit = (\<lambda>t k. k\<lparr>rk_th := (rk_th k)(t := Dead)\<rparr>)\<rparr>"

lemma ref_thread_laws [simp]: "thread_laws ref_errno ref_clock (ref_thread named) named ref_view rk_th"
  by (auto simp: thread_laws_def ref_thread_def ref_view_def ref_clock_def split: kthread.splits)

lemma ref_thread_frame [simp]: "thread_frame ref_mutex ref_event rk_th"
  by (auto simp: thread_frame_def ref_mutex_def ref_event_def split: option.splits if_splits prod.splits)

lemmas ref_defs = rk0_def ref_errno_def ref_clock_def ref_mutex_def ref_sem_def
  ref_event_def neg_errno_def

end
