(* ===== verification/Mutex_Class.thy ===== *)
theory Mutex_Class
  imports Error_Result Kernel_Pool Kernel_Instance
begin

text \<open>
  \<open>zpp_lib::Mutex\<close> (src/zpp_rtos/mutex.cpp): lock, try_lock, try_lock_for and unlock over the
  kernel mutex at address \<open>p\<close> (the member \<open>_p_mutex\<close>), the constructors and the destructor,
  and \<open>std::scoped_lock<Mutex>\<close>. Without \<open>CONFIG_USERSPACE\<close> the kernel mutex is a member of the
  object; with it, it comes from the static pool \<open>ZPP_MUTEX_ARRAY\<close>. The locale
  \<open>lock_contract\<close> is what the clients of the class rely on.
\<close>

section \<open>Operations\<close>

definition Mutex_ctor :: "'k mutex_api \<Rightarrow> addr \<Rightarrow> 'k \<Rightarrow> addr \<times> 'k" where
  "Mutex_ctor M this_mutex k = (this_mutex, k_mutex_init M this_mutex k)"

definition Mutex_lock ::
  "bool \<Rightarrow> clock_api \<Rightarrow> 'k mutex_api \<Rightarrow> tid \<Rightarrow> addr \<Rightarrow> 'k \<Rightarrow> (zephyr_result \<times> 'k) run" where
  "Mutex_lock config_assert C M t p k =
     (let res = ZephyrResult in
      case k_mutex_lock M t p (K_FOREVER C) k of
        None \<Rightarrow> Inl Stuck
      | Some (ret, k') \<Rightarrow>
          if ret \<noteq> 0 then bindR (ZPP_ASSERT config_assert False)
            (\<lambda>_. Inr (r_assign_error (ret_code ret) res, k'))
          else Inr (res, k'))"

definition Mutex_try_lock_for ::
  "bool \<Rightarrow> errno_values \<Rightarrow> clock_api \<Rightarrow> 'k mutex_api \<Rightarrow> int \<Rightarrow> tid \<Rightarrow> addr \<Rightarrow> 'k
    \<Rightarrow> (zephyr_bool_result \<times> 'k) run" where
  "Mutex_try_lock_for config_assert E C M timeout t p k =
     (case k_mutex_lock M t p (K_MSEC C timeout) k of
        None \<Rightarrow> Inl Stuck
      | Some (ret, k') \<Rightarrow>
          let res = ZephyrBoolResult in
          if ret = neg_errno E ''EAGAIN'' then Inr (b_assign_value False res, k')
          else if ret \<noteq> 0 then bindR (ZPP_ASSERT config_assert False)
            (\<lambda>_. Inr (b_assign_error (ret_code ret) (b_assign_value False res), k'))
          else Inr (res, k'))"

definition Mutex_try_lock ::
  "bool \<Rightarrow> errno_values \<Rightarrow> clock_api \<Rightarrow> 'k mutex_api \<Rightarrow> tid \<Rightarrow> addr \<Rightarrow> 'k
    \<Rightarrow> (zephyr_bool_result \<times> 'k) run" where
  "Mutex_try_lock config_assert E C M t p k = Mutex_try_lock_for config_assert E C M 0 t p k"

definition Mutex_unlock ::
  "bool \<Rightarrow> 'k mutex_api \<Rightarrow> tid \<Rightarrow> addr \<Rightarrow> 'k \<Rightarrow> (zephyr_result \<times> 'k) run" where
  "Mutex_unlock config_assert M t p k =
     (let res = ZephyrResult; (ret, k') = k_mutex_unlock M t p k in
      if ret \<noteq> 0 then bindR (ZPP_ASSERT config_assert False)
        (\<lambda>_. Inr (r_assign_error (ret_code ret) res, k'))
      else Inr (res, k'))"

text \<open>
  \<open>std::scoped_lock<Mutex> guard(m)\<close>: \<open>lock()\<close> when the guard is made, \<open>unlock()\<close> at the end
  of its scope, both results dropped.
\<close>

definition scoped_lock ::
  "('s \<Rightarrow> (zephyr_result \<times> 's) run) \<Rightarrow> ('s \<Rightarrow> (zephyr_result \<times> 's) run)
    \<Rightarrow> ('s \<Rightarrow> ('a \<times> 's) run) \<Rightarrow> 's \<Rightarrow> ('a \<times> 's) run" where
  "scoped_lock lock unlock body s =
     bindR (lock s) (\<lambda>(_, s1). bindR (body s1) (\<lambda>(x, s2). bindR (unlock s2) (\<lambda>(_, s3). Inr (x, s3))))"

section \<open>The contract of a lock\<close>

locale lock_contract =
  fixes lock :: "'s \<Rightarrow> (zephyr_result \<times> 's) run"
    and unlock :: "'s \<Rightarrow> (zephyr_result \<times> 's) run"
    and free :: "'s \<Rightarrow> bool"
    and held :: "'s \<Rightarrow> bool"
    and rest :: "'s \<Rightarrow> 'o"
    and invar :: "'s \<Rightarrow> bool"
  assumes lock_free: "invar s \<Longrightarrow> free s \<Longrightarrow>
      \<exists>s'. lock s = Inr (ZephyrResult, s') \<and> held s' \<and> rest s' = rest s \<and> invar s'"
    and unlock_held: "invar s \<Longrightarrow> held s \<Longrightarrow>
      \<exists>s'. unlock s = Inr (ZephyrResult, s') \<and> free s' \<and> rest s' = rest s \<and> invar s'"
    and lock_taken: "invar s \<Longrightarrow> \<not> free s \<Longrightarrow> \<not> held s \<Longrightarrow> lock s = Inl Stuck"
    and unlock_not_held: "invar s \<Longrightarrow> \<not> held s \<Longrightarrow> free s \<Longrightarrow> \<forall>s'. unlock s \<noteq> Inr (ZephyrResult, s')"
begin

lemma lock_unlock:
  assumes "invar s" and "free s"
  shows "\<exists>s1 s2. lock s = Inr (ZephyrResult, s1) \<and> unlock s1 = Inr (ZephyrResult, s2) \<and>
    free s2 \<and> rest s2 = rest s \<and> invar s2"
  using lock_free [OF assms] unlock_held by metis

text \<open>
  A scoped critical section: the body runs with the lock held and the lock is free afterwards.
\<close>

lemma scoped_section:
  assumes "invar s" and "free s"
    and body: "\<And>s1. held s1 \<Longrightarrow> invar s1 \<Longrightarrow> rest s1 = rest s \<Longrightarrow>
      \<exists>x s2. body s1 = Inr (x, s2) \<and> held s2 \<and> invar s2 \<and> Q x (rest s2)"
  shows "\<exists>x s3. scoped_lock lock unlock body s = Inr (x, s3) \<and> free s3 \<and> invar s3 \<and> Q x (rest s3)"
proof -
  obtain s1 where s1: "lock s = Inr (ZephyrResult, s1)" "held s1" "rest s1 = rest s" "invar s1"
    using lock_free [OF assms(1,2)] by blast
  obtain x s2 where s2: "body s1 = Inr (x, s2)" "held s2" "invar s2" "Q x (rest s2)"
    using body [OF s1(2,4,3)] by blast
  obtain s3 where "unlock s2 = Inr (ZephyrResult, s3)" "free s3" "rest s3 = rest s2" "invar s3"
    using unlock_held [OF s2(3,2)] by blast
  with s1 s2 show ?thesis by (simp add: scoped_lock_def)
qed

end

section \<open>Mutex keeps the contract\<close>

lemma mutex_lock_free:
  "mutex_laws E C M V \<Longrightarrow> mx V k a = None \<Longrightarrow>
    \<exists>k'. k_mutex_lock M t a d k = Some (0, k') \<and> mx V k' = (mx V k)(a := Some (t, 1))
      \<and> sm V k' = sm V k \<and> ev V k' = ev V k"
  by (simp add: mutex_laws_def)

lemma mutex_lock_owner:
  "mutex_laws E C M V \<Longrightarrow> mx V k a = Some (t, n) \<Longrightarrow>
    \<exists>k'. k_mutex_lock M t a d k = Some (0, k') \<and> mx V k' = (mx V k)(a := Some (t, Suc n))
      \<and> sm V k' = sm V k \<and> ev V k' = ev V k"
  by (simp add: mutex_laws_def)

lemma mutex_lock_no_wait:
  "mutex_laws E C M V \<Longrightarrow> mx V k a = Some (u, n) \<Longrightarrow> u \<noteq> t \<Longrightarrow>
    k_mutex_lock M t a (K_NO_WAIT C) k = Some (neg_errno E ''EBUSY'', k)"
  by (simp add: mutex_laws_def)

lemma mutex_lock_forever:
  "mutex_laws E C M V \<Longrightarrow> mx V k a = Some (u, n) \<Longrightarrow> u \<noteq> t \<Longrightarrow>
    k_mutex_lock M t a (K_FOREVER C) k = None"
  by (simp add: mutex_laws_def)

lemma mutex_unlock_owner:
  "mutex_laws E C M V \<Longrightarrow> mx V k a = Some (t, Suc n) \<Longrightarrow>
    \<exists>k'. k_mutex_unlock M t a k = (0, k')
      \<and> mx V k' = (mx V k)(a := (if n = 0 then None else Some (t, n)))
      \<and> sm V k' = sm V k \<and> ev V k' = ev V k"
  by (simp add: mutex_laws_def)

lemma mutex_unlock_free:
  "mutex_laws E C M V \<Longrightarrow> mx V k a = None \<Longrightarrow> k_mutex_unlock M t a k = (neg_errno E ''EINVAL'', k)"
  by (simp add: mutex_laws_def)

lemma mutex_init_view:
  "mutex_laws E C M V \<Longrightarrow> mx V (k_mutex_init M a k) = (mx V k)(a := None) \<and>
    sm V (k_mutex_init M a k) = sm V k \<and> ev V (k_mutex_init M a k) = ev V k"
  by (simp add: mutex_laws_def)

lemma ZephyrResult_not_assigned [simp]: "r_assign_error e r \<noteq> ZephyrResult"
  by (cases r) (simp add: result_defs)

interpretation mutex: lock_contract
  "Mutex_lock config_assert C M t p" "Mutex_unlock config_assert M t p"
  "\<lambda>k. mx V k p = None" "\<lambda>k. mx V k p = Some (t, 1)"
  "\<lambda>k. (sm V k, ev V k, (mx V k)(p := None))"
  "\<lambda>k. mutex_laws E C M V \<and> errno_laws E \<and> (\<forall>n. mx V k p = Some (t, n) \<longrightarrow> n = 1)"
  for config_assert C M t p V E
proof (unfold_locales, goal_cases)
  case (1 k)
  then show ?case
    using mutex_lock_free [of E C M V k p t "K_FOREVER C"] by (auto simp: Mutex_lock_def)
next
  case (2 k)
  then show ?case
    using mutex_unlock_owner [of E C M V k p t 0] by (auto simp: Mutex_unlock_def)
next
  case (3 k)
  then obtain u n where "mx V k p = Some (u, n)" by auto
  moreover from this 3 have "u \<noteq> t" by auto
  ultimately show ?case
    using 3 mutex_lock_forever [of E C M V k p u n t] by (simp add: Mutex_lock_def)
next
  case (4 k)
  then have "k_mutex_unlock M t p k = (neg_errno E ''EINVAL'', k)"
    by (intro mutex_unlock_free [of E C M V]) simp_all
  with 4 show ?case
    by (simp add: Mutex_unlock_def neg_errno_nonzero ZPP_ASSERT_def)
qed

section \<open>Properties of the operations\<close>

text \<open>
  \<open>try_lock()\<close> on a mutex another thread owns does not return false: \<open>k_mutex_lock\<close>
  reports \<open>-EBUSY\<close> when it may not wait, while the code takes only \<open>-EAGAIN\<close> for "not
  acquired". With assertions the call ends in a failed assertion; without them it returns a result
  in error state, whose conversion to \<open>bool\<close> reads false.
\<close>

theorem try_lock_contended:
  assumes "mutex_laws E C M V" and "errno_laws E" and "clock_laws C"
    and "mx V k p = Some (u, n)" and "u \<noteq> t"
  shows "Mutex_try_lock True E C M t p k = Inl Panic \<and>
    (\<exists>res. Mutex_try_lock False E C M t p k = Inr (res, k) \<and> b_has_error res \<and>
      b_bool False res = Inr False \<and> b_bool True res = Inl Panic \<and>
      b_error True res = Inr (word_of_nat (256 - E ''EBUSY'')))"
proof -
  have lock: "k_mutex_lock M t p (K_MSEC C 0) k = Some (neg_errno E ''EBUSY'', k)"
    using assms by (simp add: clock_laws_def mutex_lock_no_wait)
  have ne: "neg_errno E ''EBUSY'' \<noteq> neg_errno E ''EAGAIN''" "neg_errno E ''EBUSY'' \<noteq> 0"
    using assms(2) by (auto simp: errno_laws_def neg_errno_def)
  show ?thesis
    using ne assms(2)
    by (auto simp: Mutex_try_lock_def Mutex_try_lock_for_def lock result_defs ret_code_neg_errno)
qed

theorem try_lock_contended_witness:
  "Mutex_try_lock True ref_errno ref_clock ref_mutex 2 7 (rk0\<lparr>rk_mx := [7 \<mapsto> (1, 1)]\<rparr>) = Inl Panic"
  using try_lock_contended [of ref_errno ref_clock ref_mutex ref_view "rk0\<lparr>rk_mx := [7 \<mapsto> (1, 1)]\<rparr>" 7 1 1 2]
  by simp

text \<open>Locking \<open>n\<close> times in a row, and unlocking as often.\<close>

fun lock_times :: "bool \<Rightarrow> clock_api \<Rightarrow> 'k mutex_api \<Rightarrow> tid \<Rightarrow> addr \<Rightarrow> nat \<Rightarrow> 'k \<Rightarrow> (zephyr_result \<times> 'k) run" where
  "lock_times config_assert C M t p 0 k = Inr (ZephyrResult, k)"
| "lock_times config_assert C M t p (Suc n) k =
     bindR (Mutex_lock config_assert C M t p k) (\<lambda>(res, k').
       if r_bool res then lock_times config_assert C M t p n k' else Inr (res, k'))"

fun unlock_times :: "bool \<Rightarrow> 'k mutex_api \<Rightarrow> tid \<Rightarrow> addr \<Rightarrow> nat \<Rightarrow> 'k \<Rightarrow> (zephyr_result \<times> 'k) run" where
  "unlock_times config_assert M t p 0 k = Inr (ZephyrResult, k)"
| "unlock_times config_assert M t p (Suc n) k =
     bindR (Mutex_unlock config_assert M t p k) (\<lambda>(res, k').
       if r_bool res then unlock_times config_assert M t p n k' else Inr (res, k'))"

definition lock_count :: "(tid \<times> nat) option \<Rightarrow> tid \<Rightarrow> nat \<Rightarrow> bool" where
  "lock_count m t n \<longleftrightarrow> m = (if n = 0 then None else Some (t, n))"

lemma Mutex_lock_counts:
  assumes "mutex_laws E C M V" and "lock_count (mx V k p) t n"
  shows "\<exists>k'. Mutex_lock config_assert C M t p k = Inr (ZephyrResult, k') \<and>
    mx V k' = (mx V k)(p := Some (t, Suc n)) \<and> sm V k' = sm V k \<and> ev V k' = ev V k"
  using assms mutex_lock_free [OF assms(1), of k p t "K_FOREVER C"]
    mutex_lock_owner [OF assms(1), of k p t n "K_FOREVER C"]
  by (auto simp: Mutex_lock_def lock_count_def split: if_splits)

lemma Mutex_unlock_counts:
  assumes "mutex_laws E C M V" and "mx V k p = Some (t, Suc n)"
  shows "\<exists>k'. Mutex_unlock config_assert M t p k = Inr (ZephyrResult, k') \<and>
    lock_count (mx V k' p) t n \<and> (\<forall>a. a \<noteq> p \<longrightarrow> mx V k' a = mx V k a) \<and>
    sm V k' = sm V k \<and> ev V k' = ev V k"
  using mutex_unlock_owner [OF assms] by (auto simp: Mutex_unlock_def lock_count_def)

lemma r_bool_ZephyrResult [simp]: "r_bool ZephyrResult"
  by (simp add: result_defs)

lemma lock_times_counts:
  assumes "mutex_laws E C M V" and "lock_count (mx V k p) t m"
  shows "\<exists>k'. lock_times config_assert C M t p n k = Inr (ZephyrResult, k') \<and>
    lock_count (mx V k' p) t (m + n) \<and> (\<forall>a. a \<noteq> p \<longrightarrow> mx V k' a = mx V k a) \<and>
    sm V k' = sm V k \<and> ev V k' = ev V k"
  using assms(2)
proof (induction n arbitrary: k m)
  case (Suc n)
  obtain k1 where k1: "Mutex_lock config_assert C M t p k = Inr (ZephyrResult, k1)"
    "mx V k1 = (mx V k)(p := Some (t, Suc m))" "sm V k1 = sm V k" "ev V k1 = ev V k"
    using Mutex_lock_counts [OF assms(1) Suc.prems] by blast
  then have "lock_count (mx V k1 p) t (Suc m)" by (simp add: lock_count_def)
  from Suc.IH [OF this] k1 show ?case by auto
qed simp

lemma unlock_times_counts:
  assumes "mutex_laws E C M V" and "lock_count (mx V k p) t (m + n)"
  shows "\<exists>k'. unlock_times config_assert M t p n k = Inr (ZephyrResult, k') \<and>
    lock_count (mx V k' p) t m \<and> (\<forall>a. a \<noteq> p \<longrightarrow> mx V k' a = mx V k a) \<and>
    sm V k' = sm V k \<and> ev V k' = ev V k"
  using assms(2)
proof (induction n arbitrary: k)
  case (Suc n)
  then have "mx V k p = Some (t, Suc (m + n))" by (simp add: lock_count_def)
  then obtain k1 where k1: "Mutex_unlock config_assert M t p k = Inr (ZephyrResult, k1)"
    "lock_count (mx V k1 p) t (m + n)" "\<forall>a. a \<noteq> p \<longrightarrow> mx V k1 a = mx V k a"
    "sm V k1 = sm V k" "ev V k1 = ev V k"
    using Mutex_unlock_counts [OF assms(1)] by blast
  from Suc.IH [OF k1(2)] k1 show ?case by auto
qed simp

text \<open>
  The mutex is recursive. On a free mutex a thread may call \<open>lock()\<close> \<open>n\<close> times without
  blocking; while it has unlocked fewer than \<open>n\<close> times every other thread's \<open>lock()\<close> blocks;
  after \<open>n\<close> calls of \<open>unlock()\<close> the mutex is free again and no other object was touched.
\<close>

theorem lock_is_recursive:
  assumes "mutex_laws E C M V" and "mx V k p = None" and "m \<le> n"
  shows "\<exists>k1 k2. lock_times config_assert C M t p n k = Inr (ZephyrResult, k1) \<and>
    unlock_times config_assert M t p m k1 = Inr (ZephyrResult, k2) \<and>
    (m < n \<longrightarrow> (\<forall>u. u \<noteq> t \<longrightarrow> Mutex_lock config_assert C M u p k2 = Inl Stuck)) \<and>
    (m = n \<longrightarrow> mx V k2 = mx V k) \<and> sm V k2 = sm V k \<and> ev V k2 = ev V k"
proof -
  have "lock_count (mx V k p) t 0" using assms(2) by (simp add: lock_count_def)
  then obtain k1 where k1: "lock_times config_assert C M t p n k = Inr (ZephyrResult, k1)"
    "lock_count (mx V k1 p) t n" "\<forall>a. a \<noteq> p \<longrightarrow> mx V k1 a = mx V k a" "sm V k1 = sm V k" "ev V k1 = ev V k"
    using lock_times_counts [OF assms(1), of k p t 0 config_assert n] by auto
  moreover from k1(2) assms(3) have "lock_count (mx V k1 p) t ((n - m) + m)" by simp
  ultimately obtain k2 where k2: "unlock_times config_assert M t p m k1 = Inr (ZephyrResult, k2)"
    "lock_count (mx V k2 p) t (n - m)" "\<forall>a. a \<noteq> p \<longrightarrow> mx V k2 a = mx V k1 a"
    "sm V k2 = sm V k1" "ev V k2 = ev V k1"
    using unlock_times_counts [OF assms(1)] by blast
  have "Mutex_lock config_assert C M u p k2 = Inl Stuck" if "m < n" "u \<noteq> t" for u
    using that k2(2) mutex_lock_forever [OF assms(1), of k2 p t "n - m" u]
    by (simp add: lock_count_def Mutex_lock_def)
  moreover have "mx V k2 = mx V k" if "m = n"
  proof
    fix a
    show "mx V k2 a = mx V k a"
      using that k1(3) k2(2,3) assms(2) by (cases "a = p") (simp_all add: lock_count_def)
  qed
  ultimately show ?thesis using k1 k2 by auto
qed

theorem lock_is_recursive_witness:
  "\<exists>k1 k2. lock_times True ref_clock ref_mutex 4 7 3 rk0 = Inr (ZephyrResult, k1) \<and>
    unlock_times True ref_mutex 4 7 2 k1 = Inr (ZephyrResult, k2) \<and>
    Mutex_lock True ref_clock ref_mutex 5 7 k2 = Inl Stuck"
proof -
  have "mx ref_view rk0 7 = None" by (simp add: rk0_def)
  from lock_is_recursive [OF ref_mutex_laws this, of 2 3 True 4] show ?thesis by auto
qed

text \<open>
  A body run under \<open>std::scoped_lock\<close> starts with the mutex owned once by the calling
  thread; when the body leaves it so, the mutex is free at the end of the scope and the effects of
  the body are those of the body alone.
\<close>

lemma scoped_lock_section:
  assumes "mutex_laws E C M V" and "errno_laws E" and "mx V k p = None"
    and "\<And>k1. mx V k1 p = Some (t, 1) \<Longrightarrow> (sm V k1, ev V k1, (mx V k1)(p := None)) = (sm V k, ev V k, mx V k) \<Longrightarrow>
      \<exists>x k2. body k1 = Inr (x, k2) \<and> mx V k2 p = Some (t, 1) \<and>
        Q x (sm V k2, ev V k2, (mx V k2)(p := None))"
  shows "\<exists>x k3. scoped_lock (Mutex_lock config_assert C M t p) (Mutex_unlock config_assert M t p) body k
      = Inr (x, k3) \<and> mx V k3 p = None \<and> Q x (sm V k3, ev V k3, mx V k3)"
proof -
  have same: "(mx V k)(p := None) = mx V k" using assms(3) by (simp add: fun_eq_iff)
  let ?inv = "\<lambda>k. mutex_laws E C M V \<and> errno_laws E \<and> (\<forall>n. mx V k p = Some (t, n) \<longrightarrow> n = 1)"
  let ?rest = "\<lambda>k. (sm V k, ev V k, (mx V k)(p := None))"
  have "\<exists>x s2. body s1 = Inr (x, s2) \<and> mx V s2 p = Some (t, 1) \<and> ?inv s2 \<and> Q x (?rest s2)"
    if "mx V s1 p = Some (t, 1)" "?inv s1" "?rest s1 = ?rest k" for s1
    using assms(4) [OF that(1)] that same assms(1,2) by fastforce
  then have "\<exists>x k3. scoped_lock (Mutex_lock config_assert C M t p) (Mutex_unlock config_assert M t p) body k
      = Inr (x, k3) \<and> mx V k3 p = None \<and> ?inv k3 \<and> Q x (?rest k3)"
    using assms(1-3) by (intro mutex.scoped_section) auto
  then show ?thesis
    by (metis fun_upd_idem_iff)
qed

end
