(* ===== verification/Semaphore_Class.thy ===== *)
theory Semaphore_Class
  imports Error_Result Kernel_Pool Kernel_Instance
begin

text \<open>
  \<open>zpp_lib::Semaphore\<close> (src/zpp_rtos/semaphore.cpp): the constructor, acquire, try_acquire and
  release over the kernel semaphore at address \<open>p\<close> (the member \<open>_p_sem\<close>), and the static pool
  of \<open>CONFIG_USERSPACE\<close>. The locale \<open>counting_semaphore\<close> is what the clients rely on;
  \<open>sem_spec\<close> is the abstract bounded counter the class implements.
\<close>

section \<open>Operations\<close>

definition Semaphore_ctor ::
  "bool \<Rightarrow> 'k sem_api \<Rightarrow> addr \<Rightarrow> u32 \<Rightarrow> u32 \<Rightarrow> 'k \<Rightarrow> (addr \<times> 'k) run" where
  "Semaphore_ctor config_assert S this_sem initial_count max_count k =
     (let (ret, k') = k_sem_init S this_sem initial_count max_count k in
      bindR (ZPP_ASSERT config_assert (ret = 0)) (\<lambda>_. Inr (this_sem, k')))"

definition Semaphore_acquire ::
  "clock_api \<Rightarrow> 'k sem_api \<Rightarrow> addr \<Rightarrow> 'k \<Rightarrow> (zephyr_result \<times> 'k) run" where
  "Semaphore_acquire C S p k =
     (let res = ZephyrResult in
      case k_sem_take S p (K_FOREVER C) k of
        None \<Rightarrow> Inl Stuck
      | Some (ret, k') \<Rightarrow>
          if ret \<noteq> 0 then Inr (r_assign_error (ret_code ret) res, k') else Inr (res, k'))"

definition Semaphore_try_acquire ::
  "errno_values \<Rightarrow> clock_api \<Rightarrow> 'k sem_api \<Rightarrow> addr \<Rightarrow> 'k \<Rightarrow> (zephyr_bool_result \<times> 'k) run" where
  "Semaphore_try_acquire E C S p k =
     (let res = ZephyrBoolResult in
      case k_sem_take S p (K_NO_WAIT C) k of
        None \<Rightarrow> Inl Stuck
      | Some (ret, k') \<Rightarrow>
          if ret = neg_errno E ''EBUSY'' then Inr (b_assign_value False res, k')
          else if ret \<noteq> 0 then
            Inr (b_assign_error (ret_code ret) (b_assign_value False res), k')
          else Inr (res, k'))"

definition Semaphore_release ::
  "'k sem_api \<Rightarrow> addr \<Rightarrow> 'k \<Rightarrow> (zephyr_result \<times> 'k) run" where
  "Semaphore_release S p k = (let res = ZephyrResult in Inr (res, k_sem_give S p k))"

lemma sem_take_token:
  "sem_laws E C S V \<Longrightarrow> sm V k a = (Suc c, l) \<Longrightarrow>
    \<exists>k'. k_sem_take S a d k = Some (0, k') \<and> sm V k' = (sm V k)(a := (c, l)) \<and> mx V k' = mx V k
      \<and> ev V k' = ev V k"
  by (simp add: sem_laws_def)

lemma sem_take_empty:
  "sem_laws E C S V \<Longrightarrow> sm V k a = (0, l) \<Longrightarrow> k_sem_take S a (K_FOREVER C) k = None"
  "sem_laws E C S V \<Longrightarrow> sm V k a = (0, l) \<Longrightarrow>
    k_sem_take S a (K_NO_WAIT C) k = Some (neg_errno E ''EBUSY'', k)"
  by (simp_all add: sem_laws_def)

lemma sem_give:
  assumes "sem_laws E C S V" and "sm V k a = (c, l)"
  shows "sm V (k_sem_give S a k) = (sm V k)(a := (if c < l then Suc c else c, l))"
    and "mx V (k_sem_give S a k) = mx V k" and "ev V (k_sem_give S a k) = ev V k"
proof -
  from assms(1) have "\<forall>a k c l. sm V k a = (c, l) \<longrightarrow>
    (let k' = k_sem_give S a k in sm V k' = (sm V k)(a := (if c < l then Suc c else c, l))
      \<and> mx V k' = mx V k \<and> ev V k' = ev V k)"
    unfolding sem_laws_def by blast
  with assms(2) show "sm V (k_sem_give S a k) = (sm V k)(a := (if c < l then Suc c else c, l))"
    and "mx V (k_sem_give S a k) = mx V k" and "ev V (k_sem_give S a k) = ev V k"
    by (auto simp: Let_def)
qed

lemma sem_init_ok:
  "sem_laws E C S V \<Longrightarrow> l \<noteq> 0 \<Longrightarrow> i \<le> l \<Longrightarrow>
    \<exists>k'. k_sem_init S a i l k = (0, k') \<and> sm V k' = (sm V k)(a := (unat i, unat l))
      \<and> mx V k' = mx V k \<and> ev V k' = ev V k"
  by (simp add: sem_laws_def)

section \<open>The contract of a counting semaphore\<close>

fun repeat_op :: "('s \<Rightarrow> (zephyr_result \<times> 's) run) \<Rightarrow> nat \<Rightarrow> 's \<Rightarrow> (zephyr_result \<times> 's) run" where
  "repeat_op f 0 s = Inr (ZephyrResult, s)"
| "repeat_op f (Suc n) s =
     bindR (f s) (\<lambda>(res, s'). if r_bool res then repeat_op f n s' else Inr (res, s'))"

lemma r_bool_ok [simp]: "r_bool ZephyrResult"
  by (simp add: result_defs)

locale counting_semaphore =
  fixes acquire :: "'s \<Rightarrow> (zephyr_result \<times> 's) run"
    and try_acquire :: "'s \<Rightarrow> (zephyr_bool_result \<times> 's) run"
    and release :: "'s \<Rightarrow> (zephyr_result \<times> 's) run"
    and tokens :: "'s \<Rightarrow> nat"
    and limit :: "'s \<Rightarrow> nat"
    and invar :: "'s \<Rightarrow> bool"
  assumes acquire_token: "invar s \<Longrightarrow> 0 < tokens s \<Longrightarrow> \<exists>s'. acquire s = Inr (ZephyrResult, s') \<and>
      tokens s' = tokens s - 1 \<and> limit s' = limit s \<and> invar s'"
    and acquire_empty: "invar s \<Longrightarrow> tokens s = 0 \<Longrightarrow> acquire s = Inl Stuck"
    and try_token: "invar s \<Longrightarrow> 0 < tokens s \<Longrightarrow> \<exists>s'. try_acquire s = Inr (ZephyrBoolResult, s') \<and>
      tokens s' = tokens s - 1 \<and> limit s' = limit s \<and> invar s'"
    and try_empty: "invar s \<Longrightarrow> tokens s = 0 \<Longrightarrow>
      try_acquire s = Inr (b_assign_value False ZephyrBoolResult, s)"
    and release_token: "invar s \<Longrightarrow> \<exists>s'. release s = Inr (ZephyrResult, s') \<and>
      tokens s' = min (limit s) (Suc (tokens s)) \<and> limit s' = limit s \<and> invar s'"
    and tokens_le: "invar s \<Longrightarrow> tokens s \<le> limit s"
begin

lemma release_many:
  "invar s \<Longrightarrow> \<exists>s'. repeat_op release n s = Inr (ZephyrResult, s') \<and>
    tokens s' = min (limit s) (tokens s + n) \<and> limit s' = limit s \<and> invar s'"
proof (induction n arbitrary: s)
  case 0
  then show ?case using tokens_le [of s] by simp
next
  case (Suc n)
  obtain s1 where s1: "release s = Inr (ZephyrResult, s1)"
    "tokens s1 = min (limit s) (Suc (tokens s))" "limit s1 = limit s" "invar s1"
    using release_token [OF Suc.prems] by blast
  from Suc.IH [OF s1(4)] s1(1-3) show ?case by auto
qed

lemma acquire_many:
  "invar s \<Longrightarrow> n \<le> tokens s \<Longrightarrow> \<exists>s'. repeat_op acquire n s = Inr (ZephyrResult, s') \<and>
    tokens s' = tokens s - n \<and> limit s' = limit s \<and> invar s'"
proof (induction n arbitrary: s)
  case (Suc n)
  then obtain s1 where "acquire s = Inr (ZephyrResult, s1)" "tokens s1 = tokens s - 1"
    "limit s1 = limit s" "invar s1"
    using acquire_token [of s] by auto
  with Suc.IH [of s1] Suc.prems show ?case by auto
qed simp

lemma acquire_too_many:
  "invar s \<Longrightarrow> tokens s < n \<Longrightarrow> repeat_op acquire n s = Inl Stuck"
proof (induction n arbitrary: s)
  case (Suc n)
  show ?case
  proof (cases "tokens s = 0")
    case True
    then show ?thesis using acquire_empty Suc.prems by simp
  next
    case False
    then obtain s1 where "acquire s = Inr (ZephyrResult, s1)" "tokens s1 = tokens s - 1" "invar s1"
      using acquire_token [of s] Suc.prems by auto
    with Suc.IH [of s1] Suc.prems False show ?thesis by auto
  qed
qed simp

end

interpretation sem: counting_semaphore
  "Semaphore_acquire C S p" "Semaphore_try_acquire E C S p" "Semaphore_release S p"
  "\<lambda>k. fst (sm V k p)" "\<lambda>k. snd (sm V k p)"
  "\<lambda>k. sem_laws E C S V \<and> errno_laws E \<and> fst (sm V k p) \<le> snd (sm V k p)"
  for C S p V E
proof (unfold_locales, goal_cases)
  case (1 k)
  then obtain c l where "sm V k p = (Suc c, l)"
    by (metis Suc_pred prod.collapse)
  with 1 sem_take_token [of E C S V k p c l "K_FOREVER C"] show ?case
    by (auto simp: Semaphore_acquire_def)
next
  case (2 k)
  then obtain l where "sm V k p = (0, l)" by (metis prod.collapse)
  with 2 sem_take_empty(1) [of E C S V k p l] show ?case
    by (simp add: Semaphore_acquire_def)
next
  case (3 k)
  then obtain c l where "sm V k p = (Suc c, l)"
    by (metis Suc_pred prod.collapse)
  with 3 sem_take_token [of E C S V k p c l "K_NO_WAIT C"] neg_errno_nonzero [of E "''EBUSY''"]
  show ?case
    by (auto simp: Semaphore_try_acquire_def)
next
  case (4 k)
  then obtain l where "sm V k p = (0, l)" by (metis prod.collapse)
  with 4 sem_take_empty(2) [of E C S V k p l] show ?case
    by (simp add: Semaphore_try_acquire_def)
next
  case (5 k)
  obtain c l where "sm V k p = (c, l)" by (cases "sm V k p")
  with 5 show ?case
    using sem_give(1) [of E C S V k p c l] by (auto simp: Semaphore_release_def min_def)
next
  case (6 k)
  then show ?case by simp
qed

section \<open>Refinement of a bounded counter\<close>

datatype sem_op = Acquire | Try_acquire | Release

text \<open>
  The abstract semaphore that src/zpp_include/semaphore.hpp documents: a counter and its limit.
  \<open>None\<close> means the caller has to wait, \<open>False\<close> that no token was taken or, for release, the error
  announced for a counter that has reached its limit.
\<close>

fun sem_spec :: "nat \<Rightarrow> sem_op \<Rightarrow> nat \<Rightarrow> (bool \<times> nat) option" where
  "sem_spec l Acquire c = (if c = 0 then None else Some (True, c - 1))"
| "sem_spec l Try_acquire c = (if c = 0 then Some (False, c) else Some (True, c - 1))"
| "sem_spec l Release c = (if c < l then Some (True, Suc c) else Some (False, c))"

fun sem_spec_run :: "nat \<Rightarrow> sem_op list \<Rightarrow> nat \<Rightarrow> (bool list \<times> nat) option" where
  "sem_spec_run l [] c = Some ([], c)"
| "sem_spec_run l (x # xs) c =
     (case sem_spec l x c of
        None \<Rightarrow> None
      | Some (b, c') \<Rightarrow> (case sem_spec_run l xs c' of None \<Rightarrow> None | Some (bs, c'') \<Rightarrow> Some (b # bs, c'')))"

text \<open>One call on the class: what the caller sees of the result, read as the source's clients do.\<close>

definition sem_call ::
  "errno_values \<Rightarrow> clock_api \<Rightarrow> 'k sem_api \<Rightarrow> addr \<Rightarrow> sem_op \<Rightarrow> 'k \<Rightarrow> (bool \<times> 'k) run" where
  "sem_call E C S p x k =
     (case x of
        Acquire \<Rightarrow> bindR (Semaphore_acquire C S p k) (\<lambda>(res, k'). Inr (r_bool res, k'))
      | Try_acquire \<Rightarrow> bindR (Semaphore_try_acquire E C S p k)
          (\<lambda>(res, k'). bindR (b_bool True res) (\<lambda>b. Inr (b, k')))
      | Release \<Rightarrow> bindR (Semaphore_release S p k) (\<lambda>(res, k'). Inr (r_bool res, k')))"

fun sem_calls ::
  "errno_values \<Rightarrow> clock_api \<Rightarrow> 'k sem_api \<Rightarrow> addr \<Rightarrow> sem_op list \<Rightarrow> 'k \<Rightarrow> (bool list \<times> 'k) run" where
  "sem_calls E C S p [] k = Inr ([], k)"
| "sem_calls E C S p (x # xs) k =
     bindR (sem_call E C S p x k) (\<lambda>(b, k'). bindR (sem_calls E C S p xs k') (\<lambda>(bs, k''). Inr (b # bs, k'')))"

lemma sem_call_refines:
  assumes "sem_laws E C S V" and "errno_laws E" and "sm V k p = (c, l)" and "c \<le> l"
  shows "(case sem_spec l x c of
      None \<Rightarrow> sem_call E C S p x k = Inl Stuck
    | Some (b, c') \<Rightarrow> c' \<le> l \<and>
        (\<exists>k'. sem_call E C S p x k = Inr (b \<or> x = Release, k') \<and> sm V k' p = (c', l)))"
proof -
  have inv: "sem_laws E C S V \<and> errno_laws E \<and> fst (sm V k p) \<le> snd (sm V k p)"
    using assms by simp
  note facts = sem.acquire_token [of E C S V k p, OF inv] sem.acquire_empty [of E C S V k p, OF inv]
    sem.try_token [of E C S V k p, OF inv] sem.try_empty [of E C S V k p, OF inv]
    sem.release_token [of E C S V k p, OF inv]
  show ?thesis
  proof (cases x)
    case Acquire
    then show ?thesis
      using facts(1,2) assms(3,4) by (cases c) (auto simp: sem_call_def prod_eq_iff)
  next
    case Try_acquire
    then show ?thesis
      using facts(3,4) assms(3,4) by (cases c) (auto simp: sem_call_def prod_eq_iff result_defs)
  next
    case Release
    then show ?thesis
      using facts(5) assms(3,4) by (auto simp: sem_call_def prod_eq_iff)
  qed
qed

text \<open>
  C10: \<open>Semaphore\<close> refines the documented bounded counter, but for one result. Whatever sequence of
  acquire, try_acquire and release is called, a call blocks exactly where the counter says the caller
  has to wait, the kernel semaphore ends with the counter's value, never above \<open>max_count\<close>, and the
  results are those of the counter except that release always answers ok: where semaphore.hpp documents
  an error, a release at the limit, the class loses the token and reports success.
\<close>

theorem semaphore_refines_counter:
  assumes "sem_laws E C S V" and "errno_laws E" and "sm V k p = (c, l)" and "c \<le> l"
  shows "case sem_spec_run l xs c of
      None \<Rightarrow> sem_calls E C S p xs k = Inl Stuck
    | Some (bs, c') \<Rightarrow> c' \<le> l \<and> length bs = length xs \<and>
        (\<exists>k'. sem_calls E C S p xs k = Inr (map2 (\<lambda>x b. b \<or> x = Release) xs bs, k') \<and> sm V k' p = (c', l))"
  using assms(3,4)
proof (induction xs arbitrary: k c)
  case (Cons x xs)
  show ?case
  proof (cases "sem_spec l x c")
    case None
    then show ?thesis
      using sem_call_refines [OF assms(1,2) Cons.prems, of x] by simp
  next
    case (Some r)
    then obtain b c1 where r: "sem_spec l x c = Some (b, c1)" by (cases r) auto
    then obtain k1 where k1: "c1 \<le> l" "sem_call E C S p x k = Inr (b \<or> x = Release, k1)" "sm V k1 p = (c1, l)"
      using sem_call_refines [OF assms(1,2) Cons.prems, of x] by auto
    from Cons.IH [OF k1(3,1)] show ?thesis
      using r k1(2) by (auto split: option.splits)
  qed
qed simp

theorem semaphore_refines_counter_witness:
  "\<exists>k'. sem_calls ref_errno ref_clock ref_sem 5 [Release, Release, Acquire, Try_acquire]
      (rk0\<lparr>rk_sm := (rk_sm rk0)(5 := (0, 1))\<rparr>) = Inr ([True, True, True, False], k') \<and>
    rk_sm k' 5 = (0, 1) \<and>
    sem_spec_run 1 [Release, Release, Acquire, Try_acquire] 0 = Some ([True, False, True, False], 0)"
  using semaphore_refines_counter [of ref_errno ref_clock ref_sem ref_view
      "rk0\<lparr>rk_sm := (rk_sm rk0)(5 := (0, 1))\<rparr>" 5 0 1 "[Release, Release, Acquire, Try_acquire]"]
  by simp

section \<open>The pool of CONFIG_USERSPACE\<close>

text \<open>
  \<open>ZPP_SEMAPHORE_ARRAY_BUSY\<close> has \<open>CONFIG_ZPP_MUTEX_POOL_SIZE + CONFIG_ZPP_THREAD_POOL_SIZE\<close>
  flags, \<open>ZPP_SEMAPHORE_ARRAY\<close> has \<open>CONFIG_ZPP_SEMAPHORE_POOL_SIZE\<close> semaphores (\<open>arr\<close>).
\<close>

record sem_pool =
  ZPP_SEMAPHORE_ARRAY_BUSY :: "bool list"
  semaphoreInstanceCount :: u8

definition Semaphore_ctor_user ::
  "bool \<Rightarrow> addr list \<Rightarrow> 'k sem_api \<Rightarrow> u32 \<Rightarrow> u32 \<Rightarrow> sem_pool \<times> 'k \<Rightarrow> (addr \<times> sem_pool \<times> 'k) run" where
  "Semaphore_ctor_user config_assert arr S initial_count max_count = (\<lambda>(s, k).
     let pool_size = length arr in
     bindR (ZPP_ASSERT config_assert (unat (semaphoreInstanceCount s) < pool_size)) (\<lambda>_.
     let index = free_slot pool_size (ZPP_SEMAPHORE_ARRAY_BUSY s) in
     if index < pool_size \<and> length (ZPP_SEMAPHORE_ARRAY_BUSY s) \<le> index then Inl Undef
     else bindR (ZPP_ASSERT config_assert (index < pool_size)) (\<lambda>_.
       if pool_size \<le> index then Inl Undef
       else let (ret, k') = k_sem_init S (arr ! index) initial_count max_count k in
         bindR (ZPP_ASSERT config_assert (ret = 0)) (\<lambda>_.
         Inr (arr ! index, s\<lparr>semaphoreInstanceCount := semaphoreInstanceCount s + 1\<rparr>, k')))))"

definition Semaphore_dtor_user ::
  "bool \<Rightarrow> addr list \<Rightarrow> addr \<Rightarrow> sem_pool \<times> 'k \<Rightarrow> (sem_pool \<times> 'k) run" where
  "Semaphore_dtor_user config_assert arr p = (\<lambda>(s, k).
     let index = slot_of (length arr) arr p; found = (index < length arr) in
     if found \<and> length (ZPP_SEMAPHORE_ARRAY_BUSY s) \<le> index then Inl Undef
     else bindR (ZPP_ASSERT config_assert found) (\<lambda>_.
       if found then
         Inr (s\<lparr>ZPP_SEMAPHORE_ARRAY_BUSY := (ZPP_SEMAPHORE_ARRAY_BUSY s)[index := False],
                semaphoreInstanceCount := semaphoreInstanceCount s - 1\<rparr>, k)
       else Inr (s, k)))"

text \<open>
  The constructor never sets the busy flag of the slot it takes. Whatever semaphores are alive,
  a pool whose flags were never set hands out its first element again: two semaphores constructed
  one after the other share one kernel semaphore, and the second construction resets the count of
  the first.
\<close>

theorem semaphore_pool_shares_slot:
  assumes "sem_laws E C S V" and "ZPP_SEMAPHORE_ARRAY_BUSY s = replicate m False" and "0 < m"
    and "unat (semaphoreInstanceCount s) + 2 \<le> length arr" and "length arr < 256"
    and "l1 \<noteq> 0" and "i1 \<le> l1" and "l2 \<noteq> 0" and "i2 \<le> l2"
  shows "\<exists>s1 k1 s2 k2.
    Semaphore_ctor_user config_assert arr S i1 l1 (s, k) = Inr (arr ! 0, s1, k1) \<and>
    Semaphore_ctor_user config_assert arr S i2 l2 (s1, k1) = Inr (arr ! 0, s2, k2) \<and>
    sm V k1 (arr ! 0) = (unat i1, unat l1) \<and> sm V k2 (arr ! 0) = (unat i2, unat l2) \<and>
    ZPP_SEMAPHORE_ARRAY_BUSY s2 = replicate m False"
proof -
  obtain k1 where k1: "k_sem_init S (arr ! 0) i1 l1 k = (0, k1)" "sm V k1 = (sm V k)(arr ! 0 := (unat i1, unat l1))"
    using sem_init_ok [OF assms(1,6,7)] by blast
  obtain k2 where k2: "k_sem_init S (arr ! 0) i2 l2 k1 = (0, k2)" "sm V k2 = (sm V k1)(arr ! 0 := (unat i2, unat l2))"
    using sem_init_ok [OF assms(1,8,9)] by blast
  have first: "free_slot (length arr) (replicate m False) = 0"
    using assms(3,4) by (cases m; cases arr) (auto simp: free_slot_def)
  have "unat (semaphoreInstanceCount s + 1) = Suc (unat (semaphoreInstanceCount s))"
    using assms(4,5) by (simp add: unat_word_ariths)
  then show ?thesis
    using k1 k2 first assms(2-4) by (auto simp: Semaphore_ctor_user_def Let_def)
qed

theorem semaphore_pool_shares_slot_witness:
  "\<exists>s1 k1 s2 k2.
    Semaphore_ctor_user True [40, 50] ref_sem 0 1 (\<lparr>ZPP_SEMAPHORE_ARRAY_BUSY = replicate 8 False,
      semaphoreInstanceCount = 0\<rparr>, rk0) = Inr (40, s1, k1) \<and>
    Semaphore_ctor_user True [40, 50] ref_sem 3 4 (s1, k1) = Inr (40, s2, k2) \<and>
    rk_sm k2 40 = (3, 4)"
  using semaphore_pool_shares_slot [of ref_errno ref_clock ref_sem ref_view
      "\<lparr>ZPP_SEMAPHORE_ARRAY_BUSY = replicate 8 False, semaphoreInstanceCount = 0\<rparr>" 8 "[40, 50]" 1 0 4 3 True rk0]
  by (auto simp: word_le_nat_alt)

end
