(* ===== verification/Clock_Time.thy ===== *)
theory Clock_Time
  imports Error_Result
begin

text \<open>
  src/zpp_include/clock.hpp and src/zpp_rtos/time.cpp: the conversion of durations to kernel
  timeouts, and the uptime in microseconds. \<open>std::chrono\<close> counts are 64-bit integers, read here as
  \<open>int\<close>; the preprocessor branches of \<open>Time::get_uptime\<close> are the constructors of
  \<open>uptime_config\<close>.
\<close>

definition milliseconds_to_ticks :: "clock_api \<Rightarrow> int \<Rightarrow> k_timeout_t" where
  "milliseconds_to_ticks C d = K_MSEC C d"

definition microseconds_to_ticks :: "clock_api \<Rightarrow> int \<Rightarrow> k_timeout_t" where
  "microseconds_to_ticks C d = K_USEC C d"

record 'k time_api =
  k_uptime_ticks :: "'k \<Rightarrow> int"
  sys_clock_cycle_get_64 :: "'k \<Rightarrow> u64"
  sys_clock_cycle_get_32 :: "'k \<Rightarrow> u32"
  k_cycle_get_32 :: "'k \<Rightarrow> u32"
  k_cyc_to_us_floor64 :: "u64 \<Rightarrow> u64"
  ticks_per_sec :: int

text \<open>
  \<open>QEMU_TARGET\<close>, \<open>TIMER_HAS_64BIT_CYCLE_COUNTER\<close>, and the 32-bit counter; with
  \<open>CONFIG_USERSPACE\<close> the last one is read by the system call of src/syscalls/time_syscalls.c.
\<close>

datatype uptime_config = Qemu_ticks | Cycles_64 | Cycles_32

definition userspace_cycle_get_32 :: "'k time_api \<Rightarrow> 'k \<Rightarrow> u32" where
  "userspace_cycle_get_32 T k = k_cycle_get_32 T k"

definition USEC_PER_SEC :: int where
  "USEC_PER_SEC = 1000000"

text \<open>
  \<open>k_uptime_ticks() * USEC_PER_SEC\<close> is computed in a signed 64-bit integer, whose overflow is
  undefined; the quotient is then stored in a \<open>uint64_t\<close>.
\<close>

definition get_uptime :: "uptime_config \<Rightarrow> bool \<Rightarrow> 'k time_api \<Rightarrow> 'k \<Rightarrow> int run" where
  "get_uptime config userspace T k =
     (case config of
        Qemu_ticks \<Rightarrow>
          let product = k_uptime_ticks T k * USEC_PER_SEC in
          if product < - (2 ^ 63) \<or> 2 ^ 63 \<le> product then Inl Undef
          else Inr (product div ticks_per_sec T)
      | Cycles_64 \<Rightarrow> Inr (uint (k_cyc_to_us_floor64 T (sys_clock_cycle_get_64 T k)))
      | Cycles_32 \<Rightarrow>
          let cycles = (if userspace then userspace_cycle_get_32 T k else sys_clock_cycle_get_32 T k)
          in Inr (uint (k_cyc_to_us_floor64 T (ucast cycles))))"

text \<open>
  What the code relies on: ticks count up from 0, there is at least one tick per second,
  \<open>k_cycle_get_32\<close> and \<open>sys_clock_cycle_get_32\<close> read the same counter, and
  \<open>k_cyc_to_us_floor64\<close> rounds \<open>cycles * 10^6 / hz\<close> down.
\<close>

definition time_laws :: "nat \<Rightarrow> 'k time_api \<Rightarrow> bool" where
  "time_laws hz T \<longleftrightarrow> 0 < hz \<and> 0 < ticks_per_sec T \<and> (\<forall>k. 0 \<le> k_uptime_ticks T k) \<and>
     (\<forall>k. k_cycle_get_32 T k = sys_clock_cycle_get_32 T k) \<and>
     (\<forall>c. unat c * 1000000 < 2 ^ 64 \<longrightarrow>
       unat (k_cyc_to_us_floor64 T c) = unat c * 1000000 div hz)"

text \<open>
  On QEMU the uptime is the tick count in microseconds, rounded down, so it never goes
  backwards and it is late by less than a microsecond; it is defined as long as the tick count in
  microseconds fits a signed 64-bit integer.
\<close>

theorem uptime_ticks_exact:
  assumes "time_laws hz T" and "k_uptime_ticks T k1 \<le> k_uptime_ticks T k2"
    and "k_uptime_ticks T k2 * 1000000 < 2 ^ 63"
  shows "\<exists>us1 us2. get_uptime Qemu_ticks u T k1 = Inr us1 \<and> get_uptime Qemu_ticks u T k2 = Inr us2 \<and>
    0 \<le> us1 \<and> us1 \<le> us2 \<and>
    us2 * ticks_per_sec T \<le> k_uptime_ticks T k2 * 1000000 \<and>
    k_uptime_ticks T k2 * 1000000 < (us2 + 1) * ticks_per_sec T"
proof -
  have pos: "0 < ticks_per_sec T" "0 \<le> k_uptime_ticks T k1" "0 \<le> k_uptime_ticks T k2"
    using assms(1) by (simp_all add: time_laws_def)
  let ?p1 = "k_uptime_ticks T k1 * 1000000" and ?p2 = "k_uptime_ticks T k2 * 1000000"
  have up: "get_uptime Qemu_ticks u T k1 = Inr (?p1 div ticks_per_sec T)"
    "get_uptime Qemu_ticks u T k2 = Inr (?p2 div ticks_per_sec T)"
    using assms(2,3) pos by (simp_all add: get_uptime_def USEC_PER_SEC_def Let_def)
  have rem: "?p2 div ticks_per_sec T * ticks_per_sec T + ?p2 mod ticks_per_sec T = ?p2"
    "0 \<le> ?p2 mod ticks_per_sec T" "?p2 mod ticks_per_sec T < ticks_per_sec T"
    using pos div_mult_mod_eq [of ?p2 "ticks_per_sec T"] by (simp_all del: div_mult_mod_eq)
  have "?p1 div ticks_per_sec T \<le> ?p2 div ticks_per_sec T"
    using assms(2) pos by (intro zdiv_mono1) simp_all
  moreover have "0 \<le> ?p1 div ticks_per_sec T"
    using pos by (simp add: pos_imp_zdiv_nonneg_iff)
  moreover have "?p2 div ticks_per_sec T * ticks_per_sec T \<le> ?p2"
    "?p2 < (?p2 div ticks_per_sec T + 1) * ticks_per_sec T"
    using rem unfolding distrib_right by linarith+
  ultimately show ?thesis using up by blast
qed

definition demo_time :: "(nat \<times> nat) time_api" where
  "demo_time = \<lparr>k_uptime_ticks = (\<lambda>k. int (fst k)), sys_clock_cycle_get_64 = (\<lambda>k. word_of_nat (snd k)),
     sys_clock_cycle_get_32 = (\<lambda>k. word_of_nat (snd k)), k_cycle_get_32 = (\<lambda>k. word_of_nat (snd k)),
     k_cyc_to_us_floor64 = (\<lambda>c. word_of_nat (unat c * 1000000 div 64000000)), ticks_per_sec = 1000\<rparr>"

lemma demo_time_sel [simp]:
  "k_uptime_ticks demo_time k = int (fst k)"
  "sys_clock_cycle_get_32 demo_time k = word_of_nat (snd k)"
  by (simp_all add: demo_time_def)

lemma demo_time_laws [simp]: "time_laws 64000000 demo_time"
proof -
  have "unat (word_of_nat (unat c * 1000000 div 64000000) :: u64) = unat c * 1000000 div 64000000"
    if "unat c * 1000000 < 2 ^ 64" for c :: u64
    using that by (simp add: unat_of_nat)
  then show ?thesis by (simp add: time_laws_def demo_time_def)
qed

theorem uptime_ticks_exact_witness:
  "\<exists>us1 us2. get_uptime Qemu_ticks False demo_time (5, 0) = Inr us1 \<and>
    get_uptime Qemu_ticks False demo_time (7, 0) = Inr us2 \<and> us1 \<le> us2"
  using uptime_ticks_exact [of 64000000 demo_time "(5, 0)" "(7, 0)" False]
  by auto

lemma uptime_32:
  assumes "time_laws hz T" and "sys_clock_cycle_get_32 T k = word_of_nat c"
  shows "get_uptime Cycles_32 u T k = Inr (int (c mod 2 ^ 32 * 1000000 div hz))"
proof -
  let ?w = "sys_clock_cycle_get_32 T k"
  have c: "unat ?w = c mod 2 ^ 32" unfolding assms(2) by (simp add: unat_of_nat)
  then have "unat (ucast ?w :: u64) * 1000000 < 2 ^ 64" using unat_u32_lt [of ?w] by simp
  then have "unat (k_cyc_to_us_floor64 T (ucast ?w)) = unat (ucast ?w :: u64) * 1000000 div hz"
    using assms(1) unfolding time_laws_def by blast
  moreover have "get_uptime Cycles_32 u T k = Inr (int (unat (k_cyc_to_us_floor64 T (ucast ?w))))"
    using assms(1) by (simp add: get_uptime_def userspace_cycle_get_32_def time_laws_def)
  ultimately show ?thesis using c by simp
qed

text \<open>
  On a target with a 32-bit cycle counter the uptime is the counter in microseconds, so it is
  below \<open>2^32 * 10^6 / hz\<close> and starts again from the same value each time the counter wraps: it is
  not monotone in the number of cycles since boot. The two builds of the branch, direct and by
  system call, agree.
\<close>

theorem uptime_cycles_32_wraps:
  assumes "time_laws hz T" and "\<And>k. sys_clock_cycle_get_32 T k = word_of_nat (cycles k)"
    and "cycles k2 = cycles k1 + 2 ^ 32 * n"
  shows "\<exists>us. get_uptime Cycles_32 u T k1 = Inr us \<and> get_uptime Cycles_32 u' T k2 = Inr us \<and>
    us = int (cycles k1 mod 2 ^ 32 * 1000000 div hz) \<and> us \<le> 2 ^ 32 * 1000000 div int hz"
proof -
  have same: "cycles k2 mod 2 ^ 32 = cycles k1 mod 2 ^ 32" by (simp add: assms(3))
  have "cycles k1 mod 2 ^ 32 * 1000000 div hz \<le> 2 ^ 32 * 1000000 div hz"
    by (intro div_le_mono mult_le_mono1) (simp add: order.strict_implies_order)
  then have "int (cycles k1 mod 2 ^ 32 * 1000000 div hz) \<le> int (2 ^ 32 * 1000000 div hz)"
    by (simp only: of_nat_le_iff)
  then have "int (cycles k1 mod 2 ^ 32 * 1000000 div hz) \<le> 2 ^ 32 * 1000000 div int hz"
    by (simp add: zdiv_int)
  then show ?thesis
    unfolding uptime_32 [OF assms(1,2)] same by simp
qed

theorem uptime_cycles_32_wraps_witness:
  "\<exists>us. get_uptime Cycles_32 False demo_time (0, 64000000) = Inr us \<and>
    get_uptime Cycles_32 True demo_time (0, 4358967296) = Inr us \<and> us \<le> 2 ^ 32 * 1000000 div 64000000"
  using uptime_cycles_32_wraps [of 64000000 demo_time snd "(0, 4358967296)" "(0, 64000000)" 1 False True]
  by auto

end
