(* ===== verification/Barrier_Class.thy ===== *)
theory Barrier_Class
  imports Mutex_Class Semaphore_Class Clock_Time
begin

text \<open>
  \<open>zpp_lib::Barrier\<close> (src/zpp_rtos/barrier.cpp). \<open>Barrier_wait\<close> is the call as one thread
  executes it; \<open>wait_stmt\<close> is the same code one statement at a time, so that the calls of several
  threads on several barriers can be interleaved (\<open>bstep\<close>). The static member \<open>_start_time\<close>
  is shared by all the barriers, as in the source. \<open>now\<close> is what \<open>Time::get_uptime()\<close> returns
  when it is called.
\<close>

section \<open>The class\<close>

record barrier =
  bar_sem :: addr
  bar_mutex :: addr
  bar_count :: u32
  bar_total :: u32

record 'k barrier_world =
  kern :: 'k
  bars :: "nat \<Rightarrow> barrier"
  start_time :: int

definition Barrier_ctor ::
  "bool \<Rightarrow> 'k sem_api \<Rightarrow> 'k mutex_api \<Rightarrow> addr \<Rightarrow> addr \<Rightarrow> u32 \<Rightarrow> 'k \<Rightarrow> (barrier \<times> 'k) run" where
  "Barrier_ctor config_assert S M this_sem this_mutex nbr_of_threads k =
     bindR (Semaphore_ctor config_assert S this_sem 0 nbr_of_threads k) (\<lambda>(p_sem, k1).
       let (p_mutex, k2) = Mutex_ctor M this_mutex k1 in
       Inr (\<lparr>bar_sem = p_sem, bar_mutex = p_mutex, bar_count = nbr_of_threads,
             bar_total = nbr_of_threads\<rparr>, k2))"

text \<open>\<open>if (!res) ZPP_ASSERT(false, ...)\<close>.\<close>

definition assert_res :: "bool \<Rightarrow> zephyr_result \<Rightarrow> unit run" where
  "assert_res config_assert res = (if r_bool res then Inr () else ZPP_ASSERT config_assert False)"

definition call_res :: "bool \<Rightarrow> ('k \<Rightarrow> (zephyr_result \<times> 'k) run) \<Rightarrow> 'k barrier_world \<Rightarrow> 'k barrier_world run" where
  "call_res config_assert f w =
     bindR (f (kern w)) (\<lambda>(res, k). bindR (assert_res config_assert res) (\<lambda>_. Inr (w\<lparr>kern := k\<rparr>)))"

text \<open>The constructors below are the statements of \<open>wait\<close> a thread can be about to execute.\<close>

datatype wait_pc =
    Locking | Counting | Timing | Releasing nat | Unlocking | Acquiring | Returning | Returned int

fun wait_stmt ::
  "bool \<Rightarrow> clock_api \<Rightarrow> 'k sem_api \<Rightarrow> 'k mutex_api \<Rightarrow> tid \<Rightarrow> nat \<Rightarrow> int \<Rightarrow> wait_pc \<Rightarrow> 'k barrier_world
    \<Rightarrow> (wait_pc \<times> 'k barrier_world) run" where
  "wait_stmt a C S M t b now Locking w =
     bindR (call_res a (Mutex_lock a C M t (bar_mutex (bars w b))) w) (\<lambda>w'. Inr (Counting, w'))"
| "wait_stmt a C S M t b now Counting w =
     (let count = bar_count (bars w b) - 1;
          w' = w\<lparr>bars := (bars w)(b := (bars w b)\<lparr>bar_count := count\<rparr>)\<rparr> in
      if count = 0 then Inr (Timing, w') else Inr (Unlocking, w'))"
| "wait_stmt a C S M t b now Timing w = Inr (Releasing 0, w\<lparr>start_time := now\<rparr>)"
| "wait_stmt a C S M t b now (Releasing i) w =
     (if i < unat (bar_total (bars w b)) then
        bindR (call_res a (Semaphore_release S (bar_sem (bars w b))) w) (\<lambda>w'. Inr (Releasing (Suc i), w'))
      else Inr (Unlocking, w))"
| "wait_stmt a C S M t b now Unlocking w =
     bindR (call_res a (Mutex_unlock a M t (bar_mutex (bars w b))) w) (\<lambda>w'. Inr (Acquiring, w'))"
| "wait_stmt a C S M t b now Acquiring w =
     bindR (call_res a (Semaphore_acquire C S (bar_sem (bars w b))) w) (\<lambda>w'. Inr (Returning, w'))"
| "wait_stmt a C S M t b now Returning w = Inr (Returned (start_time w), w)"
| "wait_stmt a C S M t b now (Returned us) w = Inr (Returned us, w)"

text \<open>The call as one thread runs it when nothing else does; \<open>release_loop\<close> is its \<open>for\<close> loop.\<close>

fun release_loop :: "bool \<Rightarrow> 'k sem_api \<Rightarrow> addr \<Rightarrow> nat \<Rightarrow> 'k barrier_world \<Rightarrow> 'k barrier_world run" where
  "release_loop a S q 0 w = Inr w"
| "release_loop a S q (Suc n) w =
     bindR (call_res a (Semaphore_release S q) w) (\<lambda>w'. release_loop a S q n w')"

definition Barrier_wait ::
  "bool \<Rightarrow> clock_api \<Rightarrow> 'k sem_api \<Rightarrow> 'k mutex_api \<Rightarrow> tid \<Rightarrow> nat \<Rightarrow> int \<Rightarrow> 'k barrier_world
    \<Rightarrow> (int \<times> 'k barrier_world) run" where
  "Barrier_wait a C S M t b now w =
     bindR (call_res a (Mutex_lock a C M t (bar_mutex (bars w b))) w) (\<lambda>w1.
     let count = bar_count (bars w1 b) - 1;
         w2 = w1\<lparr>bars := (bars w1)(b := (bars w1 b)\<lparr>bar_count := count\<rparr>)\<rparr> in
     bindR (if count = 0
            then release_loop a S (bar_sem (bars w2 b)) (unat (bar_total (bars w2 b))) (w2\<lparr>start_time := now\<rparr>)
            else Inr w2) (\<lambda>w3.
     bindR (call_res a (Mutex_unlock a M t (bar_mutex (bars w3 b))) w3) (\<lambda>w4.
     bindR (call_res a (Semaphore_acquire C S (bar_sem (bars w4 b))) w4) (\<lambda>w5.
     Inr (start_time w5, w5)))))"

section \<open>Threads and interleaving\<close>

record 'k barrier_sys =
  world :: "'k barrier_world"
  pcs :: "tid \<Rightarrow> (nat \<times> wait_pc) option"

fun is_returned :: "wait_pc \<Rightarrow> bool" where
  "is_returned (Returned us) = True"
| "is_returned pc = False"

definition sys_step ::
  "bool \<Rightarrow> clock_api \<Rightarrow> 'k sem_api \<Rightarrow> 'k mutex_api \<Rightarrow> tid \<Rightarrow> int \<Rightarrow> 'k barrier_sys \<Rightarrow> 'k barrier_sys option" where
  "sys_step a C S M t now s =
     (case pcs s t of
        None \<Rightarrow> None
      | Some (b, pc) \<Rightarrow>
          if is_returned pc then None
          else case wait_stmt a C S M t b now pc (world s) of
            Inl e \<Rightarrow> None
          | Inr (pc', w) \<Rightarrow> Some (s\<lparr>world := w, pcs := (pcs s)(t \<mapsto> (b, pc'))\<rparr>))"

inductive bstep ::
  "bool \<Rightarrow> clock_api \<Rightarrow> 'k sem_api \<Rightarrow> 'k mutex_api \<Rightarrow> 'k barrier_sys \<Rightarrow> 'k barrier_sys \<Rightarrow> bool"
  for a C S M where
  bstepI: "sys_step a C S M t now s = Some s' \<Longrightarrow> bstep a C S M s s'"

inductive_cases bstepE: "bstep a C S M s s'"
inductive_simps bstep_iff: "bstep a C S M s s'"

fun run_schedule ::
  "bool \<Rightarrow> clock_api \<Rightarrow> 'k sem_api \<Rightarrow> 'k mutex_api \<Rightarrow> (tid \<times> int) list \<Rightarrow> 'k barrier_sys \<Rightarrow> 'k barrier_sys option" where
  "run_schedule a C S M [] s = Some s"
| "run_schedule a C S M ((t, now) # xs) s =
     (case sys_step a C S M t now s of None \<Rightarrow> None | Some s' \<Rightarrow> run_schedule a C S M xs s')"

text \<open>The barrier \<open>b\<close> has just been made and every thread of \<open>T\<close> calls \<open>wait\<close> on it.\<close>

definition all_call_wait :: "tid set \<Rightarrow> nat \<Rightarrow> 'k barrier_world \<Rightarrow> 'k barrier_sys" where
  "all_call_wait T b w = \<lparr>world = w, pcs = (\<lambda>t. if t \<in> T then Some (b, Locking) else None)\<rparr>"

definition fresh_barrier :: "'k view \<Rightarrow> nat \<Rightarrow> nat \<Rightarrow> 'k barrier_world \<Rightarrow> bool" where
  "fresh_barrier V n b w \<longleftrightarrow> 0 < n \<and> unat (bar_total (bars w b)) = n \<and> bar_count (bars w b) = bar_total (bars w b) \<and>
     mx V (kern w) (bar_mutex (bars w b)) = None \<and> sm V (kern w) (bar_sem (bars w b)) = (0, n)"

section \<open>What one statement does\<close>

lemma assert_res_ok [simp]: "assert_res a ZephyrResult = Inr ()"
  by (simp add: assert_res_def)

lemma call_res_ok: "f (kern w) = Inr (ZephyrResult, k) \<Longrightarrow> call_res a f w = Inr (w\<lparr>kern := k\<rparr>)"
  by (simp add: call_res_def)

lemma call_res_stuck: "f (kern w) = Inl e \<Longrightarrow> call_res a f w = Inl e"
  by (simp add: call_res_def)

lemma lock_call:
  assumes "mutex_laws E C M V" and "mx V (kern w) p = None"
  shows "\<exists>k. call_res a (Mutex_lock a C M t p) w = Inr (w\<lparr>kern := k\<rparr>) \<and>
    mx V k p = Some (t, 1) \<and> sm V k = sm V (kern w)"
  using Mutex_lock_counts [OF assms(1), of "kern w" p t 0 a] assms(2)
  by (force simp: lock_count_def dest: call_res_ok [where f = "Mutex_lock a C M t p" and w = w and a = a])

lemma lock_call_taken:
  assumes "mutex_laws E C M V" and "mx V (kern w) p = Some (u, n)" and "u \<noteq> t"
  shows "call_res a (Mutex_lock a C M t p) w = Inl Stuck"
  using mutex_lock_forever [OF assms] by (intro call_res_stuck) (simp add: Mutex_lock_def)

lemma unlock_call:
  assumes "mutex_laws E C M V" and "mx V (kern w) p = Some (t, 1)"
  shows "\<exists>k. call_res a (Mutex_unlock a M t p) w = Inr (w\<lparr>kern := k\<rparr>) \<and>
    mx V k p = None \<and> sm V k = sm V (kern w)"
  using Mutex_unlock_counts [OF assms(1), of "kern w" p t 0 a] assms(2)
  by (force simp: lock_count_def dest: call_res_ok [where f = "Mutex_unlock a M t p" and w = w and a = a])

lemma release_call:
  assumes "sem_laws E C S V" and "sm V (kern w) q = (c, l)"
  shows "\<exists>k. call_res a (Semaphore_release S q) w = Inr (w\<lparr>kern := k\<rparr>) \<and>
    sm V k q = (if c < l then Suc c else c, l) \<and> mx V k = mx V (kern w)"
  using sem_give [OF assms]
  by (intro exI [of _ "k_sem_give S q (kern w)"]) (simp add: call_res_def Semaphore_release_def)

lemma acquire_call:
  assumes "sem_laws E C S V" and "sm V (kern w) q = (Suc c, l)"
  shows "\<exists>k. call_res a (Semaphore_acquire C S q) w = Inr (w\<lparr>kern := k\<rparr>) \<and>
    sm V k q = (c, l) \<and> mx V k = mx V (kern w)"
  using sem_take_token [OF assms, of "K_FOREVER C"] by (auto simp: call_res_def Semaphore_acquire_def)

lemma acquire_call_empty:
  "sem_laws E C S V \<Longrightarrow> sm V (kern w) q = (0, l) \<Longrightarrow> call_res a (Semaphore_acquire C S q) w = Inl Stuck"
  by (intro call_res_stuck) (simp add: Semaphore_acquire_def sem_take_empty(1))

section \<open>The invariant of one barrier\<close>

fun in_section :: "wait_pc \<Rightarrow> bool" where
  "in_section Counting = True"
| "in_section Timing = True"
| "in_section (Releasing i) = True"
| "in_section Unlocking = True"
| "in_section pc = False"

fun is_opening :: "wait_pc \<Rightarrow> bool" where
  "is_opening Timing = True"
| "is_opening (Releasing i) = True"
| "is_opening pc = False"

fun arrived :: "wait_pc \<Rightarrow> bool" where
  "arrived Locking = False"
| "arrived Counting = False"
| "arrived pc = True"

fun passed :: "wait_pc \<Rightarrow> bool" where
  "passed Returning = True"
| "passed (Returned us) = True"
| "passed pc = False"

lemma is_opening_in_section: "is_opening pc \<Longrightarrow> in_section pc"
  by (cases pc) simp_all

definition tokens :: "'k view \<Rightarrow> nat \<Rightarrow> 'k barrier_world \<Rightarrow> nat" where
  "tokens V b w = fst (sm V (kern w) (bar_sem (bars w b)))"

definition owner :: "'k view \<Rightarrow> nat \<Rightarrow> 'k barrier_world \<Rightarrow> (tid \<times> nat) option" where
  "owner V b w = mx V (kern w) (bar_mutex (bars w b))"

definition barrier_core :: "'k view \<Rightarrow> tid set \<Rightarrow> nat \<Rightarrow> nat \<Rightarrow> (tid \<Rightarrow> wait_pc) \<Rightarrow> 'k barrier_world \<Rightarrow> bool" where
  "barrier_core V T n b pc w \<longleftrightarrow>
      finite T \<and> card T = n \<and> unat (bar_total (bars w b)) = n \<and>
      snd (sm V (kern w) (bar_sem (bars w b))) = n \<and>
      unat (bar_count (bars w b)) + tally T arrived pc = n \<and>
      (\<forall>t\<in>T. in_section (pc t) \<longrightarrow> owner V b w = Some (t, 1)) \<and>
      (\<forall>u m. owner V b w = Some (u, m) \<longrightarrow> u \<in> T \<and> m = 1 \<and> in_section (pc u)) \<and>
      (\<forall>t\<in>T. pc t = Timing \<longrightarrow> bar_count (bars w b) = 0 \<and> tokens V b w + tally T passed pc = 0) \<and>
      (\<forall>t\<in>T. \<forall>i. pc t = Releasing i \<longrightarrow>
        bar_count (bars w b) = 0 \<and> tokens V b w + tally T passed pc = i \<and> i \<le> n) \<and>
      ((\<forall>t\<in>T. \<not> is_opening (pc t)) \<longrightarrow>
        tokens V b w + tally T passed pc = (if bar_count (bars w b) = 0 then n else 0)) \<and>
      (\<forall>t\<in>T. \<forall>us. pc t = Returned us \<longrightarrow> us = start_time w)"

definition at_barrier :: "tid set \<Rightarrow> nat \<Rightarrow> (tid \<Rightarrow> wait_pc) \<Rightarrow> tid \<Rightarrow> (nat \<times> wait_pc) option" where
  "at_barrier T b pc = (\<lambda>t. if t \<in> T then Some (b, pc t) else None)"

definition barrier_inv :: "'k view \<Rightarrow> tid set \<Rightarrow> nat \<Rightarrow> nat \<Rightarrow> 'k barrier_sys \<Rightarrow> bool" where
  "barrier_inv V T n b s \<longleftrightarrow> (\<exists>pc. pcs s = at_barrier T b pc \<and> barrier_core V T n b pc (world s))"

lemma at_barrier_upd: "t \<in> T \<Longrightarrow> (at_barrier T b pc)(t \<mapsto> (b, x)) = at_barrier T b (pc(t := x))"
  by (auto simp: at_barrier_def)

lemma barrier_inv_init:
  assumes "finite T" and "card T = n" and "fresh_barrier V n b w"
  shows "barrier_inv V T n b (all_call_wait T b w)"
  unfolding barrier_inv_def
proof (intro exI conjI)
  show "pcs (all_call_wait T b w) = at_barrier T b (\<lambda>_. Locking)"
    by (simp add: all_call_wait_def at_barrier_def)
  have "bar_count (bars w b) \<noteq> 0" using assms(3) by (auto simp: fresh_barrier_def)
  then show "barrier_core V T n b (\<lambda>_. Locking) (world (all_call_wait T b w))"
    using assms by (simp add: barrier_core_def fresh_barrier_def all_call_wait_def tally_def tokens_def owner_def)
qed

lemma core_facts:
  assumes "barrier_core V T n b pc w"
  shows "finite T" and "card T = n" and "unat (bar_total (bars w b)) = n"
    and "snd (sm V (kern w) (bar_sem (bars w b))) = n"
    and "unat (bar_count (bars w b)) + tally T arrived pc = n"
    and "\<forall>t\<in>T. in_section (pc t) \<longrightarrow> owner V b w = Some (t, 1)"
    and "\<forall>u m. owner V b w = Some (u, m) \<longrightarrow> u \<in> T \<and> m = 1 \<and> in_section (pc u)"
    and "\<forall>t\<in>T. pc t = Timing \<longrightarrow> bar_count (bars w b) = 0 \<and> tokens V b w + tally T passed pc = 0"
    and "\<forall>t\<in>T. \<forall>i. pc t = Releasing i \<longrightarrow>
        bar_count (bars w b) = 0 \<and> tokens V b w + tally T passed pc = i \<and> i \<le> n"
    and "(\<forall>t\<in>T. \<not> is_opening (pc t)) \<longrightarrow>
        tokens V b w + tally T passed pc = (if bar_count (bars w b) = 0 then n else 0)"
    and "\<forall>t\<in>T. \<forall>us. pc t = Returned us \<longrightarrow> us = start_time w"
  using assms unfolding barrier_core_def by blast+

text \<open>Only one thread is in the section, so while a thread is there no other opens the barrier.\<close>

lemma section_unique:
  assumes "barrier_core V T n b pc w" and "t \<in> T" and "in_section (pc t)" and "u \<in> T" and "u \<noteq> t"
  shows "\<not> in_section (pc u)"
proof
  assume "in_section (pc u)"
  with assms core_facts(6) [OF assms(1)] have "Some (u, 1 :: nat) = Some (t, 1)" by metis
  with assms(5) show False by simp
qed

lemma core_update:
  assumes "barrier_core V T n b pc w" and "t \<in> T"
  shows "tally T P (pc(t := x)) + of_bool (P (pc t)) = tally T P pc + of_bool (P x)"
  using assms tally_upd [of T t P pc x] core_facts(1) by blast

text \<open>
  The frame of every statement: thread \<open>t\<close> moves from \<open>pc t\<close> to \<open>x\<close>; the conditions on the other
  threads are those on \<open>t\<close> unless they speak of the mutex, the tokens or the time.
\<close>

lemma core_in_section:
  assumes core: "barrier_core V T n b pc w" and t: "t \<in> T" "in_section (pc t)"
    and same: "bar_total (bars w' b) = bar_total (bars w b)" "snd (sm V (kern w') (bar_sem (bars w' b))) = n"
    and count: "unat (bar_count (bars w' b)) + tally T arrived (pc(t := x)) = n"
    and owner: "owner V b w' = (if in_section x then Some (t, 1) else None)"
    and timing: "x = Timing \<longrightarrow> bar_count (bars w' b) = 0 \<and> tokens V b w' + tally T passed (pc(t := x)) = 0"
    and releasing: "\<forall>i. x = Releasing i \<longrightarrow>
      bar_count (bars w' b) = 0 \<and> tokens V b w' + tally T passed (pc(t := x)) = i \<and> i \<le> n"
    and closed: "\<not> is_opening x \<Longrightarrow>
      tokens V b w' + tally T passed (pc(t := x)) = (if bar_count (bars w' b) = 0 then n else 0)"
    and time: "\<forall>us. x \<noteq> Returned us" "start_time w' = start_time w \<or> tally T passed pc = 0"
  shows "barrier_core V T n b (pc(t := x)) w'"
proof -
  note F = core_facts [OF core]
  have other: "\<not> in_section (pc u)" if "u \<in> T" "u \<noteq> t" for u
    using section_unique [OF core t that] .
  have noopen: "\<not> is_opening (pc u)" "pc u \<noteq> Timing" "pc u \<noteq> Releasing i" if "u \<in> T" "u \<noteq> t" for u i
    using other [OF that] is_opening_in_section [of "pc u"] by auto
  have ret: "us = start_time w'" if "u \<in> T" "pc u = Returned us" for u us
    using that F(11) time(2) tally_none [OF F(1), of passed pc] by force
  let ?toks = "tokens V b w' + tally T passed (pc(t := x))"
  have 1: "\<forall>u\<in>T. in_section ((pc(t := x)) u) \<longrightarrow> owner V b w' = Some (u, 1)"
    using other owner by auto
  have 2: "\<forall>u m. owner V b w' = Some (u, m) \<longrightarrow> u \<in> T \<and> m = 1 \<and> in_section ((pc(t := x)) u)"
    using owner t by (auto split: if_splits)
  have 3: "\<forall>u\<in>T. (pc(t := x)) u = Timing \<longrightarrow> bar_count (bars w' b) = 0 \<and> ?toks = 0"
    using timing noopen(2) by (metis fun_upd_apply)
  have 4: "\<forall>u\<in>T. \<forall>i. (pc(t := x)) u = Releasing i \<longrightarrow> bar_count (bars w' b) = 0 \<and> ?toks = i \<and> i \<le> n"
    using releasing noopen(3) by (metis fun_upd_apply)
  have 5: "(\<forall>u\<in>T. \<not> is_opening ((pc(t := x)) u)) \<longrightarrow> ?toks = (if bar_count (bars w' b) = 0 then n else 0)"
    using closed t(1) by (metis fun_upd_same)
  have 6: "\<forall>u\<in>T. \<forall>us. (pc(t := x)) u = Returned us \<longrightarrow> us = start_time w'"
    using ret time(1) by (metis fun_upd_apply)
  have 7: "unat (bar_total (bars w' b)) = n" using F(3) same(1) by simp
  show ?thesis
    unfolding barrier_core_def by (intro conjI F(1,2) same(2) count 1 2 3 4 5 6 7)
qed

lemma core_outside:
  assumes core: "barrier_core V T n b pc w" and t: "t \<in> T" "\<not> in_section (pc t)"
    and x: "\<not> is_opening x" "\<forall>us. x = Returned us \<longrightarrow> us = start_time w"
    and same: "bars w' = bars w" "start_time w' = start_time w" "snd (sm V (kern w') (bar_sem (bars w b))) = n"
    and arr: "tally T arrived (pc(t := x)) = tally T arrived pc"
    and toks: "tokens V b w' + tally T passed (pc(t := x)) = tokens V b w + tally T passed pc"
    and owner: "if in_section x then owner V b w = None \<and> owner V b w' = Some (t, 1)
      else owner V b w' = owner V b w"
  shows "barrier_core V T n b (pc(t := x)) w'"
proof -
  note F = core_facts [OF core]
  have xn: "x \<noteq> Timing" "x \<noteq> Releasing i" for i using x(1) by auto
  have t': "\<not> is_opening (pc t)" using t(2) is_opening_in_section by blast
  have 1: "\<forall>u\<in>T. in_section ((pc(t := x)) u) \<longrightarrow> owner V b w' = Some (u, 1)"
    using F(6) owner by (auto split: if_splits)
  have 2: "\<forall>u m. owner V b w' = Some (u, m) \<longrightarrow> u \<in> T \<and> m = 1 \<and> in_section ((pc(t := x)) u)"
    using F(7) owner t by (auto split: if_splits)
  have 3: "\<forall>u\<in>T. (pc(t := x)) u = Timing \<longrightarrow> bar_count (bars w' b) = 0 \<and>
      tokens V b w' + tally T passed (pc(t := x)) = 0"
    unfolding toks same using F(8) xn by (metis fun_upd_apply)
  have 4: "\<forall>u\<in>T. \<forall>i. (pc(t := x)) u = Releasing i \<longrightarrow> bar_count (bars w' b) = 0 \<and>
      tokens V b w' + tally T passed (pc(t := x)) = i \<and> i \<le> n"
    unfolding toks same using F(9) xn by (metis fun_upd_apply)
  have 5: "(\<forall>u\<in>T. \<not> is_opening ((pc(t := x)) u)) \<longrightarrow>
      tokens V b w' + tally T passed (pc(t := x)) = (if bar_count (bars w' b) = 0 then n else 0)"
  proof
    assume "\<forall>u\<in>T. \<not> is_opening ((pc(t := x)) u)"
    then have "\<forall>u\<in>T. \<not> is_opening (pc u)" using t' by (metis fun_upd_apply)
    then show "tokens V b w' + tally T passed (pc(t := x)) = (if bar_count (bars w' b) = 0 then n else 0)"
      using F(10) unfolding toks same by blast
  qed
  have 6: "\<forall>u\<in>T. \<forall>us. (pc(t := x)) u = Returned us \<longrightarrow> us = start_time w'"
    using F(11) x(2) same(2) by simp
  have 7: "unat (bar_total (bars w' b)) = n" "snd (sm V (kern w') (bar_sem (bars w' b))) = n"
    "unat (bar_count (bars w' b)) + tally T arrived (pc(t := x)) = n"
    using F(3,5) same arr by simp_all
  show ?thesis
    unfolding barrier_core_def by (intro conjI F(1,2) 1 2 3 4 5 6 7)
qed

lemma core_Locking:
  assumes laws: "mutex_laws E C M V" and core: "barrier_core V T n b pc w" and t: "t \<in> T" "pc t = Locking"
    and stmt: "wait_stmt a C S M t b now Locking w = Inr (x, w')"
  shows "barrier_core V T n b (pc(t := x)) w'"
proof -
  note F = core_facts [OF core]
  have free: "owner V b w = None"
  proof (cases "owner V b w")
    case (Some um)
    then obtain u m where um: "owner V b w = Some (u, m)" by (cases um) auto
    then have "u \<noteq> t" using F(7) t by fastforce
    then show ?thesis using stmt lock_call_taken [OF laws] um by (simp add: owner_def)
  qed
  obtain k where k: "x = Counting" "w' = w\<lparr>kern := k\<rparr>" "mx V k (bar_mutex (bars w b)) = Some (t, 1)"
    "sm V k = sm V (kern w)"
    using lock_call [OF laws, of w "bar_mutex (bars w b)" a t] free stmt by (auto simp: owner_def)
  have same: "tally T arrived (pc(t := x)) = tally T arrived pc" "tally T passed (pc(t := x)) = tally T passed pc"
    using core_update [OF core t(1), of arrived x] core_update [OF core t(1), of passed x] t k(1) by simp_all
  have "owner V b w' = Some (t, 1)" "tokens V b w' = tokens V b w"
    using k by (simp_all add: owner_def tokens_def)
  then show ?thesis
    using same k free F(4) t by (intro core_outside [OF core]) simp_all
qed

lemma core_Counting:
  assumes core: "barrier_core V T n b pc w" and t: "t \<in> T" "pc t = Counting"
    and stmt: "wait_stmt a C S M t b now Counting w = Inr (x, w')"
  shows "barrier_core V T n b (pc(t := x)) w'"
proof -
  note F = core_facts [OF core]
  let ?c = "bar_count (bars w b)"
  have sect: "in_section (pc t)" and own: "owner V b w = Some (t, 1)" using F(6) t by simp_all
  have "\<not> is_opening (pc u)" if "u \<in> T" for u
    using that t is_opening_in_section section_unique [OF core t(1) sect that] by (cases "u = t") auto
  then have toks: "tokens V b w + tally T passed pc = (if ?c = 0 then n else 0)" using F(10) by blast
  have "tally T arrived pc \<noteq> n" using tally_all [OF F(1), of arrived pc] t F(2) by auto
  then have nz: "?c \<noteq> 0" using F(5) by auto
  then have c: "Suc (unat (?c - 1)) = unat ?c" by (simp add: unat_u32_dec unat_gt_0)
  have x: "x = (if ?c - 1 = 0 then Timing else Unlocking)"
    and w': "w' = w\<lparr>bars := (bars w)(b := (bars w b)\<lparr>bar_count := ?c - 1\<rparr>)\<rparr>"
    using stmt by (auto simp: Let_def split: if_splits)
  have same: "tally T arrived (pc(t := x)) = Suc (tally T arrived pc)" "tally T passed (pc(t := x)) = tally T passed pc"
    using core_update [OF core t(1), of arrived x] core_update [OF core t(1), of passed x] t x by auto
  have "owner V b w' = owner V b w" "tokens V b w' = tokens V b w"
    by (simp_all add: w' owner_def tokens_def)
  then show ?thesis
    using F(4,5) toks nz x c own same
    by (intro core_in_section [OF core t(1) sect]) (auto simp: w')
qed

lemma core_Timing:
  assumes core: "barrier_core V T n b pc w" and t: "t \<in> T" "pc t = Timing"
  shows "barrier_core V T n b (pc(t := Releasing 0)) (w\<lparr>start_time := now\<rparr>)"
proof -
  note F = core_facts [OF core]
  have sect: "in_section (pc t)" and own: "owner V b w = Some (t, 1)" using F(6) t by simp_all
  have same: "tally T arrived (pc(t := Releasing 0)) = tally T arrived pc"
    "tally T passed (pc(t := Releasing 0)) = tally T passed pc"
    using core_update [OF core t(1), of arrived "Releasing 0"]
      core_update [OF core t(1), of passed "Releasing 0"] t by simp_all
  show ?thesis
    using F(4,5,8) t own same
    by (intro core_in_section [OF core t(1) sect]) (auto simp: tokens_def owner_def)
qed

lemma core_Releasing:
  assumes laws: "sem_laws E C S V" and core: "barrier_core V T n b pc w" and t: "t \<in> T" "pc t = Releasing i"
    and stmt: "wait_stmt a C S M t b now (Releasing i) w = Inr (x, w')"
  shows "barrier_core V T n b (pc(t := x)) w'"
proof -
  note F = core_facts [OF core]
  have sect: "in_section (pc t)" and own: "owner V b w = Some (t, 1)" using F(6) t by simp_all
  have R: "bar_count (bars w b) = 0" "tokens V b w + tally T passed pc = i" "i \<le> n"
    using F(9) t by auto
  show ?thesis
  proof (cases "i < n")
    case True
    obtain l where l: "sm V (kern w) (bar_sem (bars w b)) = (tokens V b w, n)"
      using F(4) by (simp add: tokens_def prod_eq_iff)
    obtain k where k: "x = Releasing (Suc i)" "w' = w\<lparr>kern := k\<rparr>" "mx V k = mx V (kern w)"
      "sm V k (bar_sem (bars w b)) = (Suc (tokens V b w), n)"
      using release_call [OF laws l, of a] True R stmt F(3) by auto
    have same: "tally T arrived (pc(t := x)) = tally T arrived pc" "tally T passed (pc(t := x)) = tally T passed pc"
      using core_update [OF core t(1), of arrived x] core_update [OF core t(1), of passed x] t k(1) by simp_all
    show ?thesis
      using F(5) R True k own same
      by (intro core_in_section [OF core t(1) sect]) (auto simp: tokens_def owner_def)
  next
    case False
    then have x: "x = Unlocking" "w' = w" using stmt F(3) by auto
    have same: "tally T arrived (pc(t := x)) = tally T arrived pc" "tally T passed (pc(t := x)) = tally T passed pc"
      using core_update [OF core t(1), of arrived x] core_update [OF core t(1), of passed x] t x by simp_all
    show ?thesis
      using F(4,5) R False x own same
      by (intro core_in_section [OF core t(1) sect]) auto
  qed
qed

lemma core_Unlocking:
  assumes laws: "mutex_laws E C M V" and core: "barrier_core V T n b pc w" and t: "t \<in> T" "pc t = Unlocking"
    and stmt: "wait_stmt a C S M t b now Unlocking w = Inr (x, w')"
  shows "barrier_core V T n b (pc(t := x)) w'"
proof -
  note F = core_facts [OF core]
  have sect: "in_section (pc t)" and own: "owner V b w = Some (t, 1)" using F(6) t by simp_all
  have "\<not> is_opening (pc u)" if "u \<in> T" for u
    using that t is_opening_in_section section_unique [OF core t(1) sect that] by (cases "u = t") auto
  then have toks: "tokens V b w + tally T passed pc = (if bar_count (bars w b) = 0 then n else 0)"
    using F(10) by blast
  obtain k where k: "x = Acquiring" "w' = w\<lparr>kern := k\<rparr>" "mx V k (bar_mutex (bars w b)) = None"
    "sm V k = sm V (kern w)"
    using unlock_call [OF laws, of w "bar_mutex (bars w b)" t a] own stmt by (auto simp: owner_def)
  have same: "tally T arrived (pc(t := x)) = tally T arrived pc" "tally T passed (pc(t := x)) = tally T passed pc"
    using core_update [OF core t(1), of arrived x] core_update [OF core t(1), of passed x] t k(1) by simp_all
  show ?thesis
    using F(4,5) toks k same
    by (intro core_in_section [OF core t(1) sect]) (auto simp: tokens_def owner_def)
qed

lemma core_Acquiring:
  assumes laws: "sem_laws E C S V" and core: "barrier_core V T n b pc w" and t: "t \<in> T" "pc t = Acquiring"
    and stmt: "wait_stmt a C S M t b now Acquiring w = Inr (x, w')"
  shows "barrier_core V T n b (pc(t := x)) w'"
proof -
  note F = core_facts [OF core]
  have l: "sm V (kern w) (bar_sem (bars w b)) = (tokens V b w, n)"
    using F(4) by (simp add: tokens_def prod_eq_iff)
  have pos: "tokens V b w \<noteq> 0"
    using stmt l acquire_call_empty [OF laws, of w "bar_sem (bars w b)" n a] by (cases "tokens V b w") auto
  then obtain c where c: "tokens V b w = Suc c" by (cases "tokens V b w") auto
  obtain k where k: "x = Returning" "w' = w\<lparr>kern := k\<rparr>" "mx V k = mx V (kern w)"
    "sm V k (bar_sem (bars w b)) = (c, n)"
    using acquire_call [OF laws, of w "bar_sem (bars w b)" c n a] c l stmt by auto
  have same: "tally T arrived (pc(t := x)) = tally T arrived pc"
    "tally T passed (pc(t := x)) = Suc (tally T passed pc)"
    using core_update [OF core t(1), of arrived x] core_update [OF core t(1), of passed x] t k(1) by simp_all
  have "owner V b w' = owner V b w" "tokens V b w' = c"
    using k by (simp_all add: owner_def tokens_def)
  then show ?thesis
    using same k c t by (intro core_outside [OF core]) simp_all
qed

lemma core_Returning:
  assumes core: "barrier_core V T n b pc w" and t: "t \<in> T" "pc t = Returning"
  shows "barrier_core V T n b (pc(t := Returned (start_time w))) w"
proof -
  note F = core_facts [OF core]
  let ?x = "Returned (start_time w)"
  have same: "tally T arrived (pc(t := ?x)) = tally T arrived pc" "tally T passed (pc(t := ?x)) = tally T passed pc"
    using core_update [OF core t(1), of arrived ?x] core_update [OF core t(1), of passed ?x] t by simp_all
  show ?thesis
    using same F(4) t by (intro core_outside [OF core]) simp_all
qed

lemma core_stmt:
  assumes "mutex_laws E C M V" and "sem_laws E C S V" and "barrier_core V T n b pc w" and "t \<in> T"
    and "wait_stmt a C S M t b now (pc t) w = Inr (x, w')" and "\<not> is_returned (pc t)"
  shows "barrier_core V T n b (pc(t := x)) w'"
proof (cases "pc t")
  case Locking
  with assms core_Locking show ?thesis by metis
next
  case Counting
  with assms core_Counting show ?thesis by metis
next
  case Timing
  with assms core_Timing [of V T n b pc w t now] show ?thesis by auto
next
  case (Releasing i)
  with assms core_Releasing show ?thesis by metis
next
  case Unlocking
  with assms core_Unlocking show ?thesis by metis
next
  case Acquiring
  with assms core_Acquiring show ?thesis by metis
next
  case Returning
  with assms core_Returning [of V T n b pc w t] show ?thesis by auto
next
  case (Returned us)
  with assms(6) show ?thesis by simp
qed

lemma sys_stepE:
  assumes "sys_step a C S M t now s = Some s'" and "pcs s = at_barrier T b pc"
  obtains x w' where "t \<in> T" and "\<not> is_returned (pc t)"
    and "wait_stmt a C S M t b now (pc t) (world s) = Inr (x, w')"
    and "s' = s\<lparr>world := w', pcs := at_barrier T b (pc(t := x))\<rparr>"
proof -
  from assms have t: "t \<in> T"
    by (simp add: sys_step_def at_barrier_def split: if_splits)
  have upd: "(pcs s)(t \<mapsto> (b, x)) = at_barrier T b (pc(t := x))" for x
    unfolding assms(2) using t by (rule at_barrier_upd)
  have nr: "\<not> is_returned (pc t)"
    using assms t by (auto simp: sys_step_def at_barrier_def)
  show thesis
  proof (cases "wait_stmt a C S M t b now (pc t) (world s)")
    case (Inl e)
    with assms t nr show thesis by (simp add: sys_step_def at_barrier_def)
  next
    case (Inr xw)
    then obtain x w' where xw: "wait_stmt a C S M t b now (pc t) (world s) = Inr (x, w')"
      by (cases xw) auto
    have "s' = s\<lparr>world := w', pcs := (pcs s)(t \<mapsto> (b, x))\<rparr>"
      using assms(1) t nr xw unfolding sys_step_def assms(2) by (simp add: at_barrier_def)
    then show thesis using that [OF t nr xw] upd by simp
  qed
qed

lemma barrier_inv_step:
  assumes laws: "mutex_laws E C M V" "sem_laws E C S V" and inv: "barrier_inv V T n b s" and step: "bstep a C S M s s'"
  shows "barrier_inv V T n b s'"
proof -
  obtain t now where t: "sys_step a C S M t now s = Some s'" using step by (auto simp: bstep_iff)
  obtain pc where pc: "pcs s = at_barrier T b pc" "barrier_core V T n b pc (world s)"
    using inv by (auto simp: barrier_inv_def)
  obtain x w' where x: "t \<in> T" "\<not> is_returned (pc t)"
    "wait_stmt a C S M t b now (pc t) (world s) = Inr (x, w')"
    "s' = s\<lparr>world := w', pcs := at_barrier T b (pc(t := x))\<rparr>"
    by (rule sys_stepE [OF t pc(1)])
  from core_stmt [OF laws pc(2) x(1,3,2)] x(4) show ?thesis by (auto simp: barrier_inv_def)
qed

lemma barrier_inv_reachable:
  assumes "mutex_laws E C M V" and "sem_laws E C S V" and "finite T" and "card T = n" and "fresh_barrier V n b w"
    and "(bstep a C S M)\<^sup>*\<^sup>* (all_call_wait T b w) s"
  shows "barrier_inv V T n b s"
  using assms(6)
proof induction
  case base
  show ?case using assms(3-5) by (rule barrier_inv_init)
next
  case (step s s')
  with barrier_inv_step [OF assms(1,2)] show ?case by blast
qed

section \<open>Progress\<close>

text \<open>A thread inside the section can always execute its statement, and no statement fails an assertion.\<close>

lemma stmt_runs_in_section:
  assumes "mutex_laws E C M V" and "sem_laws E C S V" and core: "barrier_core V T n b pc w"
    and t: "t \<in> T" "in_section (pc t)"
  shows "\<exists>x w'. wait_stmt a C S M t b now (pc t) w = Inr (x, w')"
proof (cases "pc t")
  case (Releasing i)
  obtain c l where "sm V (kern w) (bar_sem (bars w b)) = (c, l)" by (cases "sm V (kern w) (bar_sem (bars w b))")
  with Releasing release_call [OF assms(2), of w "bar_sem (bars w b)" c l a] show ?thesis by auto
next
  case Unlocking
  have "mx V (kern w) (bar_mutex (bars w b)) = Some (t, 1)"
    using core_facts(6) [OF core] t by (simp add: owner_def)
  with Unlocking unlock_call [OF assms(1), of w "bar_mutex (bars w b)" t a] show ?thesis by auto
qed (use t in \<open>simp_all add: Let_def\<close>)

lemma stmt_no_panic:
  assumes "mutex_laws E C M V" and "sem_laws E C S V" and core: "barrier_core V T n b pc w"
    and t: "t \<in> T" and fail: "wait_stmt a C S M t b now (pc t) w = Inl e"
  shows "e = Stuck"
proof (cases "in_section (pc t)")
  case True
  with stmt_runs_in_section [OF assms(1-4), of a now] fail show ?thesis by auto
next
  case False
  note F = core_facts [OF core]
  show ?thesis
  proof (cases "pc t")
    case Locking
    show ?thesis
    proof (cases "owner V b w")
      case None
      with lock_call [OF assms(1), of w "bar_mutex (bars w b)" a t] fail Locking show ?thesis
        by (auto simp: owner_def)
    next
      case (Some um)
      then obtain u m where um: "owner V b w = Some (u, m)" by (cases um) auto
      then have "u \<noteq> t" using F(7) False by fastforce
      with um lock_call_taken [OF assms(1), of w _ u m t a] fail Locking show ?thesis
        by (auto simp: owner_def)
    qed
  next
    case Acquiring
    obtain c l where cl: "sm V (kern w) (bar_sem (bars w b)) = (c, l)" by (cases "sm V (kern w) (bar_sem (bars w b))")
    show ?thesis
      using acquire_call_empty [OF assms(2), of w "bar_sem (bars w b)" l a]
        acquire_call [OF assms(2), of w "bar_sem (bars w b)" "c - 1" l a]
        cl fail Acquiring by (cases c) auto
  qed (use False fail in auto)
qed

lemma some_stmt_runs:
  assumes "mutex_laws E C M V" and "sem_laws E C S V" and core: "barrier_core V T n b pc w"
    and some: "t \<in> T" "\<not> is_returned (pc t)"
  shows "\<exists>u x w'. u \<in> T \<and> \<not> is_returned (pc u) \<and> wait_stmt a C S M u b now (pc u) w = Inr (x, w')"
proof (cases "\<exists>u\<in>T. in_section (pc u)")
  case True
  then obtain u where u: "u \<in> T" "in_section (pc u)" by blast
  then have "\<not> is_returned (pc u)" by (cases "pc u") simp_all
  with u stmt_runs_in_section [OF assms(1,2) core u, of a now] show ?thesis by blast
next
  case False
  note F = core_facts [OF core]
  have free: "owner V b w = None" using F(7) False by (cases "owner V b w") auto
  have noopen: "\<forall>u\<in>T. \<not> is_opening (pc u)" using False is_opening_in_section by blast
  consider u where "u \<in> T" "pc u = Locking" | u where "u \<in> T" "pc u = Returning"
    | u where "u \<in> T" "pc u = Acquiring" "\<forall>v\<in>T. arrived (pc v)"
    using some False
    by (metis arrived.elims(3) in_section.simps(1) in_section.simps(2) in_section.simps(3) in_section.simps(4)
        is_returned.simps(1) wait_pc.exhaust)
  then show ?thesis
  proof cases
    case 1
    with lock_call [OF assms(1), of w "bar_mutex (bars w b)" a u] free show ?thesis
      by (intro exI [of _ u]) (auto simp: owner_def)
  next
    case 2
    then show ?thesis by (intro exI [of _ u]) auto
  next
    case 3
    then have "unat (bar_count (bars w b)) = 0" using F(1,2,5) tally_all [OF F(1), of arrived pc] by simp
    then have count: "bar_count (bars w b) = 0" by (simp add: unat_eq_0)
    then have sum: "tokens V b w + tally T passed pc = n" using F(10) noopen by simp
    have "tally T passed pc \<noteq> n" using tally_all [OF F(1), of passed pc] F(2) 3(1,2) by auto
    with sum obtain c where "tokens V b w = Suc c" by (cases "tokens V b w") auto
    then have "sm V (kern w) (bar_sem (bars w b)) = (Suc c, n)" using F(4) by (simp add: tokens_def prod_eq_iff)
    with 3 acquire_call [OF assms(2), of w "bar_sem (bars w b)" c n a] show ?thesis
      by (intro exI [of _ u]) auto
  qed
qed

text \<open>How many statements a thread has left at most.\<close>

fun stmts_left :: "nat \<Rightarrow> wait_pc \<Rightarrow> nat" where
  "stmts_left n Locking = n + 7"
| "stmts_left n Counting = n + 6"
| "stmts_left n Timing = n + 5"
| "stmts_left n (Releasing i) = 4 + (n - i)"
| "stmts_left n Unlocking = 3"
| "stmts_left n Acquiring = 2"
| "stmts_left n Returning = 1"
| "stmts_left n (Returned us) = 0"

lemma stmts_left_decreases:
  assumes "wait_stmt a C S M t b now pc w = Inr (x, w')" and "\<not> is_returned pc"
    and "unat (bar_total (bars w b)) = n"
  shows "stmts_left n x < stmts_left n pc"
  using assms by (cases pc) (auto simp: bindR_eq_Inr Let_def split: if_splits)

definition all_stmts_left :: "tid set \<Rightarrow> nat \<Rightarrow> 'k barrier_sys \<Rightarrow> nat" where
  "all_stmts_left T n s = (\<Sum>t\<in>T. case pcs s t of None \<Rightarrow> 0 | Some (b, pc) \<Rightarrow> stmts_left n pc)"

lemma all_stmts_left_decreases:
  assumes inv: "barrier_inv V T n b s" and step: "bstep a C S M s s'"
  shows "all_stmts_left T n s' < all_stmts_left T n s"
proof -
  obtain t now where t: "sys_step a C S M t now s = Some s'" using step by (auto simp: bstep_iff)
  obtain pc where pc: "pcs s = at_barrier T b pc" "barrier_core V T n b pc (world s)"
    using inv by (auto simp: barrier_inv_def)
  obtain x w' where x: "t \<in> T" "\<not> is_returned (pc t)"
    "wait_stmt a C S M t b now (pc t) (world s) = Inr (x, w')"
    "s' = s\<lparr>world := w', pcs := at_barrier T b (pc(t := x))\<rparr>"
    by (rule sys_stepE [OF t pc(1)])
  have "all_stmts_left T n s = (\<Sum>u\<in>T. stmts_left n (pc u))"
    "all_stmts_left T n s' = (\<Sum>u\<in>T. stmts_left n ((pc(t := x)) u))"
    by (simp_all add: all_stmts_left_def pc(1) x(4) at_barrier_def)
  moreover have "(\<Sum>u\<in>T. stmts_left n ((pc(t := x)) u)) < (\<Sum>u\<in>T. stmts_left n (pc u))"
    using stmts_left_decreases [OF x(3,2) core_facts(3) [OF pc(2)]] x(1) core_facts(1) [OF pc(2)]
    by (intro sum_strict_mono_ex1) auto
  ultimately show ?thesis by simp
qed

section \<open>Properties\<close>

text \<open>
  C1: When \<open>n\<close> threads call \<open>wait\<close> on a new barrier for \<open>n\<close>, then in every interleaving no
  call returns before all \<open>n\<close> threads have arrived, all calls that have returned gave the same
  time, and no statement any thread is about to execute fails an assertion: it runs or it waits.
\<close>

theorem barrier_safe:
  assumes "mutex_laws E C M V" and "sem_laws E C S V" and "finite T" and "card T = n" and "fresh_barrier V n b w"
    and "(bstep a C S M)\<^sup>*\<^sup>* (all_call_wait T b w) s"
  shows "\<exists>pc. pcs s = at_barrier T b pc \<and>
    (\<forall>t\<in>T. passed (pc t) \<longrightarrow> (\<forall>u\<in>T. arrived (pc u))) \<and>
    (\<forall>t\<in>T. \<forall>u\<in>T. \<forall>us us'. pc t = Returned us \<and> pc u = Returned us' \<longrightarrow> us = us') \<and>
    (\<forall>t\<in>T. \<forall>now e. wait_stmt a C S M t b now (pc t) (world s) = Inl e \<longrightarrow> e = Stuck)"
proof -
  obtain pc where pc: "pcs s = at_barrier T b pc" and core: "barrier_core V T n b pc (world s)"
    using barrier_inv_reachable [OF assms] by (auto simp: barrier_inv_def)
  note F = core_facts [OF core]
  have "\<forall>u\<in>T. arrived (pc u)" if t: "t \<in> T" "passed (pc t)" for t
  proof -
    have pos: "tally T passed pc \<noteq> 0" using tally_none [OF F(1), of passed pc] t by auto
    have "bar_count (bars (world s) b) = 0"
    proof (cases "\<forall>u\<in>T. \<not> is_opening (pc u)")
      case True
      with F(10) pos show ?thesis by (simp split: if_splits)
    next
      case False
      then obtain u where "u \<in> T" "is_opening (pc u)" by blast
      with F(8,9) show ?thesis by (cases "pc u") auto
    qed
    with F(2,5) tally_all [OF F(1), of arrived pc] show ?thesis by simp
  qed
  moreover have "us = us'" if "t \<in> T" "u \<in> T" "pc t = Returned us" "pc u = Returned us'" for t u us us'
    using F(11) that by blast
  moreover have "e = Stuck" if "t \<in> T" "wait_stmt a C S M t b now (pc t) (world s) = Inl e" for t now e
    using stmt_no_panic [OF assms(1,2) core that] .
  ultimately show ?thesis using pc by blast
qed

definition demo_barrier :: "rk barrier_world" where
  "demo_barrier = \<lparr>kern = rk0\<lparr>rk_sm := (\<lambda>q. if q = 10 then (0, 2) else (0, 1))\<rparr>,
     bars = (\<lambda>b. if b = 0 then \<lparr>bar_sem = 10, bar_mutex = 20, bar_count = 2, bar_total = 2\<rparr>
                  else \<lparr>bar_sem = 11, bar_mutex = 21, bar_count = 1, bar_total = 1\<rparr>),
     start_time = 0\<rparr>"

lemma demo_barrier_fresh [simp]: "fresh_barrier ref_view 2 0 demo_barrier"
  by (simp add: fresh_barrier_def demo_barrier_def rk0_def)

lemma run_schedule_bsteps: "run_schedule a C S M xs s = Some s' \<Longrightarrow> (bstep a C S M)\<^sup>*\<^sup>* s s'"
proof (induction xs arbitrary: s)
  case (Cons x xs)
  obtain t now where x: "x = (t, now)" by (cases x)
  with Cons.prems obtain s1 where "sys_step a C S M t now s = Some s1" and "run_schedule a C S M xs s1 = Some s'"
    by (auto split: option.splits)
  with Cons.IH show ?case by (meson bstepI converse_rtranclp_into_rtranclp)
qed simp

theorem barrier_safe_witness:
  "\<exists>s. run_schedule True ref_clock ref_sem ref_mutex [(1, 0), (1, 0), (1, 0)] (all_call_wait {1, 2} 0 demo_barrier) = Some s
    \<and> (\<forall>t\<in>{1, 2}. \<forall>us. pcs s t \<noteq> Some (0, Returned us))"
proof -
  let ?init = "all_call_wait {1, 2} 0 demo_barrier"
  obtain s where s: "run_schedule True ref_clock ref_sem ref_mutex [(1, 0), (1, 0), (1, 0)] ?init = Some s"
    and p2: "pcs s 2 = Some (0, Locking)"
    by (simp add: sys_step_def all_call_wait_def demo_barrier_def Mutex_lock_def Mutex_unlock_def call_res_def
        ref_mutex_def ref_clock_def rk0_def Let_def)
  obtain pc where "pcs s = at_barrier {1, 2} 0 pc"
    "\<forall>t\<in>{1, 2}. passed (pc t) \<longrightarrow> (\<forall>u\<in>{1, 2}. arrived (pc u))"
    using barrier_safe [OF ref_mutex_laws ref_sem_laws _ _ demo_barrier_fresh run_schedule_bsteps [OF s]] by auto
  with p2 s show ?thesis by (auto simp: at_barrier_def)
qed

lemma all_stmts_left_init: "all_stmts_left T (card T) (all_call_wait T b w) = card T * (card T + 7)"
proof -
  have "all_stmts_left T (card T) (all_call_wait T b w) = (\<Sum>t\<in>T. card T + 7)"
    unfolding all_stmts_left_def by (intro sum.cong) (simp_all add: all_call_wait_def)
  then show ?thesis by simp
qed

text \<open>
  C2: The barrier opens. Every interleaving of the \<open>n\<close> calls is finite, at most \<open>n * (n + 7)\<close>
  statements long, and when no thread can go on all \<open>n\<close> calls have returned: there is no deadlock
  and no lost wake-up, whatever the scheduler does.
\<close>

theorem barrier_completes:
  assumes "mutex_laws E C M V" and "sem_laws E C S V" and "finite T" and "card T = n" and "fresh_barrier V n b w"
    and "(bstep a C S M ^^ m) (all_call_wait T b w) s"
  shows "m \<le> n * (n + 7) \<and>
    ((\<forall>s'. \<not> bstep a C S M s s') \<longrightarrow> (\<exists>us. \<forall>t\<in>T. pcs s t = Some (b, Returned us)))"
proof (intro conjI impI)
  let ?init = "all_call_wait T b w"
  have run: "barrier_inv V T n b s' \<and> all_stmts_left T n s' + j \<le> n * (n + 7)"
    if "(bstep a C S M ^^ j) ?init s'" for j s'
    using that
  proof (induction j arbitrary: s')
    case 0
    then have "s' = ?init" by simp
    then show ?case
      using barrier_inv_init [OF assms(3-5)] all_stmts_left_init [of T b w] assms(4) by simp
  next
    case (Suc j)
    then obtain s1 where "(bstep a C S M ^^ j) ?init s1" and step: "bstep a C S M s1 s'" by auto
    with Suc.IH have IH: "barrier_inv V T n b s1" "all_stmts_left T n s1 + j \<le> n * (n + 7)" by blast+
    show ?case
      using barrier_inv_step [OF assms(1,2) IH(1) step] all_stmts_left_decreases [OF IH(1) step] IH(2) by simp
  qed
  from run [OF assms(6)] show "m \<le> n * (n + 7)" by simp
  assume stop: "\<forall>s'. \<not> bstep a C S M s s'"
  obtain pc where pc: "pcs s = at_barrier T b pc" and core: "barrier_core V T n b pc (world s)"
    using run [OF assms(6)] by (auto simp: barrier_inv_def)
  have "is_returned (pc t)" if "t \<in> T" for t
  proof (rule ccontr)
    assume "\<not> is_returned (pc t)"
    then obtain u x w' where u: "u \<in> T" "\<not> is_returned (pc u)"
      "wait_stmt a C S M u b 0 (pc u) (world s) = Inr (x, w')"
      using some_stmt_runs [OF assms(1,2) core \<open>t \<in> T\<close>] by blast
    then have "\<exists>s'. sys_step a C S M u 0 s = Some s'" by (simp add: sys_step_def pc at_barrier_def)
    with stop show False by (blast intro: bstepI)
  qed
  then have "pc t = Returned (start_time (world s))" if "t \<in> T" for t
    using that core_facts(11) [OF core] by (cases "pc t") fastforce+
  then show "\<exists>us. \<forall>t\<in>T. pcs s t = Some (b, Returned us)"
    by (intro exI [of _ "start_time (world s)"]) (simp add: pc at_barrier_def)
qed

theorem barrier_completes_witness:
  "\<not> (\<forall>s'. \<not> bstep True ref_clock ref_sem ref_mutex (all_call_wait {1, 2} 0 demo_barrier) s')"
proof
  let ?init = "all_call_wait {1, 2} 0 demo_barrier"
  assume stop: "\<forall>s'. \<not> bstep True ref_clock ref_sem ref_mutex ?init s'"
  have start: "(bstep True ref_clock ref_sem ref_mutex ^^ 0) ?init ?init" by simp
  have "\<exists>us. \<forall>t\<in>{1, 2}. pcs ?init t = Some (0, Returned us)"
    using barrier_completes [OF ref_mutex_laws ref_sem_laws _ _ demo_barrier_fresh start] stop by simp
  then obtain us where "pcs ?init 1 = Some (0, Returned us)" by blast
  then show False by (simp add: all_call_wait_def)
qed

text \<open>
  C39: A barrier serves one round only. Once the \<open>n\<close> calls have returned, any further call of
  \<open>wait\<close>, by whichever thread, takes the lock, counts from 0 down to \<open>2^32 - 1\<close>, gives the lock back and
  then waits for a token of the semaphore: no thread has a statement left that could give it one, so
  nothing ever moves again unless yet other calls are made.
\<close>

theorem barrier_serves_one_round:
  assumes "mutex_laws E C M V" and "sem_laws E C S V" and "finite T" and "card T = n" and "fresh_barrier V n b w"
    and "(bstep a C S M)\<^sup>*\<^sup>* (all_call_wait T b w) s" and "\<forall>t\<in>T. \<exists>us. pcs s t = Some (b, Returned us)"
  shows "bar_count (bars (world s) b) = 0 \<and> Barrier_wait a C S M t b now (world s) = Inl Stuck \<and>
    (\<exists>s2. run_schedule a C S M (replicate 3 (t, now)) (s\<lparr>pcs := (pcs s)(t \<mapsto> (b, Locking))\<rparr>) = Some s2 \<and>
      pcs s2 = (pcs s)(t \<mapsto> (b, Acquiring)) \<and> unat (bar_count (bars (world s2) b)) = 2 ^ 32 - 1 \<and>
      mx V (kern (world s2)) (bar_mutex (bars (world s2) b)) = None \<and>
      (\<forall>u now'. sys_step a C S M u now' s2 = None))"
proof -
  obtain pc where pc: "pcs s = at_barrier T b pc" and core: "barrier_core V T n b pc (world s)"
    using barrier_inv_reachable [OF assms(1-6)] by (auto simp: barrier_inv_def)
  note F = core_facts [OF core]
  let ?w = "world s" and ?p = "bar_mutex (bars (world s) b)" and ?q = "bar_sem (bars (world s) b)"
  have ret: "\<exists>us. pc t = Returned us" if "t \<in> T" for t
    using assms(7) that by (auto simp: pc at_barrier_def)
  then have out: "arrived (pc t) \<and> passed (pc t) \<and> \<not> in_section (pc t)" if "t \<in> T" for t
    using that by fastforce
  then have "tally T arrived pc = n" "tally T passed pc = n"
    using tally_all [OF F(1), of arrived pc] tally_all [OF F(1), of passed pc] F(2) by auto
  moreover have "\<forall>t\<in>T. \<not> is_opening (pc t)" using out is_opening_in_section by blast
  ultimately have count: "bar_count (bars ?w b) = 0" and "tokens V b ?w = 0"
    using F(5,10) by (auto simp: unat_eq_0 split: if_splits)
  then have toks: "sm V (kern ?w) ?q = (0, n)" using F(4) by (simp add: tokens_def prod_eq_iff)
  have "mx V (kern ?w) ?p = None"
    using F(7) out by (cases "owner V b ?w") (auto simp: owner_def)
  from lock_call [OF assms(1) this, of a t] obtain k1 where k1:
    "call_res a (Mutex_lock a C M t ?p) ?w = Inr (?w\<lparr>kern := k1\<rparr>)" "mx V k1 ?p = Some (t, 1)"
    "sm V k1 = sm V (kern ?w)" by blast
  let ?w2 = "?w\<lparr>kern := k1, bars := (bars ?w)(b := (bars ?w b)\<lparr>bar_count := - 1\<rparr>)\<rparr>"
  obtain k2 where k2: "call_res a (Mutex_unlock a M t ?p) ?w2 = Inr (?w2\<lparr>kern := k2\<rparr>)" "sm V k2 = sm V k1"
    "mx V k2 ?p = None"
    using unlock_call [OF assms(1), of ?w2 ?p t a] k1(2) by auto
  have stuck: "call_res a (Semaphore_acquire C S ?q) (?w2\<lparr>kern := k2\<rparr>) = Inl Stuck"
    using acquire_call_empty [OF assms(2), of "?w2\<lparr>kern := k2\<rparr>" ?q n a] k1(3) k2(2) toks by simp
  then have call: "Barrier_wait a C S M t b now ?w = Inl Stuck"
    using k1(1) k2(1) count by (simp add: Barrier_wait_def Let_def)
  let ?s2 = "s\<lparr>world := ?w2\<lparr>kern := k2\<rparr>, pcs := (pcs s)(t \<mapsto> (b, Acquiring))\<rparr>"
  have "run_schedule a C S M (replicate 3 (t, now)) (s\<lparr>pcs := (pcs s)(t \<mapsto> (b, Locking))\<rparr>) = Some ?s2"
    using k1(1) k2(1) count by (simp add: numeral_3_eq_3 sys_step_def Let_def)
  moreover have "sys_step a C S M u now' ?s2 = None" for u now'
  proof (cases "u = t")
    case True
    with stuck show ?thesis by (simp add: sys_step_def)
  next
    case False
    then have "pcs ?s2 u = None \<or> (\<exists>us. pcs ?s2 u = Some (b, Returned us))"
      using ret by (auto simp: pc at_barrier_def)
    then show ?thesis by (auto simp: sys_step_def)
  qed
  moreover have "unat (- 1 :: u32) = 2 ^ 32 - 1" by (simp add: unsigned_minus_1_eq_mask mask_eq_exp_minus_1)
  ultimately show ?thesis using count call k2(3)
    by (intro conjI exI [of _ ?s2]) simp_all
qed

definition one_thread_barrier :: "rk barrier_world" where
  "one_thread_barrier = demo_barrier\<lparr>bars := (\<lambda>_. \<lparr>bar_sem = 11, bar_mutex = 21, bar_count = 1, bar_total = 1\<rparr>)\<rparr>"

lemma one_thread_barrier_fresh [simp]: "fresh_barrier ref_view 1 0 one_thread_barrier"
  by (simp add: fresh_barrier_def one_thread_barrier_def demo_barrier_def rk0_def)

theorem barrier_serves_one_round_witness:
  "\<exists>s. run_schedule True ref_clock ref_sem ref_mutex [(1, 50), (1, 50), (1, 50), (1, 50), (1, 50), (1, 50), (1, 50), (1, 50)] (all_call_wait {1} 0 one_thread_barrier) = Some s
    \<and> Barrier_wait True ref_clock ref_sem ref_mutex 2 0 60 (world s) = Inl Stuck \<and>
    (\<exists>s2. run_schedule True ref_clock ref_sem ref_mutex [(2, 60), (2, 60), (2, 60)] (s\<lparr>pcs := (pcs s)(2 \<mapsto> (0, Locking))\<rparr>) = Some s2 \<and>
      pcs s2 1 = Some (0, Returned 50) \<and> pcs s2 2 = Some (0, Acquiring) \<and> unat (bar_count (bars (world s2) 0)) = 4294967295)"
proof -
  let ?init = "all_call_wait {1} 0 one_thread_barrier"
  obtain s where s: "run_schedule True ref_clock ref_sem ref_mutex [(1, 50), (1, 50), (1, 50), (1, 50), (1, 50), (1, 50), (1, 50), (1, 50)] ?init = Some s"
    and p: "pcs s 1 = Some (0, Returned 50)"
    by (simp add: sys_step_def all_call_wait_def one_thread_barrier_def demo_barrier_def Mutex_lock_def
        Mutex_unlock_def Semaphore_release_def Semaphore_acquire_def call_res_def ref_mutex_def ref_sem_def
        ref_clock_def rk0_def Let_def)
  show ?thesis
    using barrier_serves_one_round [OF ref_mutex_laws ref_sem_laws _ _ one_thread_barrier_fresh
        run_schedule_bsteps [OF s], of 2 60] s p by (auto simp: numeral_3_eq_3)
qed

text \<open>
  \<open>_start_time\<close> is a static member, so the last comment of \<open>wait\<close> ("the same value for all
  threads") holds for one barrier at a time only. With two barriers in use, two threads of the same
  barrier can return different times.
\<close>

theorem two_barriers_share_start_time:
  "\<exists>schedule s. run_schedule True ref_clock ref_sem ref_mutex schedule
      \<lparr>world = demo_barrier, pcs = [1 \<mapsto> (0, Locking), 2 \<mapsto> (0, Locking), 3 \<mapsto> (1, Locking)]\<rparr> = Some s \<and>
    pcs s 2 = Some (0, Returned 100) \<and> pcs s 1 = Some (0, Returned 200)"
  by (rule exI [of _ "[(1, 90), (1, 90), (1, 90), (2, 100), (2, 100), (2, 100), (2, 100), (2, 100), (2, 100), (2, 100), (2, 100), (2, 100), (1, 190), (3, 200), (3, 200), (3, 200), (1, 210)]"])
    (simp add: sys_step_def demo_barrier_def Mutex_lock_def
      Mutex_unlock_def Semaphore_release_def Semaphore_acquire_def call_res_def ref_mutex_def ref_sem_def
      ref_clock_def rk0_def Let_def)

section \<open>The call and its statements\<close>

fun run_alone ::
  "bool \<Rightarrow> clock_api \<Rightarrow> 'k sem_api \<Rightarrow> 'k mutex_api \<Rightarrow> tid \<Rightarrow> nat \<Rightarrow> int \<Rightarrow> nat \<Rightarrow> wait_pc \<Rightarrow> 'k barrier_world
    \<Rightarrow> (wait_pc \<times> 'k barrier_world) run" where
  "run_alone a C S M t b now 0 pc w = Inr (pc, w)"
| "run_alone a C S M t b now (Suc n) pc w =
     bindR (wait_stmt a C S M t b now pc w) (\<lambda>(pc', w'). run_alone a C S M t b now n pc' w')"

lemma call_res_bars: "call_res a f w = Inr w' \<Longrightarrow> bars w' = bars w"
  by (auto simp: call_res_def bindR_eq_Inr)

lemma run_alone_returned: "run_alone a C S M t b now n (Returned us) w = Inr (Returned us, w)"
  by (induction n) simp_all

lemma run_alone_unlocking:
  "run_alone a C S M t b now (Suc (Suc (Suc k))) Unlocking w =
     bindR (call_res a (Mutex_unlock a M t (bar_mutex (bars w b))) w) (\<lambda>w4.
     bindR (call_res a (Semaphore_acquire C S (bar_sem (bars w4 b))) w4) (\<lambda>w5.
     Inr (Returned (start_time w5), w5)))"
  by (simp add: bindR_assoc run_alone_returned)

lemma run_alone_releasing:
  "i + j = unat (bar_total (bars w b)) \<Longrightarrow>
    run_alone a C S M t b now (Suc j + k) (Releasing i) w =
      bindR (release_loop a S (bar_sem (bars w b)) j w) (\<lambda>w'. run_alone a C S M t b now k Unlocking w')"
proof (induction j arbitrary: i w)
  case (Suc j)
  then have less: "i < unat (bar_total (bars w b))" by simp
  show ?case
  proof (cases "call_res a (Semaphore_release S (bar_sem (bars w b))) w")
    case (Inr w')
    with Suc.IH [of "Suc i" w'] Suc.prems less show ?thesis by (simp add: call_res_bars)
  next
    case (Inl e)
    with less show ?thesis by simp
  qed
qed simp

lemma head_last:
  assumes "call_res a (Mutex_lock a C M t (bar_mutex (bars w b))) w = Inr w1" and "bar_count (bars w1 b) - 1 = 0"
  shows "run_alone a C S M t b now (Suc (Suc (Suc m))) Locking w = run_alone a C S M t b now m (Releasing 0)
    (w1\<lparr>bars := (bars w1)(b := (bars w1 b)\<lparr>bar_count := bar_count (bars w1 b) - 1\<rparr>), start_time := now\<rparr>)"
  using assms by (simp add: Let_def)

lemma head_other:
  assumes "call_res a (Mutex_lock a C M t (bar_mutex (bars w b))) w = Inr w1" and "bar_count (bars w1 b) - 1 \<noteq> 0"
  shows "run_alone a C S M t b now (Suc (Suc m)) Locking w = run_alone a C S M t b now m Unlocking
    (w1\<lparr>bars := (bars w1)(b := (bars w1 b)\<lparr>bar_count := bar_count (bars w1 b) - 1\<rparr>)\<rparr>)"
  using assms by (simp add: Let_def)

text \<open>
  Executed without interference, the statements of \<open>wait\<close> are the call: the interleaving model
  splits \<open>Barrier::wait\<close> into steps and adds nothing to it. The loop runs \<open>_total\<close> times, so
  \<open>_total + 8\<close> statements are enough for every call that returns.
\<close>

lemma wait_is_its_statements:
  "Barrier_wait a C S M t b now w =
     bindR (run_alone a C S M t b now (unat (bar_total (bars w b)) + 8) Locking w) (\<lambda>(pc, w').
       case pc of Returned us \<Rightarrow> Inr (us, w') | _ \<Rightarrow> Inl Undef)"
proof (cases "call_res a (Mutex_lock a C M t (bar_mutex (bars w b))) w")
  case (Inl e)
  then show ?thesis by (simp add: Barrier_wait_def eval_nat_numeral)
next
  case (Inr w1)
  define tot where "tot = unat (bar_total (bars w b))"
  define w2 where "w2 = w1\<lparr>bars := (bars w1)(b := (bars w1 b)\<lparr>bar_count := bar_count (bars w1 b) - 1\<rparr>)\<rparr>"
  have same: "bars w1 = bars w" using Inr by (rule call_res_bars)
  then have tot2: "unat (bar_total (bars w2 b)) = tot" by (simp add: w2_def tot_def)
  have fuel: "tot + 8 = Suc (Suc (Suc (Suc tot + 4)))" "tot + 8 = Suc (Suc (Suc (Suc (Suc (tot + 3)))))"
    "4 = Suc (Suc (Suc 1))" by simp_all
  have wait: "Barrier_wait a C S M t b now w =
    bindR (if bar_count (bars w1 b) - 1 = 0
           then release_loop a S (bar_sem (bars w2 b)) tot (w2\<lparr>start_time := now\<rparr>) else Inr w2) (\<lambda>w3.
    bindR (call_res a (Mutex_unlock a M t (bar_mutex (bars w3 b))) w3) (\<lambda>w4.
    bindR (call_res a (Semaphore_acquire C S (bar_sem (bars w4 b))) w4) (\<lambda>w5. Inr (start_time w5, w5))))"
    unfolding Barrier_wait_def Inr bindR_Inr Let_def w2_def [symmetric] tot2 ..
  show ?thesis
  proof (cases "bar_count (bars w1 b) - 1 = 0")
    case True
    let ?w = "w2\<lparr>start_time := now\<rparr>"
    have loop: "run_alone a C S M t b now (Suc tot + 4) (Releasing 0) ?w =
      bindR (release_loop a S (bar_sem (bars w2 b)) tot ?w) (\<lambda>w'. run_alone a C S M t b now 4 Unlocking w')"
      using run_alone_releasing [of 0 tot ?w b a C S M t now 4] tot2 by simp
    have "run_alone a C S M t b now (tot + 8) Locking w =
      bindR (release_loop a S (bar_sem (bars w2 b)) tot ?w) (\<lambda>w'. run_alone a C S M t b now 4 Unlocking w')"
      unfolding fuel(1) loop [symmetric] unfolding w2_def by (rule head_last [OF Inr True])
    then show ?thesis
      using True unfolding wait tot_def [symmetric] fuel(3) run_alone_unlocking by (simp add: bindR_assoc)
  next
    case False
    have "run_alone a C S M t b now (tot + 8) Locking w =
      run_alone a C S M t b now (Suc (Suc (Suc (tot + 3)))) Unlocking w2"
      unfolding fuel(2) w2_def by (rule head_other [OF Inr False])
    then show ?thesis
      using False unfolding wait tot_def [symmetric] run_alone_unlocking by (simp add: bindR_assoc)
  qed
qed

end
