(* ===== verification/Event_Class.thy ===== *)
theory Event_Class
  imports Error_Result Kernel_Instance
begin

text \<open>
  \<open>zpp_lib::Event\<close> (src/zpp_rtos/event.cpp) over the kernel event object at address \<open>p\<close> (the
  member \<open>_p_event\<close>), for builds without \<open>CONFIG_USERSPACE\<close>; \<open>qemu_userspace\<close> is the
  preprocessor condition of \<open>Event::set\<close>. The locale \<open>one_shot_signal\<close> is the contract under
  which \<open>Thread\<close> and \<open>WorkQueue\<close> use an event to say that they have started.
\<close>

unbundle bit_operations_syntax

section \<open>Operations\<close>

definition Event_ctor :: "'k event_api \<Rightarrow> addr \<Rightarrow> 'k \<Rightarrow> addr \<times> 'k" where
  "Event_ctor A this_event k = (this_event, k_event_init A this_event k)"

definition Event_set :: "bool \<Rightarrow> 'k event_api \<Rightarrow> u32 \<Rightarrow> addr \<Rightarrow> 'k \<Rightarrow> 'k" where
  "Event_set qemu_userspace A event_flag p k =
     (if qemu_userspace then k_event_post A p event_flag k
      else if k_is_in_isr A k then k_event_post A p event_flag k
      else k_event_set A p event_flag k)"

definition Event_wait_any :: "clock_api \<Rightarrow> 'k event_api \<Rightarrow> u32 \<Rightarrow> addr \<Rightarrow> 'k \<Rightarrow> 'k run" where
  "Event_wait_any C A events_flags p k =
     (case k_event_wait A p events_flags False (K_FOREVER C) k of
        None \<Rightarrow> Inl Stuck
      | Some (ret, k') \<Rightarrow> Inr (k_event_clear A p events_flags k'))"

definition Event_try_wait_any_for ::
  "bool \<Rightarrow> clock_api \<Rightarrow> 'k event_api \<Rightarrow> int \<Rightarrow> u32 \<Rightarrow> addr \<Rightarrow> 'k \<Rightarrow> (zephyr_bool_result \<times> 'k) run" where
  "Event_try_wait_any_for config_assert C A timeout events_flags p k =
     (case k_event_wait A p events_flags False (K_MSEC C timeout) k of
        None \<Rightarrow> Inl Stuck
      | Some (ret, k') \<Rightarrow>
          let res = ZephyrBoolResult in
          bindR (if ret = 0 then Inr (b_assign_value False res)
                 else if ret > 0 then Inr (b_assign_value True res)
                 else bindR (ZPP_ASSERT config_assert False) (\<lambda>_.
                   Inr (b_assign_error (zephyr_to_zpp_error_code ret) (b_assign_value False res))))
            (\<lambda>res. Inr (res, k_event_clear A p events_flags k')))"

lemma event_set_view:
  assumes "event_laws C A V"
  shows "ev V (Event_set q A f p k) =
      (ev V k)(p := if q \<or> k_is_in_isr A k then ev V k p OR f else f)"
    and "mx V (Event_set q A f p k) = mx V k" and "sm V (Event_set q A f p k) = sm V k"
    and "k_is_in_isr A (Event_set q A f p k) = k_is_in_isr A k"
  using assms by (simp_all add: Event_set_def event_laws_def)

lemma event_clear_view:
  assumes "event_laws C A V"
  shows "ev V (k_event_clear A p f k) = (ev V k)(p := ev V k p AND NOT f)"
    and "mx V (k_event_clear A p f k) = mx V k" and "sm V (k_event_clear A p f k) = sm V k"
    and "k_is_in_isr A (k_event_clear A p f k) = k_is_in_isr A k"
  using assms by (simp_all add: event_laws_def)

lemma event_wait_posted:
  "event_laws C A V \<Longrightarrow> ev V k p AND f \<noteq> 0 \<Longrightarrow> k_event_wait A p f False d k = Some (ev V k p AND f, k)"
  by (simp add: event_laws_def)

lemma event_wait_forever:
  "event_laws C A V \<Longrightarrow> ev V k p AND f = 0 \<Longrightarrow> k_event_wait A p f False (K_FOREVER C) k = None"
  by (simp add: event_laws_def)

lemma event_wait_any_posted:
  assumes "event_laws C A V" and "ev V k p AND f \<noteq> 0"
  shows "Event_wait_any C A f p k = Inr (k_event_clear A p f k)"
  using event_wait_posted [OF assms] by (simp add: Event_wait_any_def)

lemma event_wait_any_blocks:
  "event_laws C A V \<Longrightarrow> ev V k p AND f = 0 \<Longrightarrow> Event_wait_any C A f p k = Inl Stuck"
  by (simp add: Event_wait_any_def event_wait_forever)

section \<open>The contract of a start signal\<close>

locale one_shot_signal =
  fixes signal :: "'s \<Rightarrow> 's"
    and wait :: "'s \<Rightarrow> 's run"
    and pending :: "'s \<Rightarrow> bool"
    and rest :: "'s \<Rightarrow> 'o"
    and invar :: "'s \<Rightarrow> bool"
  assumes signal_pending: "invar s \<Longrightarrow> pending (signal s) \<and> rest (signal s) = rest s \<and> invar (signal s)"
    and wait_pending: "invar s \<Longrightarrow> pending s \<Longrightarrow>
      \<exists>s'. wait s = Inr s' \<and> \<not> pending s' \<and> rest s' = rest s \<and> invar s'"
    and wait_blocks: "invar s \<Longrightarrow> \<not> pending s \<Longrightarrow> wait s = Inl Stuck"
begin

lemma wait_returns_iff: "invar s \<Longrightarrow> (\<exists>s'. wait s = Inr s') \<longleftrightarrow> pending s"
  using wait_pending wait_blocks by fastforce

lemma signal_wait: "invar s \<Longrightarrow> \<exists>s'. wait (signal s) = Inr s' \<and> \<not> pending s' \<and> rest s' = rest s \<and> invar s'"
  using signal_pending wait_pending by metis

text \<open>The signal is consumed: a second wait blocks until somebody signals again.\<close>

lemma wait_twice_blocks: "invar s \<Longrightarrow> bindR (wait s) wait = Inl Stuck"
  using wait_pending [of s] wait_blocks by (cases "pending s") auto

lemma signals_collapse: "invar s \<Longrightarrow> bindR (wait (signal (signal s))) wait = Inl Stuck"
  using signal_pending wait_twice_blocks by metis

end

interpretation started: one_shot_signal
  "Event_set q A f p" "Event_wait_any C A f p"
  "\<lambda>k. ev V k p AND f \<noteq> 0" "\<lambda>k. (mx V k, sm V k, (ev V k)(p := 0))"
  "\<lambda>k. event_laws C A V \<and> f \<noteq> 0"
  for q A f p C V
proof (unfold_locales, goal_cases)
  case (1 k)
  have "(ev V k p OR f) AND f = f" by (auto simp: bit_eq_iff bit_simps)
  with 1 event_set_view [of C A V q f p k] show ?case by simp
next
  case (2 k)
  have "(ev V k p AND NOT f) AND f = 0" by (simp add: bit_eq_iff bit_simps)
  with 2 event_wait_any_posted [of C A V k p f] event_clear_view [of C A V p f k] show ?case
    by simp
next
  case (3 k)
  then show ?case using event_wait_any_blocks [of C A V k p f] by simp
qed

section \<open>Properties\<close>

text \<open>
  \<open>wait_any(g)\<close> after \<open>set(f)\<close> from a thread returns at once when the two share a flag, leaves
  exactly the flags of \<open>f\<close> that were not waited for, and touches no other kernel object; it blocks
  when they share none.
\<close>

theorem set_then_wait_any:
  assumes "event_laws C A V" and "\<not> k_is_in_isr A k"
  shows "if f AND g = 0 then Event_wait_any C A g p (Event_set False A f p k) = Inl Stuck
    else \<exists>k'. Event_wait_any C A g p (Event_set False A f p k) = Inr k' \<and>
      ev V k' = (ev V k)(p := f AND NOT g) \<and> mx V k' = mx V k \<and> sm V k' = sm V k"
proof -
  let ?k1 = "Event_set False A f p k"
  have k1: "ev V ?k1 = (ev V k)(p := f)" "mx V ?k1 = mx V k" "sm V ?k1 = sm V k"
    using event_set_view [OF assms(1), of False f p k] assms(2) by simp_all
  show ?thesis
  proof (cases "f AND g = 0")
    case True
    then show ?thesis
      using event_wait_any_blocks [OF assms(1), of ?k1 p g] k1 by simp
  next
    case False
    then have "Event_wait_any C A g p ?k1 = Inr (k_event_clear A p g ?k1)"
      using event_wait_any_posted [OF assms(1), of ?k1 p g] k1 by simp
    then show ?thesis
      using False k1 event_clear_view [OF assms(1), of p g ?k1] by simp
  qed
qed

theorem set_then_wait_any_witness:
  "\<exists>k'. Event_wait_any ref_clock ref_event 4 9 (Event_set False ref_event 6 9 rk0) = Inr k' \<and> rk_ev k' 9 = 2"
  using set_then_wait_any [of ref_clock ref_event ref_view rk0 6 4 9]
  by (auto simp: rk0_def)

text \<open>
  C37: \<open>set\<close> from a thread replaces the flags that are already pending, from an interrupt it adds to
  them. After \<open>set(f); set(g)\<close> with disjoint flags (and \<open>f\<close> not 0), a later wait
  for \<open>f\<close> therefore blocks for ever when the two sets were made by a thread, although event.hpp documents
  that set sets a flag and that the wait lasts until one of its flags is set; it returns when they were
  made by an interrupt. (In the userspace build for QEMU set always adds.)
\<close>

theorem set_drops_pending_flags:
  assumes "event_laws C A V" and "f AND g = 0" and "f \<noteq> 0"
  shows "(Event_wait_any C A f p (Event_set False A g p (Event_set False A f p k)) = Inl Stuck)
    \<longleftrightarrow> \<not> k_is_in_isr A k"
proof -
  let ?k2 = "Event_set False A g p (Event_set False A f p k)"
  have isr: "k_is_in_isr A (Event_set False A f p k) = k_is_in_isr A k"
    using event_set_view(4) [OF assms(1)] .
  have "ev V ?k2 p = (if k_is_in_isr A k then (ev V k p OR f) OR g else g)"
    using event_set_view(1) [OF assms(1)] isr by simp
  moreover have "((ev V k p OR f) OR g) AND f \<noteq> 0"
  proof -
    have "((ev V k p OR f) OR g) AND f = f" by (auto simp: bit_eq_iff bit_simps)
    then show ?thesis using assms(3) by simp
  qed
  ultimately show ?thesis
    using event_wait_any_posted [OF assms(1), of ?k2 p f] event_wait_any_blocks [OF assms(1), of ?k2 p f]
      assms(2) by (cases "k_is_in_isr A k") (simp_all add: and.commute)
qed

theorem set_drops_pending_flags_witness:
  "Event_wait_any ref_clock ref_event 1 9 (Event_set False ref_event 2 9 (Event_set False ref_event 1 9 rk0))
    = Inl Stuck"
  using set_drops_pending_flags [of ref_clock ref_event ref_view 1 2 9 rk0]
  by (simp add: rk0_def)

text \<open>
  \<open>try_wait_any_for\<close> returns true exactly when \<open>k_event_wait\<close> reported an event, never a
  result in error state and never a failed assertion: since the value it tests is unsigned, the
  error branch of the code cannot run. It clears the flags it waited for in either case.
\<close>

theorem try_wait_any_for_total:
  assumes "k_event_wait A p f False (K_MSEC C timeout) k = Some (ret, k')"
  shows "\<exists>res. Event_try_wait_any_for config_assert C A timeout f p k = Inr (res, k_event_clear A p f k') \<and>
    \<not> b_has_error res \<and> b_bool True res = Inr (ret \<noteq> 0)"
proof (cases "ret = 0")
  case True
  then show ?thesis using assms by (simp add: Event_try_wait_any_for_def result_defs)
next
  case False
  moreover from this have "ret > 0" by (simp add: word_neq_0_conv)
  ultimately have "Event_try_wait_any_for config_assert C A timeout f p k =
    Inr (b_assign_value True ZephyrBoolResult, k_event_clear A p f k')"
    using assms by (simp add: Event_try_wait_any_for_def Let_def)
  with False show ?thesis by (simp add: result_defs)
qed

theorem try_wait_any_for_total_witness:
  "\<exists>res. Event_try_wait_any_for True ref_clock ref_event 0 1 9 rk0 = Inr (res, k_event_clear ref_event 9 1 rk0) \<and>
    b_bool True res = Inr False"
  using try_wait_any_for_total [of ref_event 9 1 ref_clock 0 rk0 0 rk0 True]
  by (auto simp: ref_event_def rk0_def ref_clock_def)

end
