(* ===== verification/This_Thread.thy ===== *)
theory This_Thread
  imports Clock_Time "HOL-Library.Signed_Division"
begin

text \<open>
  src/zpp_include/types.hpp and src/zpp_rtos/this_thread.cpp: thread priorities as Zephyr sees
  them, and the calls on the running thread. \<open>N\<close> is \<open>CONFIG_NUM_PREEMPT_PRIORITIES\<close>.
\<close>

section \<open>Priorities\<close>

datatype priority =
  PriorityISR | PriorityRealtime | PriorityHigh | PriorityAboveNormal | PriorityNormal |
  PriorityBelowNormal | PriorityLow | PriorityVeryLow | PriorityMinimal | PriorityIdle

text \<open>The underlying type of \<open>PreemptableThreadPriority\<close> is \<open>int8_t\<close>.\<close>

fun priority_value :: "int \<Rightarrow> priority \<Rightarrow> u8" where
  "priority_value N PriorityIdle = word_of_int (N - 1)"
| "priority_value N PriorityMinimal = word_of_int (N - 2)"
| "priority_value N PriorityVeryLow = word_of_int (N - 3)"
| "priority_value N PriorityLow = word_of_int (N - 4)"
| "priority_value N PriorityBelowNormal = word_of_int (N - 5)"
| "priority_value N PriorityNormal = word_of_int (N - 6)"
| "priority_value N PriorityAboveNormal = word_of_int (N - 7)"
| "priority_value N PriorityHigh = word_of_int (N - 8)"
| "priority_value N PriorityRealtime = word_of_int (N - 9)"
| "priority_value N PriorityISR = word_of_int (- N)"

definition prio_to_preemptable_thread_priority :: "int \<Rightarrow> u8" where
  "prio_to_preemptable_thread_priority prio = word_of_int prio"

definition preemptable_thread_priority_to_zephyr_prio :: "u8 \<Rightarrow> int" where
  "preemptable_thread_priority_to_zephyr_prio prio = sint prio"

text \<open>The order of the enumerators, most urgent first.\<close>

fun rank :: "priority \<Rightarrow> nat" where
  "rank PriorityISR = 0"
| "rank PriorityRealtime = 1"
| "rank PriorityHigh = 2"
| "rank PriorityAboveNormal = 3"
| "rank PriorityNormal = 4"
| "rank PriorityBelowNormal = 5"
| "rank PriorityLow = 6"
| "rank PriorityVeryLow = 7"
| "rank PriorityMinimal = 8"
| "rank PriorityIdle = 9"

lemma rank_inj: "rank p = rank q \<Longrightarrow> p = q"
  by (cases p; cases q) simp_all

instantiation priority :: linorder
begin

definition less_eq_priority :: "priority \<Rightarrow> priority \<Rightarrow> bool" where
  "less_eq_priority p q \<longleftrightarrow> rank p \<le> rank q"

definition less_priority :: "priority \<Rightarrow> priority \<Rightarrow> bool" where
  "less_priority p q \<longleftrightarrow> rank p < rank q"

instance
  by standard (auto simp: less_eq_priority_def less_priority_def intro: rank_inj)

end

lemma sint_u8: "- 128 \<le> i \<Longrightarrow> i < 128 \<Longrightarrow> sint (word_of_int i :: u8) = i"
  by (simp add: int_word_sint)

lemma zephyr_prio_value:
  assumes "10 \<le> N" and "N \<le> 128"
  shows "preemptable_thread_priority_to_zephyr_prio (priority_value N p) =
    (if p = PriorityISR then - N else N - 10 + int (rank p))"
  using assms by (cases p) (simp_all add: preemptable_thread_priority_to_zephyr_prio_def sint_u8
      del: of_int_diff of_int_minus)

text \<open>
  Under the condition the header checks, and as long as the values fit the 8-bit enumeration,
  the ten priorities are given to Zephyr in the order of their names (a smaller number is more
  urgent), each inside the range Zephyr configures, and none is confused with another.
\<close>

theorem priorities_ordered:
  assumes "10 \<le> N" and "N \<le> 128"
  shows "(p < q \<longleftrightarrow> preemptable_thread_priority_to_zephyr_prio (priority_value N p)
      < preemptable_thread_priority_to_zephyr_prio (priority_value N q)) \<and>
    (priority_value N p = priority_value N q \<longleftrightarrow> p = q) \<and>
    - N \<le> preemptable_thread_priority_to_zephyr_prio (priority_value N p) \<and>
    preemptable_thread_priority_to_zephyr_prio (priority_value N p) < N"
proof -
  let ?z = "\<lambda>p. preemptable_thread_priority_to_zephyr_prio (priority_value N p)"
  have r9: "rank p \<le> 9" "rank q \<le> 9" by (cases p, simp_all) (cases q, simp_all)
  have isr: "rank r = 0 \<longleftrightarrow> r = PriorityISR" for r by (cases r) simp_all
  have order: "p < q \<longleftrightarrow> ?z p < ?z q" and "- N \<le> ?z p" "?z p < N"
    using assms r9 isr [of p] isr [of q]
    by (auto simp: zephyr_prio_value less_priority_def)
  moreover have "priority_value N p = priority_value N q \<longleftrightarrow> p = q"
  proof
    assume "priority_value N p = priority_value N q"
    then have "\<not> ?z p < ?z q" "\<not> ?z q < ?z p" by simp_all
    then have "?z p = ?z q" by simp
    then have "rank p = rank q"
      using assms isr [of p] isr [of q] by (auto simp: zephyr_prio_value split: if_splits)
    then show "p = q" by (rule rank_inj)
  qed simp
  ultimately show ?thesis by simp
qed

theorem priorities_ordered_witness:
  "preemptable_thread_priority_to_zephyr_prio (priority_value 15 PriorityNormal) = 9 \<and>
    preemptable_thread_priority_to_zephyr_prio (priority_value 15 PriorityNormal)
      < preemptable_thread_priority_to_zephyr_prio (priority_value 15 PriorityLow)"
  using priorities_ordered [of 15 PriorityNormal PriorityLow]
  by (simp add: less_priority_def preemptable_thread_priority_to_zephyr_prio_def sint_u8)

section \<open>The running thread\<close>

record 'k sched_api =
  k_current_get :: "'k \<Rightarrow> tid"
  k_thread_priority_get :: "tid \<Rightarrow> 'k \<Rightarrow> int"
  k_thread_priority_set :: "tid \<Rightarrow> int \<Rightarrow> 'k \<Rightarrow> 'k"
  k_busy_wait :: "u32 \<Rightarrow> 'k \<Rightarrow> 'k"
  k_msleep :: "int \<Rightarrow> 'k \<Rightarrow> int \<times> 'k"
  k_sleep :: "k_timeout_t \<Rightarrow> 'k \<Rightarrow> int \<times> 'k"
  K_TIMEOUT_ABS_US :: "int \<Rightarrow> k_timeout_t"
  K_TIMEOUT_ABS_MS :: "int \<Rightarrow> k_timeout_t"
  K_TIMEOUT_ABS_SEC :: "int \<Rightarrow> k_timeout_t"

definition get_priority :: "'k sched_api \<Rightarrow> 'k \<Rightarrow> u8" where
  "get_priority S k = prio_to_preemptable_thread_priority (k_thread_priority_get S (k_current_get S k) k)"

definition set_priority :: "'k sched_api \<Rightarrow> u8 \<Rightarrow> 'k \<Rightarrow> 'k" where
  "set_priority S priority k =
     k_thread_priority_set S (k_current_get S k) (preemptable_thread_priority_to_zephyr_prio priority) k"

definition busy_wait :: "'k sched_api \<Rightarrow> int \<Rightarrow> 'k \<Rightarrow> 'k" where
  "busy_wait S waitTime k = k_busy_wait S (word_of_int waitTime) k"

text \<open>\<open>static_cast<int32_t>\<close> of a 64-bit count, and \<open>duration_cast\<close>, which rounds towards zero.\<close>

definition to_int32 :: "int \<Rightarrow> int" where
  "to_int32 x = sint (word_of_int x :: u32)"

definition sleep_for_ms :: "'k sched_api \<Rightarrow> int \<Rightarrow> 'k \<Rightarrow> int \<times> 'k" where
  "sleep_for_ms S sleep_duration k = k_msleep S (to_int32 sleep_duration) k"

definition sleep_for_us :: "'k sched_api \<Rightarrow> int \<Rightarrow> 'k \<Rightarrow> int \<times> 'k" where
  "sleep_for_us S sleep_duration k =
     (let ms_sleep_duration = sleep_duration sdiv 1000 in k_msleep S (to_int32 ms_sleep_duration) k)"

definition sleep_for_s :: "'k sched_api \<Rightarrow> int \<Rightarrow> 'k \<Rightarrow> int \<times> 'k" where
  "sleep_for_s S sleep_duration k =
     (let ms_sleep_duration = sleep_duration * 1000 in k_msleep S (to_int32 ms_sleep_duration) k)"

definition sleep_until_us :: "'k sched_api \<Rightarrow> int \<Rightarrow> 'k \<Rightarrow> int \<times> 'k" where
  "sleep_until_us S absolute_time k = k_sleep S (K_TIMEOUT_ABS_US S absolute_time) k"

definition sleep_until_ms :: "'k sched_api \<Rightarrow> int \<Rightarrow> 'k \<Rightarrow> int \<times> 'k" where
  "sleep_until_ms S absolute_time k = k_sleep S (K_TIMEOUT_ABS_MS S absolute_time) k"

definition sleep_until_s :: "'k sched_api \<Rightarrow> int \<Rightarrow> 'k \<Rightarrow> int \<times> 'k" where
  "sleep_until_s S absolute_time k = k_sleep S (K_TIMEOUT_ABS_SEC S absolute_time) k"

lemma to_int32_id: "- 2147483648 \<le> x \<Longrightarrow> x < 2147483648 \<Longrightarrow> to_int32 x = x"
  by (simp add: to_int32_def int_word_sint)

text \<open>
  Every overload of \<open>sleep_for\<close> asks the kernel for the given duration in milliseconds, as
  long as that fits 31 bits: microseconds are rounded down, so a sleep of less than a millisecond
  asks for none. From \<open>2^31\<close> ms on (24 days) the cast wraps to a negative number.
\<close>

theorem sleep_for_durations:
  assumes "0 \<le> ms" and "ms < 2147483648" and "0 \<le> r" and "r < 1000"
  shows "sleep_for_ms S ms k = k_msleep S ms k \<and>
    sleep_for_us S (1000 * ms + r) k = k_msleep S ms k \<and>
    (1000 * s = ms \<longrightarrow> sleep_for_s S s k = k_msleep S ms k) \<and>
    sleep_for_ms S (ms + 2147483648) k = k_msleep S (ms - 2147483648) k"
proof -
  have "(1000 * ms + r) sdiv 1000 = ms"
    using assms by (cases "ms = 0 \<and> r = 0") (simp_all add: signed_divide_int_def sgn_if)
  moreover have "to_int32 (ms + 2147483648) = ms - 2147483648"
    using assms by (simp add: to_int32_def int_word_sint del: of_int_add)
  ultimately show ?thesis
    using assms by (auto simp: sleep_for_ms_def sleep_for_us_def sleep_for_s_def to_int32_id mult.commute)
qed

definition demo_sched :: "int sched_api" where
  "demo_sched = \<lparr>k_current_get = (\<lambda>_. 0), k_thread_priority_get = (\<lambda>_ k. k),
     k_thread_priority_set = (\<lambda>_ p _. p), k_busy_wait = (\<lambda>_ k. k), k_msleep = (\<lambda>d k. (0, k + d)),
     k_sleep = (\<lambda>_ k. (0, k)), K_TIMEOUT_ABS_US = (\<lambda>d. \<lparr>ticks = - 1 - d\<rparr>),
     K_TIMEOUT_ABS_MS = (\<lambda>d. \<lparr>ticks = - 1 - d\<rparr>), K_TIMEOUT_ABS_SEC = (\<lambda>d. \<lparr>ticks = - 1 - d\<rparr>)\<rparr>"

theorem sleep_for_durations_witness:
  "sleep_for_us demo_sched 2999 0 = (0, 2) \<and> sleep_for_s demo_sched 2 0 = (0, 2000)"
  using sleep_for_durations [of 2 999 demo_sched 0 0] sleep_for_durations [of 2000 0 demo_sched 0 2]
  by (simp add: demo_sched_def)

text \<open>
  A thread that sets its priority to one of the enumerators and asks for its priority again
  gets the same enumerator, given that Zephyr stores the number it was passed.
\<close>

theorem priority_round_trip:
  assumes "10 \<le> N" and "N \<le> 128"
    and "\<And>t z k. k_thread_priority_get S t (k_thread_priority_set S t z k) = z"
    and "\<And>t z k. k_current_get S (k_thread_priority_set S t z k) = k_current_get S k"
  shows "get_priority S (set_priority S (priority_value N p) k) = priority_value N p"
  using assms(3,4)
  by (simp add: get_priority_def set_priority_def prio_to_preemptable_thread_priority_def
      preemptable_thread_priority_to_zephyr_prio_def)

theorem priority_round_trip_witness:
  "get_priority demo_sched (set_priority demo_sched (priority_value 15 PriorityHigh) 3) = priority_value 15 PriorityHigh"
  by (rule priority_round_trip) (simp_all add: demo_sched_def)

end
