(* ===== verification/Thread_Class.thy ===== *)
theory Thread_Class
  imports Mutex_Class Event_Class This_Thread
begin

text \<open>
  \<open>zpp_lib::Thread\<close> (src/zpp_rtos/thread.cpp), for builds without \<open>CONFIG_USERSPACE\<close>. A
  \<open>std::function<void()>\<close> is a value of the type parameter \<open>'f\<close> and \<open>invoke\<close> runs it. The
  objects live in a store \<open>objs\<close>, by their address; \<open>thread_data\<close> is the static array of
  \<open>struct k_thread\<close>, indexed like the static array of stacks.
\<close>

section \<open>The class\<close>

definition kStartedEvent :: u32 where
  "kStartedEvent = 0x01"

record 'f thread_obj =
  th_mutex :: addr
  th_event :: addr
  th_task :: "'f option"
  th_priority :: u8
  th_name :: string
  th_tid :: "tid option"

record ('k, 'f) thread_world =
  tkern :: 'k
  objs :: "addr \<Rightarrow> 'f thread_obj"
  s_thread_instance_count :: u8

text \<open>The build configuration and the kernel calls the class uses.\<close>

record 'k thread_env =
  config_assert :: bool
  qemu_userspace :: bool
  env_errno :: errno_values
  env_clock :: clock_api
  env_mutex :: "'k mutex_api"
  env_event :: "'k event_api"
  env_thread :: "'k thread_api"
  thread_data :: "tid list"

definition Thread_ctor ::
  "'k mutex_api \<Rightarrow> 'k event_api \<Rightarrow> addr \<Rightarrow> addr \<Rightarrow> u8 \<Rightarrow> string option \<Rightarrow> 'k \<Rightarrow> 'f thread_obj \<times> 'k" where
  "Thread_ctor M A this_mutex this_event prio name k =
     (let (p_mutex, k1) = Mutex_ctor M this_mutex k; (p_event, k2) = Event_ctor A this_event k1 in
      (\<lparr>th_mutex = p_mutex, th_event = p_event, th_task = None, th_priority = prio,
        th_name = (case name of None \<Rightarrow> ''application_unnamed_thread'' | Some n \<Rightarrow> n), th_tid = None\<rparr>, k2))"

text \<open>A call on a kernel object, and a change of the object at address \<open>o\<close>.\<close>

definition on_kern :: "('k \<Rightarrow> ('r \<times> 'k) run) \<Rightarrow> ('k, 'f) thread_world \<Rightarrow> ('r \<times> ('k, 'f) thread_world) run" where
  "on_kern f w = bindR (f (tkern w)) (\<lambda>(r, k). Inr (r, w\<lparr>tkern := k\<rparr>))"

definition set_obj :: "addr \<Rightarrow> 'f thread_obj \<Rightarrow> ('k, 'f) thread_world \<Rightarrow> ('k, 'f) thread_world" where
  "set_obj o1 ob w = w\<lparr>objs := (objs w)(o1 := ob)\<rparr>"

definition obj_lock ::
  "'k thread_env \<Rightarrow> tid \<Rightarrow> addr \<Rightarrow> ('k, 'f) thread_world \<Rightarrow> (zephyr_result \<times> ('k, 'f) thread_world) run" where
  "obj_lock env me p = on_kern (Mutex_lock (config_assert env) (env_clock env) (env_mutex env) me p)"

definition obj_unlock ::
  "'k thread_env \<Rightarrow> tid \<Rightarrow> addr \<Rightarrow> ('k, 'f) thread_world \<Rightarrow> (zephyr_result \<times> ('k, 'f) thread_world) run" where
  "obj_unlock env me p = on_kern (Mutex_unlock (config_assert env) (env_mutex env) me p)"

text \<open>\<open>Thread::start\<close>: what runs under the scoped lock.\<close>

definition start_body ::
  "'k thread_env \<Rightarrow> addr \<Rightarrow> 'f \<Rightarrow> ('k, 'f) thread_world \<Rightarrow> (zephyr_result \<times> ('k, 'f) thread_world) run" where
  "start_body env o1 task w =
     (let res = ZephyrResult; ob = objs w o1; T = env_thread env; i = unat (s_thread_instance_count w) in
      if th_tid ob \<noteq> None then Inr (r_assign_error (Already (env_errno env)) res, w)
      else bindR (ZPP_ASSERT (config_assert env) (i < length (thread_data env))) (\<lambda>_.
        if length (thread_data env) \<le> i then Inl Undef
        else
          let delay = K_FOREVER (env_clock env); options = 0;
              zephyr_priority = preemptable_thread_priority_to_zephyr_prio (th_priority ob);
              (new_tid, k1) = k_thread_create T (thread_data env ! i) i o1 zephyr_priority options delay (tkern w);
              w1 = set_obj o1 (ob\<lparr>th_task := Some task, th_tid := new_tid\<rparr>) (w\<lparr>tkern := k1\<rparr>) in
          case new_tid of
            None \<Rightarrow> bindR (ZPP_ASSERT (config_assert env) False) (\<lambda>_. Inr (r_assign_error (Nomem (env_errno env)) res, w1))
          | Some t \<Rightarrow>
              let (ret, k2) = k_thread_name_set T t (th_name ob) k1; w2 = w1\<lparr>tkern := k2\<rparr> in
              if ret \<noteq> 0 then bindR (ZPP_ASSERT (config_assert env) False) (\<lambda>_.
                Inr (r_assign_error (ret_code ret) res, w2))
              else Inr (res, w2\<lparr>tkern := k_thread_start T t k2,
                s_thread_instance_count := s_thread_instance_count w2 + 1\<rparr>)))"

definition Thread_start ::
  "'k thread_env \<Rightarrow> tid \<Rightarrow> addr \<Rightarrow> 'f \<Rightarrow> ('k, 'f) thread_world \<Rightarrow> (zephyr_result \<times> ('k, 'f) thread_world) run" where
  "Thread_start env me o1 task w =
     scoped_lock (obj_lock env me (th_mutex (objs w o1))) (obj_unlock env me (th_mutex (objs w o1)))
       (start_body env o1 task) w"

definition Thread_wait_started ::
  "'k thread_env \<Rightarrow> addr \<Rightarrow> ('k, 'f) thread_world \<Rightarrow> ('k, 'f) thread_world run" where
  "Thread_wait_started env o1 w =
     bindR (Event_wait_any (env_clock env) (env_event env) kStartedEvent (th_event (objs w o1)) (tkern w))
       (\<lambda>k. Inr (w\<lparr>tkern := k\<rparr>))"

definition Thread_join ::
  "'k thread_env \<Rightarrow> tid \<Rightarrow> addr \<Rightarrow> ('k, 'f) thread_world \<Rightarrow> (zephyr_result \<times> ('k, 'f) thread_world) run" where
  "Thread_join env me o1 w =
     (let a = config_assert env; p = th_mutex (objs w o1);
          leave = (\<lambda>w. bindR (obj_unlock env me p w) (\<lambda>(res, w). bindR (ZPP_ASSERT a (r_bool res)) (\<lambda>_. Inr (res, w)))) in
      bindR (obj_lock env me p w) (\<lambda>(res, w).
      bindR (ZPP_ASSERT a (r_bool res)) (\<lambda>_.
      case th_tid (objs w o1) of
        None \<Rightarrow> leave w
      | Some t \<Rightarrow>
          bindR (obj_unlock env me p w) (\<lambda>(res, w).
          bindR (ZPP_ASSERT a (r_bool res)) (\<lambda>_.
          case k_thread_join (env_thread env) t (K_FOREVER (env_clock env)) (tkern w) of
            None \<Rightarrow> Inl Stuck
          | Some (ret, k) \<Rightarrow>
              let w = w\<lparr>tkern := k\<rparr> in
              if ret \<noteq> 0 then Inr (r_assign_error (ret_code ret) res, w)
              else
                bindR (obj_lock env me p w) (\<lambda>(res, w).
                bindR (ZPP_ASSERT a (r_bool res)) (\<lambda>_.
                leave (set_obj o1 ((objs w o1)\<lparr>th_tid := None\<rparr>) w))))))))"

definition Thread_dtor :: "'k thread_env \<Rightarrow> addr \<Rightarrow> ('k, 'f) thread_world \<Rightarrow> ('k, 'f) thread_world run" where
  "Thread_dtor env o1 w =
     (case th_tid (objs w o1) of
        None \<Rightarrow> Inr w
      | Some t \<Rightarrow>
          case k_thread_join (env_thread env) t (K_FOREVER (env_clock env)) (tkern w) of
            None \<Rightarrow> Inl Stuck
          | Some (ret, k) \<Rightarrow> Inr (w\<lparr>tkern := k\<rparr>))"

text \<open>
  \<open>Thread::s_thunk\<close>, executed by the new thread \<open>me\<close>. Invoking an empty \<open>std::function\<close> throws,
  which ends the program.
\<close>

definition s_thunk ::
  "'k thread_env \<Rightarrow> ('f \<Rightarrow> ('k, 'f) thread_world \<Rightarrow> ('k, 'f) thread_world run) \<Rightarrow> tid \<Rightarrow> addr
    \<Rightarrow> ('k, 'f) thread_world \<Rightarrow> ('k, 'f) thread_world run" where
  "s_thunk env invoke me t w =
     (let event = th_event (objs w t); mutex = th_mutex (objs w t);
          w1 = w\<lparr>tkern := Event_set (qemu_userspace env) (env_event env) kStartedEvent event (tkern w)\<rparr> in
      bindR (case th_task (objs w1 t) of None \<Rightarrow> Inl Panic | Some f \<Rightarrow> invoke f w1) (\<lambda>w2.
      bindR (scoped_lock (obj_lock env me mutex) (obj_unlock env me mutex)
        (\<lambda>w. Inr ((), w\<lparr>s_thread_instance_count := s_thread_instance_count w - 1\<rparr>)) w2) (\<lambda>(_, w3).
      Inr w3)))"

section \<open>The lock of an object\<close>

definition env_laws :: "'k thread_env \<Rightarrow> bool \<Rightarrow> 'k view \<Rightarrow> 'k thread_view \<Rightarrow> bool" where
  "env_laws env named V TV \<longleftrightarrow>
     errno_laws (env_errno env) \<and> mutex_laws (env_errno env) (env_clock env) (env_mutex env) V \<and>
     event_laws (env_clock env) (env_event env) V \<and>
     thread_laws (env_errno env) (env_clock env) (env_thread env) named V TV \<and>
     thread_frame (env_mutex env) (env_event env) TV"

definition world_rest where
  "world_rest V TV p w =
     (objs w, s_thread_instance_count w, sm V (tkern w), ev V (tkern w), (mx V (tkern w))(p := None), TV (tkern w))"

lemma thread_frame_lock:
  "thread_frame M A TV \<Longrightarrow> Mutex_lock a C M t p k = Inr (r, k') \<Longrightarrow> TV k' = TV k"
  by (auto simp: thread_frame_def Mutex_lock_def bindR_eq_Inr split: option.splits if_splits)

lemma thread_frame_unlock:
  "thread_frame M A TV \<Longrightarrow> Mutex_unlock a M t p k = Inr (r, k') \<Longrightarrow> TV k' = TV k"
  by (auto simp: thread_frame_def Mutex_unlock_def bindR_eq_Inr split: if_splits prod.splits)

interpretation obj_mutex: lock_contract
  "obj_lock env me p" "obj_unlock env me p"
  "\<lambda>w. mx V (tkern w) p = None" "\<lambda>w. mx V (tkern w) p = Some (me, 1)" "world_rest V TV p"
  "\<lambda>w. env_laws env named V TV \<and> (\<forall>n. mx V (tkern w) p = Some (me, n) \<longrightarrow> n = 1)"
  for env me p V TV named
proof (unfold_locales, goal_cases)
  case (1 w)
  then obtain k where "Mutex_lock (config_assert env) (env_clock env) (env_mutex env) me p (tkern w) = Inr (ZephyrResult, k)"
    "mx V k = (mx V (tkern w))(p := Some (me, 1))" "sm V k = sm V (tkern w)" "ev V k = ev V (tkern w)"
    using Mutex_lock_counts [of "env_errno env" "env_clock env" "env_mutex env" V "tkern w" p me 0 "config_assert env"]
    by (auto simp: env_laws_def lock_count_def)
  with 1 thread_frame_lock show ?case
    by (fastforce simp: obj_lock_def on_kern_def world_rest_def env_laws_def)
next
  case (2 w)
  then obtain k where "Mutex_unlock (config_assert env) (env_mutex env) me p (tkern w) = Inr (ZephyrResult, k)"
    "mx V k p = None" "\<forall>a. a \<noteq> p \<longrightarrow> mx V k a = mx V (tkern w) a" "sm V k = sm V (tkern w)" "ev V k = ev V (tkern w)"
    using Mutex_unlock_counts [of "env_errno env" "env_clock env" "env_mutex env" V "tkern w" p me 0 "config_assert env"]
    by (auto simp: env_laws_def lock_count_def)
  moreover from this have "(mx V k)(p := None) = (mx V (tkern w))(p := None)" by auto
  ultimately show ?case using 2 thread_frame_unlock
    by (fastforce simp: obj_unlock_def on_kern_def world_rest_def env_laws_def)
next
  case (3 w)
  with mutex.lock_taken [of "env_errno env" "env_clock env" "env_mutex env" V "tkern w" p me "config_assert env"]
  show ?case by (simp add: obj_lock_def on_kern_def env_laws_def)
next
  case (4 w)
  with mutex.unlock_not_held [of "env_errno env" "env_clock env" "env_mutex env" V "tkern w" p me "config_assert env"]
  show ?case by (auto simp: obj_unlock_def on_kern_def env_laws_def bindR_eq_Inr)
qed

section \<open>What the operations do\<close>

lemma fun_upd_None_same: "f p = None \<Longrightarrow> f(p := None) = f"
  by (simp add: fun_upd_idem_iff)

text \<open>A body that leaves the object's mutex as it is, run under the scoped lock of a free mutex.\<close>

lemma obj_scoped:
  assumes "env_laws env named V TV" and free: "mx V (tkern w) p = None"
    and body: "\<And>w1. mx V (tkern w1) p = Some (me, 1) \<Longrightarrow> world_rest V TV p w1 = world_rest V TV p w \<Longrightarrow>
      \<exists>x w2. body w1 = Inr (x, w2) \<and> mx V (tkern w2) p = Some (me, 1) \<and> Q x (world_rest V TV p w2)"
  shows "\<exists>x w3. scoped_lock (obj_lock env me p) (obj_unlock env me p) body w = Inr (x, w3) \<and>
    mx V (tkern w3) p = None \<and> Q x (world_rest V TV p w3)"
proof -
  have "\<exists>x s2. body s1 = Inr (x, s2) \<and> mx V (tkern s2) p = Some (me, 1) \<and>
      (env_laws env named V TV \<and> (\<forall>n. mx V (tkern s2) p = Some (me, n) \<longrightarrow> n = 1)) \<and> Q x (world_rest V TV p s2)"
    if "mx V (tkern s1) p = Some (me, 1)" "world_rest V TV p s1 = world_rest V TV p w" for s1
    using body [OF that] assms(1) by fastforce
  with obj_mutex.scoped_section [of env named V TV w p me body Q] assms(1) free show ?thesis
    by (simp; metis)
qed

lemma world_restD:
  assumes "world_rest V TV p w' = (ob, c, s, e, m, th)"
  shows "objs w' = ob" and "s_thread_instance_count w' = c" and "sm V (tkern w') = s" and "ev V (tkern w') = e"
    and "(mx V (tkern w'))(p := None) = m" and "TV (tkern w') = th"
  using assms by (simp_all add: world_rest_def)

lemma thread_create_law:
  "thread_laws E C T named V TV \<Longrightarrow> \<forall>b n. TV k t \<noteq> Running b n \<Longrightarrow>
    \<exists>k'. k_thread_create T t s a prio opt (K_FOREVER C) k = (Some t, k') \<and>
      TV k' = (TV k)(t := Created a s) \<and> mx V k' = mx V k \<and> sm V k' = sm V k \<and> ev V k' = ev V k"
  by (simp add: thread_laws_def)

lemma thread_name_law:
  "thread_laws E C T named V TV \<Longrightarrow>
    \<exists>k'. k_thread_name_set T t n k = (if named then 0 else neg_errno E ''ENOSYS'', k') \<and>
      TV k' = TV k \<and> mx V k' = mx V k \<and> sm V k' = sm V k \<and> ev V k' = ev V k"
  by (simp add: thread_laws_def)

lemma thread_start_law:
  assumes "thread_laws E C T named V TV"
  shows "TV k t = Created a s \<Longrightarrow> TV (k_thread_start T t k) = (TV k)(t := Running a s)"
    and "mx V (k_thread_start T t k) = mx V k" and "sm V (k_thread_start T t k) = sm V k"
    and "ev V (k_thread_start T t k) = ev V k"
  using assms by (simp_all add: thread_laws_def)

lemma thread_exit_law:
  assumes "thread_laws E C T named V TV"
  shows "TV k t = Running a s \<Longrightarrow> TV (k_thread_exit T t k) = (TV k)(t := Dead)"
    and "mx V (k_thread_exit T t k) = mx V k" and "sm V (k_thread_exit T t k) = sm V k"
    and "ev V (k_thread_exit T t k) = ev V k"
  using assms by (simp_all add: thread_laws_def)

lemma thread_join_law:
  assumes "thread_laws E C T named V TV"
  shows "TV k t = Dead \<Longrightarrow> k_thread_join T t (K_FOREVER C) k = Some (0, k)"
    and "TV k t = Running a s \<Longrightarrow> k_thread_join T t (K_FOREVER C) k = None"
    and "TV k t = Created a s \<Longrightarrow> k_thread_join T t (K_FOREVER C) k = None"
  using assms by (simp_all add: thread_laws_def)

text \<open>
  \<open>start_body\<close> on an object that was not started. The outcome depends on whether the kernel
  gives names to threads: with them the thread runs and is counted, without them it is created,
  never started and not counted.
\<close>

lemma start_body_ok:
  assumes laws: "env_laws env named V TV" and "th_tid (objs w o1) = None"
    and i: "unat (s_thread_instance_count w) < length (thread_data env)"
    and slot: "t = thread_data env ! unat (s_thread_instance_count w)" "\<forall>b n. TV (tkern w) t \<noteq> Running b n"
    and "named \<or> \<not> config_assert env"
  shows "\<exists>w'. start_body env o1 f w =
      Inr (if named then ZephyrResult else r_assign_error (ret_code (neg_errno (env_errno env) ''ENOSYS'')) ZephyrResult, w') \<and>
    objs w' = (objs w)(o1 := (objs w o1)\<lparr>th_task := Some f, th_tid := Some t\<rparr>) \<and>
    s_thread_instance_count w' = (if named then s_thread_instance_count w + 1 else s_thread_instance_count w) \<and>
    TV (tkern w') = (TV (tkern w))(t := (if named then Running o1 (unat (s_thread_instance_count w))
      else Created o1 (unat (s_thread_instance_count w)))) \<and>
    mx V (tkern w') = mx V (tkern w) \<and> sm V (tkern w') = sm V (tkern w) \<and> ev V (tkern w') = ev V (tkern w)"
proof -
  let ?i = "unat (s_thread_instance_count w)" and ?T = "env_thread env" and ?ob = "objs w o1"
  have TL: "thread_laws (env_errno env) (env_clock env) ?T named V TV" and E: "errno_laws (env_errno env)"
    using laws by (simp_all add: env_laws_def)
  obtain k1 where k1: "k_thread_create ?T t ?i o1 (preemptable_thread_priority_to_zephyr_prio (th_priority ?ob)) 0
      (K_FOREVER (env_clock env)) (tkern w) = (Some t, k1)" "TV k1 = (TV (tkern w))(t := Created o1 ?i)"
    "mx V k1 = mx V (tkern w)" "sm V k1 = sm V (tkern w)" "ev V k1 = ev V (tkern w)"
    using thread_create_law [OF TL slot(2)] by blast
  obtain k2 where k2: "k_thread_name_set ?T t (th_name ?ob) k1 =
      (if named then 0 else neg_errno (env_errno env) ''ENOSYS'', k2)" "TV k2 = TV k1"
    "mx V k2 = mx V k1" "sm V k2 = sm V k1" "ev V k2 = ev V k1"
    using thread_name_law [OF TL] by blast
  show ?thesis
  proof (cases named)
    case True
    have c: "TV k2 t = Created o1 ?i" using k1(2) k2(2) by simp
    have s: "TV (k_thread_start ?T t k2) = (TV (tkern w))(t := Running o1 ?i)"
      using thread_start_law(1) [OF TL c] k1(2) k2(2) by (simp add: fun_eq_iff)
    from True k1 k2 thread_start_law(2-) [OF TL, of t k2] s assms(2) i show ?thesis
      unfolding slot(1) [symmetric]
      by (simp add: start_body_def Let_def set_obj_def slot(1) [symmetric])
  next
    case False
    have "neg_errno (env_errno env) ''ENOSYS'' \<noteq> 0" using neg_errno_nonzero [OF E] by simp
    with False k1 k2 assms(2,6) i slot(1) show ?thesis
      by (simp add: start_body_def Let_def set_obj_def)
  qed
qed

lemma Thread_start_ok:
  assumes laws: "env_laws env named V TV" and tid: "th_tid (objs w o1) = None"
    and free: "mx V (tkern w) (th_mutex (objs w o1)) = None"
    and i: "unat (s_thread_instance_count w) < length (thread_data env)"
    and slot: "t = thread_data env ! unat (s_thread_instance_count w)" "\<forall>b n. TV (tkern w) t \<noteq> Running b n"
    and name: "named \<or> \<not> config_assert env"
  shows "\<exists>w'. Thread_start env me o1 f w =
      Inr (if named then ZephyrResult else r_assign_error (ret_code (neg_errno (env_errno env) ''ENOSYS'')) ZephyrResult, w') \<and>
    objs w' = (objs w)(o1 := (objs w o1)\<lparr>th_task := Some f, th_tid := Some t\<rparr>) \<and>
    s_thread_instance_count w' = (if named then s_thread_instance_count w + 1 else s_thread_instance_count w) \<and>
    TV (tkern w') = (TV (tkern w))(t := (if named then Running o1 (unat (s_thread_instance_count w))
      else Created o1 (unat (s_thread_instance_count w)))) \<and>
    mx V (tkern w') = mx V (tkern w) \<and> sm V (tkern w') = sm V (tkern w) \<and> ev V (tkern w') = ev V (tkern w)"
proof -
  let ?p = "th_mutex (objs w o1)" and ?i = "unat (s_thread_instance_count w)"
  let ?res = "if named then ZephyrResult else r_assign_error (ret_code (neg_errno (env_errno env) ''ENOSYS'')) ZephyrResult"
  let ?rest = "((objs w)(o1 := (objs w o1)\<lparr>th_task := Some f, th_tid := Some t\<rparr>),
    if named then s_thread_instance_count w + 1 else s_thread_instance_count w,
    sm V (tkern w), ev V (tkern w), (mx V (tkern w))(?p := None),
    (TV (tkern w))(t := (if named then Running o1 ?i else Created o1 ?i)))"
  have "\<exists>x w2. start_body env o1 f w1 = Inr (x, w2) \<and> mx V (tkern w2) ?p = Some (me, 1) \<and>
      (x = ?res \<and> world_rest V TV ?p w2 = ?rest)"
    if "mx V (tkern w1) ?p = Some (me, 1)" "world_rest V TV ?p w1 = world_rest V TV ?p w" for w1
  proof -
    note D = world_restD [OF that(2) [unfolded world_rest_def [of _ _ _ w]]]
    from start_body_ok [OF laws, of w1 o1 t f] tid i slot name D that(1) show ?thesis
      unfolding world_rest_def by fastforce
  qed
  from obj_scoped [OF laws free, where Q = "\<lambda>x r. x = ?res \<and> r = ?rest"
      and body = "start_body env o1 f" and me = me, OF this]
  obtain w3 where w3: "Thread_start env me o1 f w = Inr (?res, w3)" "mx V (tkern w3) ?p = None"
    "world_rest V TV ?p w3 = ?rest"
    unfolding Thread_start_def by blast
  note D = world_restD [OF w3(3)]
  have "mx V (tkern w3) = mx V (tkern w)"
    using D(5) free w3(2) fun_upd_None_same [of "mx V (tkern w)" ?p] fun_upd_None_same [of "mx V (tkern w3)" ?p]
    by simp
  with w3(1) D show ?thesis by blast
qed

lemma Thread_start_again:
  assumes laws: "env_laws env named V TV" and tid: "th_tid (objs w o1) = Some t"
    and free: "mx V (tkern w) (th_mutex (objs w o1)) = None"
  shows "\<exists>w'. Thread_start env me o1 f w = Inr (r_assign_error (Already (env_errno env)) ZephyrResult, w') \<and>
    objs w' = objs w \<and> s_thread_instance_count w' = s_thread_instance_count w \<and> TV (tkern w') = TV (tkern w) \<and>
    mx V (tkern w') = mx V (tkern w)"
proof -
  let ?p = "th_mutex (objs w o1)" and ?res = "r_assign_error (Already (env_errno env)) ZephyrResult"
  have "\<exists>x w2. start_body env o1 f w1 = Inr (x, w2) \<and> mx V (tkern w2) ?p = Some (me, 1) \<and>
      (x = ?res \<and> world_rest V TV ?p w2 = world_rest V TV ?p w)"
    if "mx V (tkern w1) ?p = Some (me, 1)" "world_rest V TV ?p w1 = world_rest V TV ?p w" for w1
    using world_restD(1) [OF that(2) [unfolded world_rest_def [of _ _ _ w]]] that tid
    by (simp add: start_body_def)
  from obj_scoped [OF laws free, where Q = "\<lambda>x r. x = ?res \<and> r = world_rest V TV ?p w"
      and body = "start_body env o1 f" and me = me, OF this]
  obtain w3 where w3: "Thread_start env me o1 f w = Inr (?res, w3)" "mx V (tkern w3) ?p = None"
    "world_rest V TV ?p w3 = world_rest V TV ?p w"
    unfolding Thread_start_def by blast
  note D = world_restD [OF w3(3) [unfolded world_rest_def [of _ _ _ w]]]
  have "mx V (tkern w3) = mx V (tkern w)"
    using D(5) free w3(2) fun_upd_None_same [of "mx V (tkern w)" ?p] fun_upd_None_same [of "mx V (tkern w3)" ?p]
    by simp
  with w3(1) D show ?thesis by blast
qed

lemma obj_lock_free:
  assumes "env_laws env named V TV" and free: "mx V (tkern w) p = None"
  shows "\<exists>w1. obj_lock env me p w = Inr (ZephyrResult, w1) \<and> mx V (tkern w1) p = Some (me, 1) \<and>
    world_rest V TV p w1 = world_rest V TV p w"
  using obj_mutex.lock_free [of env named V TV w p me] assms by auto

lemma obj_unlock_held:
  assumes "env_laws env named V TV" and held: "mx V (tkern w) p = Some (me, 1)"
  shows "\<exists>w1. obj_unlock env me p w = Inr (ZephyrResult, w1) \<and> mx V (tkern w1) p = None \<and>
    world_rest V TV p w1 = world_rest V TV p w"
  using obj_mutex.unlock_held [of env named V TV w p me] assms by auto

lemma Thread_join_dead:
  assumes laws: "env_laws env named V TV" and tid: "th_tid (objs w o1) = Some t"
    and dead: "TV (tkern w) t = Dead" and free: "mx V (tkern w) (th_mutex (objs w o1)) = None"
  shows "\<exists>w'. Thread_join env me o1 w = Inr (ZephyrResult, w') \<and>
    objs w' = (objs w)(o1 := (objs w o1)\<lparr>th_tid := None\<rparr>) \<and>
    s_thread_instance_count w' = s_thread_instance_count w \<and> TV (tkern w') = TV (tkern w) \<and>
    mx V (tkern w') = mx V (tkern w) \<and> sm V (tkern w') = sm V (tkern w)"
proof -
  let ?p = "th_mutex (objs w o1)"
  have TL: "thread_laws (env_errno env) (env_clock env) (env_thread env) named V TV"
    using laws by (simp add: env_laws_def)
  obtain w1 where w1: "obj_lock env me ?p w = Inr (ZephyrResult, w1)" "mx V (tkern w1) ?p = Some (me, 1)"
    "world_rest V TV ?p w1 = world_rest V TV ?p w" using obj_lock_free [OF laws free] by blast
  obtain w2 where w2: "obj_unlock env me ?p w1 = Inr (ZephyrResult, w2)" "mx V (tkern w2) ?p = None"
    "world_rest V TV ?p w2 = world_rest V TV ?p w1" using obj_unlock_held [OF laws w1(2)] by blast
  obtain w3 where w3: "obj_lock env me ?p w2 = Inr (ZephyrResult, w3)" "mx V (tkern w3) ?p = Some (me, 1)"
    "world_rest V TV ?p w3 = world_rest V TV ?p w2" using obj_lock_free [OF laws w2(2)] by blast
  let ?w3 = "set_obj o1 ((objs w3 o1)\<lparr>th_tid := None\<rparr>) w3"
  have "mx V (tkern ?w3) ?p = Some (me, 1)" using w3(2) by (simp add: set_obj_def)
  then obtain w4 where w4: "obj_unlock env me ?p ?w3 = Inr (ZephyrResult, w4)" "mx V (tkern w4) ?p = None"
    "world_rest V TV ?p w4 = world_rest V TV ?p ?w3" using obj_unlock_held [OF laws] by blast
  have D: "objs w1 = objs w" "objs w2 = objs w" "objs w3 = objs w" "TV (tkern w2) = TV (tkern w)"
    using w1(3) w2(3) w3(3) by (simp_all add: world_rest_def)
  have "k_thread_join (env_thread env) t (K_FOREVER (env_clock env)) (tkern w2) = Some (0, tkern w2)"
    using thread_join_law(1) [OF TL] dead D(4) by simp
  then have "Thread_join env me o1 w = Inr (ZephyrResult, w4)"
    using w1(1) w2(1) w3(1) w4(1) tid D by (simp add: Thread_join_def Let_def)
  moreover have "objs w4 = (objs w)(o1 := (objs w o1)\<lparr>th_tid := None\<rparr>)"
    "s_thread_instance_count w4 = s_thread_instance_count w" "TV (tkern w4) = TV (tkern w)"
    "sm V (tkern w4) = sm V (tkern w)" "(mx V (tkern w4))(?p := None) = (mx V (tkern w))(?p := None)"
    using w1(3) w2(3) w3(3) w4(3) by (simp_all add: world_rest_def set_obj_def)
  moreover from this(5) have "mx V (tkern w4) = mx V (tkern w)"
    using free w4(2) fun_upd_None_same [of "mx V (tkern w)" ?p] fun_upd_None_same [of "mx V (tkern w4)" ?p] by simp
  ultimately show ?thesis by blast
qed

lemma Thread_join_none:
  assumes laws: "env_laws env named V TV" and tid: "th_tid (objs w o1) = None"
    and free: "mx V (tkern w) (th_mutex (objs w o1)) = None"
  shows "\<exists>w'. Thread_join env me o1 w = Inr (ZephyrResult, w') \<and> objs w' = objs w \<and>
    s_thread_instance_count w' = s_thread_instance_count w \<and> TV (tkern w') = TV (tkern w) \<and>
    mx V (tkern w') = mx V (tkern w)"
proof -
  let ?p = "th_mutex (objs w o1)"
  obtain w1 where w1: "obj_lock env me ?p w = Inr (ZephyrResult, w1)" "mx V (tkern w1) ?p = Some (me, 1)"
    "world_rest V TV ?p w1 = world_rest V TV ?p w" using obj_lock_free [OF laws free] by blast
  obtain w2 where w2: "obj_unlock env me ?p w1 = Inr (ZephyrResult, w2)" "mx V (tkern w2) ?p = None"
    "world_rest V TV ?p w2 = world_rest V TV ?p w1" using obj_unlock_held [OF laws w1(2)] by blast
  have D: "objs w1 = objs w" "objs w2 = objs w" "s_thread_instance_count w2 = s_thread_instance_count w"
    "TV (tkern w2) = TV (tkern w)" "(mx V (tkern w2))(?p := None) = (mx V (tkern w))(?p := None)"
    using w1(3) w2(3) by (simp_all add: world_rest_def)
  then have "mx V (tkern w2) = mx V (tkern w)"
    using free w2(2) fun_upd_None_same [of "mx V (tkern w)" ?p] fun_upd_None_same [of "mx V (tkern w2)" ?p] by simp
  moreover have "Thread_join env me o1 w = Inr (ZephyrResult, w2)"
    using w1(1) w2(1) tid D by (simp add: Thread_join_def Let_def)
  ultimately show ?thesis using D by blast
qed

lemma Thread_join_waits:
  assumes laws: "env_laws env named V TV" and tid: "th_tid (objs w o1) = Some t"
    and alive: "TV (tkern w) t = Running b s \<or> TV (tkern w) t = Created b s"
    and free: "mx V (tkern w) (th_mutex (objs w o1)) = None"
  shows "Thread_join env me o1 w = Inl Stuck"
proof -
  let ?p = "th_mutex (objs w o1)"
  have TL: "thread_laws (env_errno env) (env_clock env) (env_thread env) named V TV"
    using laws by (simp add: env_laws_def)
  obtain w1 where w1: "obj_lock env me ?p w = Inr (ZephyrResult, w1)" "mx V (tkern w1) ?p = Some (me, 1)"
    "world_rest V TV ?p w1 = world_rest V TV ?p w" using obj_lock_free [OF laws free] by blast
  obtain w2 where w2: "obj_unlock env me ?p w1 = Inr (ZephyrResult, w2)" "mx V (tkern w2) ?p = None"
    "world_rest V TV ?p w2 = world_rest V TV ?p w1" using obj_unlock_held [OF laws w1(2)] by blast
  have D: "objs w1 = objs w" "TV (tkern w2) = TV (tkern w)"
    using w1(3) w2(3) by (simp_all add: world_rest_def)
  have "k_thread_join (env_thread env) t (K_FOREVER (env_clock env)) (tkern w2) = None"
    using thread_join_law(2,3) [OF TL] alive D(2) by metis
  then show ?thesis using w1(1) w2(1) tid D by (simp add: Thread_join_def Let_def)
qed

section \<open>The life of a thread\<close>

text \<open>The kernel runs the entry function of the thread of \<open>o1\<close> and the thread ends.\<close>

definition thread_runs ::
  "'k thread_env \<Rightarrow> ('f \<Rightarrow> ('k, 'f) thread_world \<Rightarrow> ('k, 'f) thread_world run) \<Rightarrow> addr
    \<Rightarrow> ('k, 'f) thread_world \<Rightarrow> ('k, 'f) thread_world run" where
  "thread_runs env invoke o1 w =
     (case th_tid (objs w o1) of
        None \<Rightarrow> Inl Undef
      | Some t \<Rightarrow> bindR (s_thunk env invoke t o1 w) (\<lambda>w'. Inr (w'\<lparr>tkern := k_thread_exit (env_thread env) t (tkern w')\<rparr>)))"

text \<open>A task that returns, holds no mutex at its end, and does not start or end threads itself.\<close>

definition quiet_tasks ::
  "('f \<Rightarrow> ('k, 'f) thread_world \<Rightarrow> ('k, 'f) thread_world run) \<Rightarrow> 'k view \<Rightarrow> 'k thread_view \<Rightarrow> bool" where
  "quiet_tasks invoke V TV \<longleftrightarrow> (\<forall>f w. \<exists>w'. invoke f w = Inr w' \<and> objs w' = objs w \<and>
     s_thread_instance_count w' = s_thread_instance_count w \<and> mx V (tkern w') = mx V (tkern w) \<and>
     TV (tkern w') = TV (tkern w))"

text \<open>How \<open>s_thunk\<close> ends: the counter goes down under the free lock of the object.\<close>

lemma scoped_count_down:
  assumes laws: "env_laws env named V TV" and free: "mx V (tkern w) p = None"
  shows "\<exists>w'. scoped_lock (obj_lock env me p) (obj_unlock env me p)
      (\<lambda>w. Inr ((), w\<lparr>s_thread_instance_count := s_thread_instance_count w - 1\<rparr>)) w = Inr ((), w') \<and>
    objs w' = objs w \<and> s_thread_instance_count w' = s_thread_instance_count w - 1 \<and> TV (tkern w') = TV (tkern w) \<and>
    mx V (tkern w') = mx V (tkern w) \<and> sm V (tkern w') = sm V (tkern w) \<and> ev V (tkern w') = ev V (tkern w)"
proof -
  let ?dec = "\<lambda>w. Inr ((), w\<lparr>s_thread_instance_count := s_thread_instance_count w - 1\<rparr>)"
  let ?rest = "(objs w, s_thread_instance_count w - 1, sm V (tkern w), ev V (tkern w), (mx V (tkern w))(p := None), TV (tkern w))"
  have "\<exists>x w5. ?dec w4 = Inr (x, w5) \<and> mx V (tkern w5) p = Some (me, 1) \<and> world_rest V TV p w5 = ?rest"
    if "mx V (tkern w4) p = Some (me, 1)" "world_rest V TV p w4 = world_rest V TV p w" for w4
    using that by (simp add: world_rest_def)
  with obj_scoped [OF laws free, where body = ?dec and me = me and Q = "\<lambda>x r. r = ?rest"]
  obtain w3 where w3: "scoped_lock (obj_lock env me p) (obj_unlock env me p) ?dec w = Inr ((), w3)"
    "mx V (tkern w3) p = None" "world_rest V TV p w3 = ?rest"
    by auto
  note D = world_restD [OF w3(3)]
  have "mx V (tkern w3) = mx V (tkern w)"
    using D(5) free w3(2) fun_upd_None_same [of "mx V (tkern w)" p] fun_upd_None_same [of "mx V (tkern w3)" p] by simp
  with w3(1) D show ?thesis by blast
qed

text \<open>The world in which the task of \<open>o1\<close> is called, and what the thread makes of a fault or a return of it.\<close>

definition task_world :: "'k thread_env \<Rightarrow> addr \<Rightarrow> ('k, 'f) thread_world \<Rightarrow> ('k, 'f) thread_world" where
  "task_world env o1 w =
     w\<lparr>tkern := Event_set (qemu_userspace env) (env_event env) kStartedEvent (th_event (objs w o1)) (tkern w)\<rparr>"

lemma task_world_view:
  assumes "env_laws env named V TV"
  shows "objs (task_world env o1 w) = objs w" and "s_thread_instance_count (task_world env o1 w) = s_thread_instance_count w"
    and "mx V (tkern (task_world env o1 w)) = mx V (tkern w)" and "sm V (tkern (task_world env o1 w)) = sm V (tkern w)"
    and "TV (tkern (task_world env o1 w)) = TV (tkern w)"
  using assms event_set_view(2,3) [of "env_clock env" "env_event env" V]
  by (simp_all add: task_world_def env_laws_def Event_set_def thread_frame_def)

lemma thread_runs_fault:
  assumes "th_tid (objs w o1) = Some t" and "th_task (objs w o1) = Some f" and "invoke f (task_world env o1 w) = Inl e"
  shows "thread_runs env invoke o1 w = Inl e"
  using assms by (simp add: thread_runs_def s_thunk_def task_world_def Let_def)

lemma thread_runs_returns:
  assumes laws: "env_laws env named V TV"
    and tid: "th_tid (objs w o1) = Some t" and task: "th_task (objs w o1) = Some f"
    and alive: "TV (tkern w) t = Running b s" and free: "mx V (tkern w) (th_mutex (objs w o1)) = None"
    and w2: "invoke f (task_world env o1 w) = Inr w2" "objs w2 = objs w" "s_thread_instance_count w2 = s_thread_instance_count w"
      "mx V (tkern w2) = mx V (tkern w)" "TV (tkern w2) = TV (tkern w)"
  shows "\<exists>w'. thread_runs env invoke o1 w = Inr w' \<and> objs w' = objs w \<and>
    s_thread_instance_count w' = s_thread_instance_count w - 1 \<and> TV (tkern w') = (TV (tkern w))(t := Dead) \<and>
    mx V (tkern w') = mx V (tkern w) \<and> sm V (tkern w') = sm V (tkern w2)"
proof -
  let ?p = "th_mutex (objs w o1)"
  have TL: "thread_laws (env_errno env) (env_clock env) (env_thread env) named V TV" using laws by (simp add: env_laws_def)
  have "mx V (tkern w2) ?p = None" using free w2(4) by simp
  from scoped_count_down [OF laws this, of t] obtain w3 where w3:
    "scoped_lock (obj_lock env t ?p) (obj_unlock env t ?p)
      (\<lambda>w. Inr ((), w\<lparr>s_thread_instance_count := s_thread_instance_count w - 1\<rparr>)) w2 = Inr ((), w3)"
    "objs w3 = objs w2" "s_thread_instance_count w3 = s_thread_instance_count w2 - 1" "TV (tkern w3) = TV (tkern w2)"
    "mx V (tkern w3) = mx V (tkern w2)" "sm V (tkern w3) = sm V (tkern w2)" by blast
  have "s_thunk env invoke t o1 w = Inr w3"
    using w2(1) w3(1) task by (simp add: s_thunk_def Let_def task_world_def)
  moreover have "TV (k_thread_exit (env_thread env) t (tkern w3)) = (TV (tkern w))(t := Dead)"
    using thread_exit_law(1) [OF TL, of "tkern w3" t b s] w2(5) w3(4) alive by simp
  ultimately show ?thesis
    using tid w2 w3 thread_exit_law(2,3) [OF TL] by (simp add: thread_runs_def)
qed

lemma thread_runs_task:
  assumes laws: "env_laws env named V TV"
    and "th_tid (objs w o1) = Some t" and "th_task (objs w o1) = Some f"
    and "TV (tkern w) t = Running b s" and "mx V (tkern w) (th_mutex (objs w o1)) = None"
    and body: "\<And>w1. objs w1 = objs w \<Longrightarrow> s_thread_instance_count w1 = s_thread_instance_count w \<Longrightarrow>
      mx V (tkern w1) = mx V (tkern w) \<Longrightarrow> sm V (tkern w1) = sm V (tkern w) \<Longrightarrow> TV (tkern w1) = TV (tkern w) \<Longrightarrow>
      \<exists>w2. invoke f w1 = Inr w2 \<and> objs w2 = objs w \<and> s_thread_instance_count w2 = s_thread_instance_count w \<and>
        mx V (tkern w2) = mx V (tkern w) \<and> TV (tkern w2) = TV (tkern w) \<and> P (sm V (tkern w2))"
  shows "\<exists>w'. thread_runs env invoke o1 w = Inr w' \<and> objs w' = objs w \<and>
    s_thread_instance_count w' = s_thread_instance_count w - 1 \<and> TV (tkern w') = (TV (tkern w))(t := Dead) \<and>
    mx V (tkern w') = mx V (tkern w) \<and> P (sm V (tkern w'))"
proof -
  obtain w2 where w2: "invoke f (task_world env o1 w) = Inr w2" "objs w2 = objs w"
    "s_thread_instance_count w2 = s_thread_instance_count w" "mx V (tkern w2) = mx V (tkern w)" "TV (tkern w2) = TV (tkern w)"
    "P (sm V (tkern w2))" using body [OF task_world_view [OF laws]] by blast
  with thread_runs_returns [OF assms(1-3), of b s invoke w2] assms(4,5) show ?thesis by auto
qed

lemma thread_runs_ok:
  assumes laws: "env_laws env named V TV" and quiet: "quiet_tasks invoke V TV"
    and "th_tid (objs w o1) = Some t" and "th_task (objs w o1) = Some f"
    and "TV (tkern w) t = Running b s" and "mx V (tkern w) (th_mutex (objs w o1)) = None"
  shows "\<exists>w'. thread_runs env invoke o1 w = Inr w' \<and> objs w' = objs w \<and>
    s_thread_instance_count w' = s_thread_instance_count w - 1 \<and> TV (tkern w') = (TV (tkern w))(t := Dead) \<and>
    mx V (tkern w') = mx V (tkern w)"
proof -
  have "\<exists>w2. invoke f w1 = Inr w2 \<and> objs w2 = objs w \<and> s_thread_instance_count w2 = s_thread_instance_count w \<and>
      mx V (tkern w2) = mx V (tkern w) \<and> TV (tkern w2) = TV (tkern w) \<and> True"
    if "objs w1 = objs w" "s_thread_instance_count w1 = s_thread_instance_count w"
      "mx V (tkern w1) = mx V (tkern w)" "TV (tkern w1) = TV (tkern w)" for w1
    using quiet [unfolded quiet_tasks_def, rule_format, of f w1] that by simp
  then show ?thesis using thread_runs_task [OF laws assms(3-6), where P = "\<lambda>_. True" and invoke = invoke] by blast
qed

datatype 'f thread_event = Start tid addr 'f | Finish addr | Join tid addr

fun thread_step ::
  "'k thread_env \<Rightarrow> ('f \<Rightarrow> ('k, 'f) thread_world \<Rightarrow> ('k, 'f) thread_world run) \<Rightarrow> 'f thread_event
    \<Rightarrow> ('k, 'f) thread_world \<Rightarrow> (zephyr_result \<times> ('k, 'f) thread_world) run" where
  "thread_step env invoke (Start me o1 f) w = Thread_start env me o1 f w"
| "thread_step env invoke (Finish o1) w = bindR (thread_runs env invoke o1 w) (\<lambda>w'. Inr (ZephyrResult, w'))"
| "thread_step env invoke (Join me o1) w = Thread_join env me o1 w"

text \<open>Events in a row; the first error result ends the sequence.\<close>

fun thread_steps ::
  "'k thread_env \<Rightarrow> ('f \<Rightarrow> ('k, 'f) thread_world \<Rightarrow> ('k, 'f) thread_world run) \<Rightarrow> 'f thread_event list
    \<Rightarrow> ('k, 'f) thread_world \<Rightarrow> (zephyr_result \<times> ('k, 'f) thread_world) run" where
  "thread_steps env invoke [] w = Inr (ZephyrResult, w)"
| "thread_steps env invoke (e # es) w =
     bindR (thread_step env invoke e w) (\<lambda>(res, w').
       if r_bool res then thread_steps env invoke es w' else Inr (res, w'))"

lemma thread_steps_append:
  "thread_steps env invoke es w = Inr (ZephyrResult, w') \<Longrightarrow>
    thread_steps env invoke (es @ es') w = thread_steps env invoke es' w'"
proof (induction es arbitrary: w)
  case (Cons e es)
  then obtain res w1 where e: "thread_step env invoke e w = Inr (res, w1)" by (auto simp: bindR_eq_Inr)
  have "r_bool res" using Cons.prems e by (auto split: if_splits)
  with Cons e show ?case by simp
qed simp

text \<open>
  The discipline under which the instance counter can serve as a slot number: threads end in the
  reverse order of their start, and a thread that has ended is joined before another one is
  started. \<open>st\<close> holds the objects whose thread runs, the last started first; \<open>dn\<close> those that
  wait to be joined.
\<close>

fun nested :: "nat \<Rightarrow> addr list \<Rightarrow> addr set \<Rightarrow> 'f thread_event list \<Rightarrow> (addr list \<times> addr set) option" where
  "nested P st dn [] = Some (st, dn)"
| "nested P st dn (Start me o1 f # es) =
     (if o1 \<notin> set st \<and> dn = {} \<and> length st < P then nested P (o1 # st) dn es else None)"
| "nested P st dn (Finish o1 # es) =
     (case st of [] \<Rightarrow> None | x # st' \<Rightarrow> if x = o1 then nested P st' (insert o1 dn) es else None)"
| "nested P st dn (Join me o1 # es) = (if o1 \<notin> set st then nested P st (dn - {o1}) es else None)"

fun stacked :: "tid list \<Rightarrow> 'k thread_view \<Rightarrow> addr list \<Rightarrow> ('k, 'f) thread_world \<Rightarrow> bool" where
  "stacked td TV [] w = True"
| "stacked td TV (o1 # st) w \<longleftrightarrow> o1 \<notin> set st \<and> th_tid (objs w o1) = Some (td ! length st) \<and>
     th_task (objs w o1) \<noteq> None \<and> TV (tkern w) (td ! length st) = Running o1 (length st) \<and> stacked td TV st w"

lemma stacked_frame:
  "stacked td TV st w \<Longrightarrow> \<forall>o1\<in>set st. objs w' o1 = objs w o1 \<Longrightarrow>
    \<forall>i<length st. TV (tkern w') (td ! i) = TV (tkern w) (td ! i) \<Longrightarrow> stacked td TV st w'"
  by (induction st) simp_all

lemma stacked_tid:
  "stacked td TV st w \<Longrightarrow> o1 \<in> set st \<Longrightarrow>
    \<exists>i<length st. th_tid (objs w o1) = Some (td ! i) \<and> TV (tkern w) (td ! i) = Running o1 i"
  by (induction st) (auto intro: less_SucI)

lemma stacked_distinct: "stacked td TV st w \<Longrightarrow> distinct st"
  by (induction st) simp_all

definition pool_matches ::
  "'k thread_env \<Rightarrow> 'k view \<Rightarrow> 'k thread_view \<Rightarrow> addr list \<Rightarrow> addr set \<Rightarrow> ('k, 'f) thread_world \<Rightarrow> bool" where
  "pool_matches env V TV st dn w \<longleftrightarrow>
     unat (s_thread_instance_count w) = length st \<and> length st \<le> length (thread_data env) \<and>
     stacked (thread_data env) TV st w \<and>
     (\<forall>i. length st \<le> i \<and> i < length (thread_data env) \<longrightarrow> (\<forall>b n. TV (tkern w) (thread_data env ! i) \<noteq> Running b n)) \<and>
     (\<forall>o1\<in>dn. o1 \<notin> set st \<and> (\<exists>i. length st \<le> i \<and> i < length (thread_data env) \<and>
        th_tid (objs w o1) = Some (thread_data env ! i) \<and> TV (tkern w) (thread_data env ! i) = Dead)) \<and>
     (\<forall>o1. o1 \<notin> set st \<union> dn \<longrightarrow> th_tid (objs w o1) = None) \<and>
     (\<forall>o1. mx V (tkern w) (th_mutex (objs w o1)) = None)"

lemma unat_u8_dec: "unat (c :: u8) = Suc n \<Longrightarrow> unat (c - 1) = n"
  by (metis diff_Suc_1 nat.distinct(1) unat_0 unat_minus_one)

lemma pool_facts:
  assumes "pool_matches env V TV st dn w"
  shows "unat (s_thread_instance_count w) = length st" and "length st \<le> length (thread_data env)"
    and "stacked (thread_data env) TV st w"
    and "\<forall>i. length st \<le> i \<and> i < length (thread_data env) \<longrightarrow> (\<forall>b n. TV (tkern w) (thread_data env ! i) \<noteq> Running b n)"
    and "\<forall>o1\<in>dn. o1 \<notin> set st \<and> (\<exists>i. length st \<le> i \<and> i < length (thread_data env) \<and>
        th_tid (objs w o1) = Some (thread_data env ! i) \<and> TV (tkern w) (thread_data env ! i) = Dead)"
    and "\<forall>o1. o1 \<notin> set st \<union> dn \<longrightarrow> th_tid (objs w o1) = None"
    and "\<forall>o1. mx V (tkern w) (th_mutex (objs w o1)) = None"
  using assms unfolding pool_matches_def by blast+

lemma pool_Start:
  assumes laws: "env_laws env True V TV" and td: "distinct (thread_data env)" "length (thread_data env) < 256"
    and pool: "pool_matches env V TV st {} w" and o1: "o1 \<notin> set st" and room: "length st < length (thread_data env)"
  shows "\<exists>w'. Thread_start env me o1 f w = Inr (ZephyrResult, w') \<and> pool_matches env V TV (o1 # st) {} w'"
proof -
  let ?td = "thread_data env" and ?n = "length st" and ?c = "s_thread_instance_count w"
  note P = pool_facts [OF pool]
  have c: "unat ?c = ?n" by (rule P(1))
  have tid: "th_tid (objs w o1) = None" and free: "mx V (tkern w) (th_mutex (objs w o1)) = None"
    and slot: "\<forall>b n. TV (tkern w) (?td ! ?n) \<noteq> Running b n" using P(4,6,7) o1 room by auto
  obtain w' where w': "Thread_start env me o1 f w = Inr (ZephyrResult, w')"
    "objs w' = (objs w)(o1 := (objs w o1)\<lparr>th_task := Some f, th_tid := Some (?td ! ?n)\<rparr>)"
    "s_thread_instance_count w' = ?c + 1" "TV (tkern w') = (TV (tkern w))(?td ! ?n := Running o1 ?n)"
    "mx V (tkern w') = mx V (tkern w)"
    using Thread_start_ok [OF laws tid free, of "?td ! ?n" me f] c room slot by auto
  have other: "?td ! i = ?td ! ?n \<longleftrightarrow> i = ?n" if "i < length ?td" for i
    using td(1) that room by (simp add: nth_eq_iff_index_eq)
  have "stacked ?td TV st w'"
    by (rule stacked_frame [OF P(3)]) (use o1 other room in \<open>auto simp: w'(2,4)\<close>)
  moreover have "unat (s_thread_instance_count w') = Suc ?n"
    using unat_u8_inc [of ?c] c room td(2) w'(3) by simp
  moreover have "\<forall>i. Suc ?n \<le> i \<and> i < length ?td \<longrightarrow> (\<forall>b n. TV (tkern w') (?td ! i) \<noteq> Running b n)"
    using P(4) other by (auto simp: w'(4))
  moreover have "\<forall>u. u \<notin> set (o1 # st) \<union> {} \<longrightarrow> th_tid (objs w' u) = None" using P(6) by (simp add: w'(2))
  moreover have "\<forall>u. mx V (tkern w') (th_mutex (objs w' u)) = None" using P(7) by (simp add: w'(2,5))
  ultimately have "pool_matches env V TV (o1 # st) {} w'"
    unfolding pool_matches_def using o1 room by (simp add: w'(2,4))
  with w'(1) show ?thesis by blast
qed

lemma pool_Finish:
  assumes laws: "env_laws env True V TV" and quiet: "quiet_tasks invoke V TV"
    and td: "distinct (thread_data env)" and pool: "pool_matches env V TV (o1 # st) dn w"
  shows "\<exists>w'. thread_runs env invoke o1 w = Inr w' \<and> pool_matches env V TV st (insert o1 dn) w'"
proof -
  let ?td = "thread_data env" and ?n = "length st" and ?c = "s_thread_instance_count w"
  note P = pool_facts [OF pool]
  have top: "th_tid (objs w o1) = Some (?td ! ?n)" "TV (tkern w) (?td ! ?n) = Running o1 ?n"
    "mx V (tkern w) (th_mutex (objs w o1)) = None" "?n < length ?td" "unat ?c = Suc ?n" "o1 \<notin> set st" "stacked ?td TV st w"
    using P(1-3,7) by auto
  obtain f where f: "th_task (objs w o1) = Some f" using P(3) by auto
  obtain w' where w': "thread_runs env invoke o1 w = Inr w'" "objs w' = objs w"
    "s_thread_instance_count w' = ?c - 1" "TV (tkern w') = (TV (tkern w))(?td ! ?n := Dead)"
    "mx V (tkern w') = mx V (tkern w)"
    using thread_runs_ok [OF laws quiet top(1) f top(2,3)] by blast
  have other: "?td ! i = ?td ! ?n \<longleftrightarrow> i = ?n" if "i < length ?td" for i
    using td(1) that top(4) by (simp add: nth_eq_iff_index_eq)
  have "stacked ?td TV st w'"
    by (rule stacked_frame [OF top(7)]) (use top other in \<open>auto simp: w'(2,4)\<close>)
  moreover have "unat (s_thread_instance_count w') = ?n" using top(5) w'(3) by (simp add: unat_u8_dec)
  moreover have "\<forall>b n. TV (tkern w') (?td ! i) \<noteq> Running b n" if "?n \<le> i" "i < length ?td" for i
    using P(4) that by (cases "i = ?n") (auto simp: w'(4))
  moreover have "\<exists>i\<ge>?n. i < length ?td \<and> th_tid (objs w' u) = Some (?td ! i) \<and> TV (tkern w') (?td ! i) = Dead"
    if "u \<in> insert o1 dn" for u
  proof (cases "u = o1")
    case True
    then show ?thesis using top by (intro exI [of _ ?n]) (simp add: w'(2,4))
  next
    case False
    with that P(5) obtain i where "Suc ?n \<le> i" "i < length ?td" "th_tid (objs w u) = Some (?td ! i)"
      "TV (tkern w) (?td ! i) = Dead" by fastforce
    then show ?thesis by (intro exI [of _ i]) (simp add: w'(2,4))
  qed
  moreover have "\<forall>u. u \<notin> set st \<union> insert o1 dn \<longrightarrow> th_tid (objs w' u) = None" using P(6) by (simp add: w'(2))
  moreover have "\<forall>u. mx V (tkern w') (th_mutex (objs w' u)) = None" using P(7) by (simp add: w'(2,5))
  moreover have "\<forall>u\<in>insert o1 dn. u \<notin> set st" using P(5) top(6) by auto
  moreover have "?n \<le> length ?td" using top(4) by simp
  ultimately have "pool_matches env V TV st (insert o1 dn) w'"
    unfolding pool_matches_def by blast
  with w'(1) show ?thesis by blast
qed

lemma pool_Join:
  assumes laws: "env_laws env True V TV" and pool: "pool_matches env V TV st dn w" and o1: "o1 \<notin> set st"
  shows "\<exists>w'. Thread_join env me o1 w = Inr (ZephyrResult, w') \<and> pool_matches env V TV st (dn - {o1}) w'"
proof -
  let ?td = "thread_data env"
  note P = pool_facts [OF pool]
  have free: "mx V (tkern w) (th_mutex (objs w o1)) = None" using P(7) by blast
  have "\<exists>w'. Thread_join env me o1 w = Inr (ZephyrResult, w') \<and>
    objs w' = (objs w)(o1 := (objs w o1)\<lparr>th_tid := None\<rparr>) \<and>
    s_thread_instance_count w' = s_thread_instance_count w \<and> TV (tkern w') = TV (tkern w) \<and>
    mx V (tkern w') = mx V (tkern w)"
  proof (cases "o1 \<in> dn")
    case True
    with P(5) obtain i where "th_tid (objs w o1) = Some (?td ! i)" "TV (tkern w) (?td ! i) = Dead" by blast
    from Thread_join_dead [OF laws this free] show ?thesis by blast
  next
    case False
    with P(6) o1 have none: "th_tid (objs w o1) = None" by blast
    then have "(objs w)(o1 := (objs w o1)\<lparr>th_tid := None\<rparr>) = objs w" by (auto simp: fun_eq_iff)
    with Thread_join_none [OF laws none free, of me] show ?thesis by simp
  qed
  then obtain w' where w': "Thread_join env me o1 w = Inr (ZephyrResult, w')"
    "objs w' = (objs w)(o1 := (objs w o1)\<lparr>th_tid := None\<rparr>)"
    "s_thread_instance_count w' = s_thread_instance_count w" "TV (tkern w') = TV (tkern w)"
    "mx V (tkern w') = mx V (tkern w)" by blast
  have "stacked ?td TV st w'"
    by (rule stacked_frame [OF P(3)]) (use o1 in \<open>auto simp: w'(2,4)\<close>)
  moreover have "\<forall>u\<in>dn - {o1}. u \<notin> set st \<and> (\<exists>i. length st \<le> i \<and> i < length ?td \<and>
      th_tid (objs w' u) = Some (?td ! i) \<and> TV (tkern w') (?td ! i) = Dead)"
    using P(5) by (simp add: w'(2,4))
  moreover have "\<forall>u. u \<notin> set st \<union> (dn - {o1}) \<longrightarrow> th_tid (objs w' u) = None"
    using P(6) by (simp add: w'(2))
  moreover have "\<forall>u. mx V (tkern w') (th_mutex (objs w' u)) = None" using P(7) by (simp add: w'(2,5))
  ultimately have "pool_matches env V TV st (dn - {o1}) w'"
    unfolding pool_matches_def w'(3,4) using P(1,2,4) by blast
  with w'(1) show ?thesis by blast
qed

lemma thread_steps_nested:
  assumes laws: "env_laws env True V TV" and quiet: "quiet_tasks invoke V TV"
    and td: "distinct (thread_data env)" "length (thread_data env) < 256"
  shows "pool_matches env V TV st dn w \<Longrightarrow> nested (length (thread_data env)) st dn es = Some (st', dn') \<Longrightarrow>
    \<exists>w'. thread_steps env invoke es w = Inr (ZephyrResult, w') \<and> pool_matches env V TV st' dn' w'"
proof (induction es arbitrary: st dn w)
  case (Cons e es)
  have step: "\<exists>w1. thread_step env invoke e w = Inr (ZephyrResult, w1) \<and> pool_matches env V TV st1 dn1 w1 \<Longrightarrow>
    nested (length (thread_data env)) st1 dn1 es = Some (st', dn') \<Longrightarrow> ?case" for st1 dn1
    using Cons.IH [of st1 dn1] by fastforce
  show ?case
  proof (cases e)
    case (Start me o1 f)
    with Cons.prems have "o1 \<notin> set st" "dn = {}" "length st < length (thread_data env)"
      "nested (length (thread_data env)) (o1 # st) dn es = Some (st', dn')" by (auto split: if_splits)
    with pool_Start [OF laws td, of st w o1 me f] Cons.prems(1) Start show ?thesis by (intro step) auto
  next
    case (Finish o1)
    with Cons.prems obtain st1 where "st = o1 # st1"
      "nested (length (thread_data env)) st1 (insert o1 dn) es = Some (st', dn')"
      by (auto split: list.splits if_splits)
    with pool_Finish [OF laws quiet td(1), of o1 st1 dn w] Cons.prems(1) Finish show ?thesis by (intro step) auto
  next
    case (Join me o1)
    with Cons.prems have "o1 \<notin> set st" "nested (length (thread_data env)) st (dn - {o1}) es = Some (st', dn')"
      by (auto split: if_splits)
    with pool_Join [OF laws Cons.prems(1), of o1 me] Join show ?thesis by (intro step) auto
  qed
qed simp

section \<open>Properties\<close>

text \<open>
  C8: As long as threads end in the reverse order of their start and are joined before the next
  start, every \<open>start\<close>, end and \<open>join\<close> succeeds, the instance counter is the number of running
  threads, and no two running threads share a \<open>struct k_thread\<close> (nor, with it, a stack); no more threads
  run at a time than the pool has slots, which are fewer than 256. The tasks
  are quiet: they return, hold no mutex when they end, and start, end and join no thread themselves.
  The sequences include a second start of an object that has ended and been joined: it succeeds, for
  join resets \<open>_tid\<close>, although the comment on start says that a thread can only be started once.
\<close>

theorem nested_threads_own_their_slots:
  assumes "env_laws env True V TV" and "quiet_tasks invoke V TV"
    and "distinct (thread_data env)" and "length (thread_data env) < 256"
    and "pool_matches env V TV [] {} w" and "nested (length (thread_data env)) [] {} es = Some (st, dn)"
  shows "\<exists>w'. thread_steps env invoke es w = Inr (ZephyrResult, w') \<and>
    unat (s_thread_instance_count w') = length st \<and> distinct st \<and>
    (\<forall>o1\<in>set st. \<exists>t s. th_tid (objs w' o1) = Some t \<and> TV (tkern w') t = Running o1 s) \<and>
    (\<forall>o1\<in>set st. \<forall>o2\<in>set st. th_tid (objs w' o1) = th_tid (objs w' o2) \<longrightarrow> o1 = o2)"
proof -
  obtain w' where w': "thread_steps env invoke es w = Inr (ZephyrResult, w')" "pool_matches env V TV st dn w'"
    using thread_steps_nested [OF assms] by blast
  note P = pool_facts [OF w'(2)]
  have "distinct st" using P(3) by (rule stacked_distinct)
  moreover have "\<exists>t s. th_tid (objs w' o1) = Some t \<and> TV (tkern w') t = Running o1 s" if "o1 \<in> set st" for o1
    using stacked_tid [OF P(3) that] by blast
  moreover have "o1 = o2" if "o1 \<in> set st" "o2 \<in> set st" "th_tid (objs w' o1) = th_tid (objs w' o2)" for o1 o2
  proof -
    note o = that
    obtain i where i: "th_tid (objs w' o1) = Some (thread_data env ! i)" "TV (tkern w') (thread_data env ! i) = Running o1 i"
      using stacked_tid [OF P(3) o(1)] by blast
    obtain j where j: "th_tid (objs w' o2) = Some (thread_data env ! j)" "TV (tkern w') (thread_data env ! j) = Running o2 j"
      using stacked_tid [OF P(3) o(2)] by blast
    have "thread_data env ! i = thread_data env ! j" using i(1) j(1) o(3) by simp
    then have "Running o1 i = Running o2 j" using i(2) j(2) by metis
    then show ?thesis by simp
  qed
  ultimately show ?thesis using w'(1) P(1) by blast
qed

definition demo_env :: "bool \<Rightarrow> bool \<Rightarrow> rk thread_env" where
  "demo_env a named = \<lparr>config_assert = a, qemu_userspace = False, env_errno = ref_errno, env_clock = ref_clock,
     env_mutex = ref_mutex, env_event = ref_event, env_thread = ref_thread named, thread_data = [100, 101, 102]\<rparr>"

lemma demo_env_laws [simp]: "env_laws (demo_env a named) named ref_view rk_th"
  by (simp add: env_laws_def demo_env_def)

lemma demo_env_data [simp]: "thread_data (demo_env a named) = [100, 101, 102]"
  by (simp add: demo_env_def)

definition demo_task :: "nat \<Rightarrow> (rk, nat) thread_world \<Rightarrow> (rk, nat) thread_world run" where
  "demo_task f w = Inr w"

lemma demo_task_quiet [simp]: "quiet_tasks demo_task ref_view rk_th"
  by (simp add: quiet_tasks_def demo_task_def)

definition demo_world :: "(rk, nat) thread_world" where
  "demo_world = \<lparr>tkern = rk0, objs = (\<lambda>o1. \<lparr>th_mutex = 2 * o1, th_event = 2 * o1 + 1, th_task = None,
     th_priority = 9, th_name = ''t'', th_tid = None\<rparr>), s_thread_instance_count = 0\<rparr>"

lemma demo_pool: "pool_matches (demo_env a named) ref_view rk_th [] {} demo_world"
  by (simp add: pool_matches_def demo_world_def rk0_def)

theorem nested_threads_own_their_slots_witness:
  "\<exists>w'. thread_steps (demo_env True True) demo_task [Start 1 10 5, Start 1 11 6, Finish 11, Join 1 11, Start 2 12 7] demo_world
      = Inr (ZephyrResult, w') \<and> th_tid (objs w' 10) \<noteq> th_tid (objs w' 12)"
  using nested_threads_own_their_slots [OF demo_env_laws demo_task_quiet _ _ demo_pool,
      of True "[Start 1 10 5, Start 1 11 6, Finish 11, Join 1 11, Start 2 12 7]"]
  by fastforce

text \<open>
  The instance counter is not a slot allocator. When two threads have been started and the
  first one ends first, the counter names the slot of the second: the next \<open>start\<close> hands
  \<open>k_thread_create\<close> the \<open>struct k_thread\<close> and the stack of a thread that is still running.
\<close>

theorem counter_names_a_used_slot:
  assumes "env_laws env True V TV" and "quiet_tasks invoke V TV"
    and "distinct (thread_data env)" and "2 \<le> length (thread_data env)" and "length (thread_data env) < 256"
    and "pool_matches env V TV [] {} w" and "o1 \<noteq> o2"
  shows "\<exists>w'. thread_steps env invoke [Start me o1 f, Start me o2 g, Finish o1] w = Inr (ZephyrResult, w') \<and>
    (\<exists>s. TV (tkern w') (thread_data env ! unat (s_thread_instance_count w')) = Running o2 s)"
proof -
  let ?td = "thread_data env"
  have "nested (length ?td) [] {} [Start me o1 f, Start me o2 g] = Some ([o2, o1], {})"
    using assms(4,7) by auto
  from thread_steps_nested [OF assms(1-3,5,6) this] obtain w2 where w2:
    "thread_steps env invoke [Start me o1 f, Start me o2 g] w = Inr (ZephyrResult, w2)"
    "pool_matches env V TV [o2, o1] {} w2" by blast
  note P = pool_facts [OF w2(2)]
  have tid: "th_tid (objs w2 o1) = Some (?td ! 0)" "th_task (objs w2 o1) \<noteq> None" "TV (tkern w2) (?td ! 0) = Running o1 0"
    and two: "TV (tkern w2) (?td ! 1) = Running o2 1" using P(3) by simp_all
  obtain h where h: "th_task (objs w2 o1) = Some h" using tid(2) by auto
  obtain w' where w': "thread_runs env invoke o1 w2 = Inr w'"
    "s_thread_instance_count w' = s_thread_instance_count w2 - 1" "TV (tkern w') = (TV (tkern w2))(?td ! 0 := Dead)"
    using thread_runs_ok [OF assms(1,2) tid(1) h tid(3) P(7) [rule_format]] by blast
  have "unat (s_thread_instance_count w') = 1" using P(1) w'(2) by (simp add: unat_u8_dec)
  moreover have "?td ! 1 \<noteq> ?td ! 0" 
  proof -
    have "1 < length ?td" "0 < length ?td" using assms(4) by linarith+
    with assms(3) show ?thesis by (simp add: nth_eq_iff_index_eq)
  qed
  ultimately have "TV (tkern w') (?td ! unat (s_thread_instance_count w')) = Running o2 1"
    using two w'(3) by simp
  moreover have "thread_steps env invoke [Start me o1 f, Start me o2 g, Finish o1] w = Inr (ZephyrResult, w')"
    using thread_steps_append [OF w2(1), of "[Finish o1]"] w'(1) by simp
  ultimately show ?thesis by blast
qed

theorem counter_names_a_used_slot_witness:
  "\<exists>w' s. thread_steps (demo_env True True) demo_task [Start 1 10 5, Start 1 11 6, Finish 10] demo_world
      = Inr (ZephyrResult, w') \<and> rk_th (tkern w') ([100, 101, 102] ! unat (s_thread_instance_count w')) = Running 11 s"
  using counter_names_a_used_slot [OF demo_env_laws demo_task_quiet _ _ _ demo_pool, of True 10 11 1 5 6]
  by simp

text \<open>
  C20: A thread that has ended but was not joined keeps its \<open>_tid\<close>, while its slot may already serve
  another object. \<open>join()\<close> then waits for that other thread: it blocks although the thread of the
  object has ended.
\<close>

theorem join_waits_for_another_thread:
  assumes "env_laws env True V TV" and "quiet_tasks invoke V TV"
    and "distinct (thread_data env)" and "0 < length (thread_data env)" and "length (thread_data env) < 256"
    and "pool_matches env V TV [] {} w" and "o1 \<noteq> o2"
  shows "\<exists>w'. thread_steps env invoke [Start me o1 f, Finish o1, Start me o2 g] w = Inr (ZephyrResult, w') \<and>
    Thread_join env me o1 w' = Inl Stuck \<and> (\<exists>t s. th_tid (objs w' o1) = Some t \<and> TV (tkern w') t = Running o2 s)"
proof -
  let ?td = "thread_data env"
  have "nested (length ?td) [] {} [Start me o1 f, Finish o1] = Some ([], {o1})" using assms(4) by simp
  from thread_steps_nested [OF assms(1-3,5,6) this] obtain w1 where w1:
    "thread_steps env invoke [Start me o1 f, Finish o1] w = Inr (ZephyrResult, w1)" "pool_matches env V TV [] {o1} w1" by blast
  note P = pool_facts [OF w1(2)]
  have "nested (length ?td) [] {} [Start me o1 f] = Some ([o1], {})" using assms(4) by simp
  from thread_steps_nested [OF assms(1-3,5,6) this] obtain w0 where w0:
    "thread_steps env invoke [Start me o1 f] w = Inr (ZephyrResult, w0)" "pool_matches env V TV [o1] {} w0" by blast
  note P0 = pool_facts [OF w0(2)]
  have start1: "th_tid (objs w0 o1) = Some (?td ! 0)" "TV (tkern w0) (?td ! 0) = Running o1 0" using P0(3) by simp_all
  obtain h where h: "th_task (objs w0 o1) = Some h" using P0(3) by auto
  obtain w1' where w1': "thread_runs env invoke o1 w0 = Inr w1'" "objs w1' = objs w0"
    using thread_runs_ok [OF assms(1,2) start1(1) h start1(2) P0(7) [rule_format]] by blast
  then have "w1 = w1'" using thread_steps_append [OF w0(1), of "[Finish o1]"] w1(1) by simp
  then have old: "th_tid (objs w1 o1) = Some (?td ! 0)" using w1'(2) start1(1) by simp
  have c: "unat (s_thread_instance_count w1) = 0" using P(1) by simp
  obtain w2 where w2: "Thread_start env me o2 g w1 = Inr (ZephyrResult, w2)"
    "objs w2 = (objs w1)(o2 := (objs w1 o2)\<lparr>th_task := Some g, th_tid := Some (?td ! 0)\<rparr>)"
    "TV (tkern w2) = (TV (tkern w1))(?td ! 0 := Running o2 0)" "mx V (tkern w2) = mx V (tkern w1)"
    using Thread_start_ok [OF assms(1), of w1 o2 "?td ! 0" me g] P(4,6,7) assms(4,7) c by auto
  have tid: "th_tid (objs w2 o1) = Some (?td ! 0)" using old assms(7) w2(2) by simp
  have run: "TV (tkern w2) (?td ! 0) = Running o2 0" using w2(3) by simp
  have "mx V (tkern w2) (th_mutex (objs w2 o1)) = None" using P(7) w2(2,4) assms(7) by simp
  then have "Thread_join env me o1 w2 = Inl Stuck"
    using Thread_join_waits [OF assms(1) tid] run by blast
  moreover have "thread_steps env invoke [Start me o1 f, Finish o1, Start me o2 g] w = Inr (ZephyrResult, w2)"
    using thread_steps_append [OF w1(1), of "[Start me o2 g]"] w2(1) by simp
  ultimately show ?thesis using tid run by blast
qed

theorem join_waits_for_another_thread_witness:
  "\<exists>w'. thread_steps (demo_env True True) demo_task [Start 1 10 5, Finish 10, Start 1 11 6] demo_world = Inr (ZephyrResult, w')
    \<and> Thread_join (demo_env True True) 1 10 w' = Inl Stuck"
  using join_waits_for_another_thread [OF demo_env_laws demo_task_quiet _ _ _ demo_pool, of True 10 11 1 5 6]
  by auto



text \<open>
  When the kernel is built without thread names, \<open>start\<close> fails after the thread was created:
  it reports the error, but keeps \<open>_tid\<close> and never starts the thread. From then on \<open>start\<close>
  answers \<open>Already\<close> and \<open>join\<close> never returns.
\<close>

theorem start_without_names:
  assumes "env_laws env False V TV" and "\<not> config_assert env" and "th_tid (objs w o1) = None"
    and "mx V (tkern w) (th_mutex (objs w o1)) = None"
    and "unat (s_thread_instance_count w) < length (thread_data env)"
    and "TV (tkern w) (thread_data env ! unat (s_thread_instance_count w)) = Unused"
  shows "\<exists>w' w''. Thread_start env me o1 f w =
      Inr (r_assign_error (ret_code (neg_errno (env_errno env) ''ENOSYS'')) ZephyrResult, w') \<and>
    Thread_start env me o1 f w' = Inr (r_assign_error (Already (env_errno env)) ZephyrResult, w'') \<and>
    Thread_join env me o1 w' = Inl Stuck"
proof -
  let ?i = "unat (s_thread_instance_count w)" and ?t = "thread_data env ! unat (s_thread_instance_count w)"
  obtain w' where w': "Thread_start env me o1 f w =
      Inr (r_assign_error (ret_code (neg_errno (env_errno env) ''ENOSYS'')) ZephyrResult, w')"
    "objs w' = (objs w)(o1 := (objs w o1)\<lparr>th_task := Some f, th_tid := Some ?t\<rparr>)"
    "TV (tkern w') = (TV (tkern w))(?t := Created o1 ?i)" "mx V (tkern w') = mx V (tkern w)"
    using Thread_start_ok [OF assms(1,3,4,5), of ?t me f] assms(2,6) by auto
  then have tid: "th_tid (objs w' o1) = Some ?t" and free: "mx V (tkern w') (th_mutex (objs w' o1)) = None"
    and "TV (tkern w') ?t = Created o1 ?i" using assms(4) by simp_all
  then show ?thesis
    using w'(1) Thread_start_again [OF assms(1) tid free, of me f] Thread_join_waits [OF assms(1) tid _ free] by blast
qed

theorem start_without_names_witness:
  "\<exists>w'. Thread_start (demo_env False False) 1 10 5 demo_world = Inr (r_assign_error 56 ZephyrResult, w') \<and>
    Thread_join (demo_env False False) 1 10 w' = Inl Stuck"
proof -
  have c: "\<not> config_assert (demo_env False False)" "env_errno (demo_env False False) = ref_errno"
    by (simp_all add: demo_env_def)
  have "ret_code (neg_errno ref_errno ''ENOSYS'') = 56"
    by (simp add: ret_code_def zephyr_to_zpp_error_code_def neg_errno_def ref_errno_def)
  with start_without_names [OF demo_env_laws c(1), of demo_world 10 1 5] c(2) show ?thesis
    by (auto simp: demo_world_def rk0_def)
qed

text \<open>
  Once the thread runs its entry function a call of \<open>wait_started\<close> returns; the event is
  consumed, so a second call waits although the thread has started.
\<close>

theorem wait_started_once:
  assumes "env_laws env named V TV"
    and "w1 = w\<lparr>tkern := Event_set (qemu_userspace env) (env_event env) kStartedEvent (th_event (objs w o1)) (tkern w)\<rparr>"
  shows "\<exists>w2. Thread_wait_started env o1 w1 = Inr w2 \<and> objs w2 = objs w \<and> Thread_wait_started env o1 w2 = Inl Stuck"
proof -
  let ?C = "env_clock env" and ?A = "env_event env" and ?p = "th_event (objs w o1)"
  have inv: "event_laws ?C ?A V \<and> kStartedEvent \<noteq> 0" using assms(1) by (simp add: env_laws_def kStartedEvent_def)
  obtain k2 where "Event_wait_any ?C ?A kStartedEvent ?p (tkern w1) = Inr k2"
    "\<not> (ev V k2 ?p AND kStartedEvent \<noteq> 0)"
    using started.signal_wait [OF inv, where s = "tkern w" and p = ?p] assms(2) by auto
  then show ?thesis
    using started.wait_blocks [OF inv] assms(2) by (simp add: Thread_wait_started_def)
qed

theorem wait_started_once_witness:
  "\<exists>w2. Thread_wait_started (demo_env True True) 10 (demo_world\<lparr>tkern := Event_set False ref_event kStartedEvent 21 rk0\<rparr>)
      = Inr w2 \<and> Thread_wait_started (demo_env True True) 10 w2 = Inl Stuck"
  using wait_started_once [OF demo_env_laws, of _ True True demo_world 10]
  by (auto simp: demo_world_def demo_env_def)

end
