(* ===== verification/Mutex_Pool.thy ===== *)
theory Mutex_Pool
  imports Mutex_Class
begin

text \<open>
  \<open>Mutex\<close> with \<open>CONFIG_USERSPACE\<close> (src/zpp_rtos/mutex.cpp): the constructor takes a kernel mutex
  from \<open>ZPP_MUTEX_ARRAY\<close>, the destructor initialises it again and gives it back; the second
  constructor only copies an address. \<open>arr\<close> stands for \<open>ZPP_MUTEX_ARRAY\<close>, an array of at least
  \<open>totalNbrOfMutexes\<close> different addresses that the preprocessor builds from mutexes.def.
\<close>

record mutex_pool =
  ZPP_MUTEX_ARRAY_BUSY :: "bool list"
  mutexInstanceCount :: u8

text \<open>
  \<open>totalNbrOfMutexes\<close> is the \<open>uint8_t\<close> sum of two Kconfig values of at most 10 each.
\<close>

definition Mutex_ctor_user ::
  "bool \<Rightarrow> nat \<Rightarrow> addr list \<Rightarrow> mutex_pool \<times> 'k \<Rightarrow> (addr \<times> mutex_pool \<times> 'k) run" where
  "Mutex_ctor_user config_assert totalNbrOfMutexes arr = (\<lambda>(s, k).
     bindR (ZPP_ASSERT config_assert (unat (mutexInstanceCount s) < totalNbrOfMutexes)) (\<lambda>_.
     let index = free_slot totalNbrOfMutexes (ZPP_MUTEX_ARRAY_BUSY s) in
     bindR (ZPP_ASSERT config_assert (index < totalNbrOfMutexes)) (\<lambda>_.
     if index < length (ZPP_MUTEX_ARRAY_BUSY s) \<and> index < length arr then
       Inr (arr ! index,
         s\<lparr>ZPP_MUTEX_ARRAY_BUSY := (ZPP_MUTEX_ARRAY_BUSY s)[index := True],
           mutexInstanceCount := mutexInstanceCount s + 1\<rparr>, k)
     else Inl Undef)))"

definition Mutex_copy_ctor_user :: "addr \<Rightarrow> addr" where
  "Mutex_copy_ctor_user pMutex = pMutex"

definition Mutex_dtor_user ::
  "bool \<Rightarrow> nat \<Rightarrow> addr list \<Rightarrow> 'k mutex_api \<Rightarrow> addr \<Rightarrow> mutex_pool \<times> 'k \<Rightarrow> (mutex_pool \<times> 'k) run" where
  "Mutex_dtor_user config_assert totalNbrOfMutexes arr M p = (\<lambda>(s, k).
     let index = slot_of totalNbrOfMutexes arr p; found = (index < totalNbrOfMutexes) in
     bindR (ZPP_ASSERT config_assert found) (\<lambda>_.
     if found then
       Inr (s\<lparr>ZPP_MUTEX_ARRAY_BUSY := (ZPP_MUTEX_ARRAY_BUSY s)[index := False],
              mutexInstanceCount := mutexInstanceCount s - 1\<rparr>, k_mutex_init M p k)
     else Inr (s, k)))"

text \<open>
  The invariant of the pool: one flag per array element, the addresses are different, and the
  instance count is the number of flags that are set.
\<close>

definition pool_live :: "addr list \<Rightarrow> mutex_pool \<times> 'k \<Rightarrow> addr set" where
  "pool_live arr = (\<lambda>(s, k). live_slots arr (ZPP_MUTEX_ARRAY_BUSY s))"

definition pool_inv :: "nat \<Rightarrow> addr list \<Rightarrow> mutex_pool \<times> 'k \<Rightarrow> bool" where
  "pool_inv n arr = (\<lambda>(s, k). n < 256 \<and> distinct arr \<and> length arr = n \<and>
     length (ZPP_MUTEX_ARRAY_BUSY s) = n \<and>
     unat (mutexInstanceCount s) = card (live_slots arr (ZPP_MUTEX_ARRAY_BUSY s)))"

definition pool_init :: "nat \<Rightarrow> mutex_pool" where
  "pool_init n = \<lparr>ZPP_MUTEX_ARRAY_BUSY = replicate n False, mutexInstanceCount = 0\<rparr>"

lemma live_slots_none [simp]: "live_slots arr (replicate n False) = {}"
  by (auto simp: live_slots_def)

lemma pool_inv_init: "n < 256 \<Longrightarrow> distinct arr \<Longrightarrow> length arr = n \<Longrightarrow> pool_inv n arr (pool_init n, k)"
  by (simp add: pool_inv_def pool_init_def)

lemma pool_inv_card:
  assumes "pool_inv n arr p"
  shows "finite (pool_live arr p) \<and> card (pool_live arr p) \<le> n"
proof -
  have "card (live_slots arr (ZPP_MUTEX_ARRAY_BUSY (fst p))) \<le> card (set arr)"
    using assms by (intro card_mono live_slots_subset) (auto simp: pool_inv_def split: prod.splits)
  also have "\<dots> \<le> length arr" by (rule card_length)
  finally show ?thesis
    using assms by (auto simp: pool_inv_def pool_live_def split: prod.splits)
qed

interpretation mpool: object_pool
  "Mutex_ctor_user config_assert n arr" "Mutex_dtor_user config_assert n arr M" "pool_live arr" n
  "if config_assert then Panic else Undef" "pool_inv n arr"
  for n arr config_assert M
proof (unfold_locales, goal_cases)
  case (1 p)
  then show ?case by (rule pool_inv_card)
next
  case (2 p)
  obtain s k where p: "p = (s, k)" by (cases p)
  let ?busy = "ZPP_MUTEX_ARRAY_BUSY s"
  from 2 p have inv: "n < 256" "distinct arr" "length arr = n" "length ?busy = n"
    "unat (mutexInstanceCount s) = card (live_slots arr ?busy)" "card (live_slots arr ?busy) < n"
    by (auto simp: pool_inv_def pool_live_def)
  note slot = take_free_slot [OF inv(2-4,6)]
  have "unat (mutexInstanceCount s + 1) = Suc (unat (mutexInstanceCount s))"
    using inv by (intro unat_u8_inc) simp
  then show ?case
    using inv slot p by (simp add: Mutex_ctor_user_def pool_inv_def pool_live_def Let_def)
next
  case (3 p)
  obtain s k where p: "p = (s, k)" by (cases p)
  from 3 p have inv: "distinct arr" "length arr = n" "length (ZPP_MUTEX_ARRAY_BUSY s) = n"
    "card (live_slots arr (ZPP_MUTEX_ARRAY_BUSY s)) = n"
    by (simp_all add: pool_inv_def pool_live_def)
  have "free_slot n (ZPP_MUTEX_ARRAY_BUSY s) = n" by (rule full_has_no_slot [OF inv])
  then show ?case
    using inv(3) p by (simp add: Mutex_ctor_user_def ZPP_ASSERT_def Let_def)
next
  case (4 p a)
  obtain s k where p: "p = (s, k)" by (cases p)
  let ?busy = "ZPP_MUTEX_ARRAY_BUSY s"
  from 4 p have inv: "n < 256" "distinct arr" "length arr = n" "length ?busy = n"
    "unat (mutexInstanceCount s) = card (live_slots arr ?busy)"
    by (auto simp: pool_inv_def)
  have mem: "a \<in> live_slots arr ?busy"
    using 4 p by (simp add: pool_live_def)
  note slot = give_back_slot [OF inv(2-4) mem]
  from mem have "mutexInstanceCount s \<noteq> 0"
    using inv by (metis card_0_eq empty_iff finite_live_slots unat_eq_zero)
  then have "unat (mutexInstanceCount s - 1) = card (live_slots arr ?busy - {a})"
    using inv mem by (simp add: unat_minus_one)
  then show ?case
    using inv slot p
    by (auto simp: Mutex_dtor_user_def pool_inv_def pool_live_def Let_def)
qed

text \<open>
  C9: In a pool that \<open>n\<close> objects are constructed from, no two objects alive share a kernel mutex,
  as long as the pool is large enough; one construction more fails an assertion of the constructor when
  assertions are on, and accesses the arrays behind their end when they are off.
\<close>

theorem mutex_pool_exclusive:
  assumes "n < 256" and "distinct arr" and "length arr = n" and "m \<le> n"
  shows "(\<exists>as p'. alloc_many (Mutex_ctor_user config_assert n arr) m (pool_init n, k) = Inr (as, p') \<and>
      length as = m \<and> distinct as \<and> set as \<subseteq> set arr \<and> pool_inv n arr p') \<and>
    alloc_many (Mutex_ctor_user config_assert n arr) (Suc n) (pool_init n, k) = Inl (if config_assert then Panic else Undef)"
proof -
  have inv: "pool_inv n arr (pool_init n, k)" using assms(1-3) by (rule pool_inv_init)
  have empty: "pool_live arr (pool_init n, k) = {}" by (simp add: pool_live_def pool_init_def)
  obtain as p' where as: "alloc_many (Mutex_ctor_user config_assert n arr) m (pool_init n, k) = Inr (as, p')"
    "length as = m" "distinct as" "pool_live arr p' = pool_live arr (pool_init n, k) \<union> set as"
    "pool_inv n arr p'"
    using mpool.alloc_many_distinct [where config_assert = config_assert, OF inv, of m] empty assms(4) by auto
  moreover have "set as \<subseteq> set arr"
  proof -
    have "pool_live arr p' = set as" using as(4) empty by simp
    moreover have "length arr = length (ZPP_MUTEX_ARRAY_BUSY (fst p'))"
      using as(5) by (auto simp: pool_inv_def split: prod.splits)
    ultimately show ?thesis
      using live_slots_subset [of arr "ZPP_MUTEX_ARRAY_BUSY (fst p')"]
      by (simp add: pool_live_def split_def)
  qed
  moreover have "alloc_many (Mutex_ctor_user config_assert n arr) (Suc n) (pool_init n, k) = Inl (if config_assert then Panic else Undef)"
    by (rule mpool.alloc_many_too_many [OF inv]) (simp add: empty)
  ultimately show ?thesis by blast
qed

theorem mutex_pool_exclusive_witness:
  "\<exists>as p'. alloc_many (Mutex_ctor_user True 3 [10, 20, 30]) 2 (pool_init 3, rk0) = Inr (as, p') \<and>
    length as = 2 \<and> distinct as \<and> set as \<subseteq> {10, 20, 30}"
  using mutex_pool_exclusive [of 3 "[10, 20, 30]" 2 True rk0] by auto

text \<open>
  The destructor undoes the constructor: the pool is as it was, and the kernel mutex is initialised again.
\<close>

lemma Mutex_dtor_after_ctor:
  assumes "pool_inv n arr (s, k)" and "Mutex_ctor_user config_assert n arr (s, k) = Inr (a, s1, k1)"
  shows "Mutex_dtor_user config_assert n arr M a (s1, k2) = Inr (s, k_mutex_init M a k2)" and "a \<in> set arr"
proof -
  let ?busy = "ZPP_MUTEX_ARRAY_BUSY s" and ?i = "free_slot n (ZPP_MUTEX_ARRAY_BUSY s)"
  from assms(1) have inv: "n < 256" "distinct arr" "length arr = n" "length ?busy = n"
    by (auto simp: pool_inv_def)
  from assms(2) inv have i: "?i < n" "a = arr ! ?i"
    and s1: "s1 = s\<lparr>ZPP_MUTEX_ARRAY_BUSY := ?busy[?i := True], mutexInstanceCount := mutexInstanceCount s + 1\<rparr>"
    by (auto simp: Mutex_ctor_user_def Let_def ZPP_ASSERT_def bindR_def split: if_splits)
  have slot: "slot_of n arr a = ?i" using inv i by (simp add: slot_of_nth)
  have "\<not> ?busy ! ?i" using i(1) inv(4) by (rule free_slot_free)
  then have "?busy[?i := False] = ?busy" by (metis list_update_id)
  then show "Mutex_dtor_user config_assert n arr M a (s1, k2) = Inr (s, k_mutex_init M a k2)"
    using i slot s1 by (simp add: Mutex_dtor_user_def Let_def)
  show "a \<in> set arr" using i inv(3) by simp
qed

lemma Mutex_ctor_user_kernel:
  "Mutex_ctor_user a n arr (s, k) = Inr (p, s', k') \<Longrightarrow> k' = k"
  "Mutex_ctor_user a n arr (s, k) = Inr (p, s', k') \<Longrightarrow> Mutex_ctor_user a n arr (s, k2) = Inr (p, s', k2)"
  by (auto simp: Mutex_ctor_user_def Let_def bindR_eq_Inr split: if_splits)

text \<open>
  \<open>Thread::s_thunk\<close> makes a second \<open>Mutex\<close> object from the address of the thread's mutex and
  destroys it when the thread ends. That destructor frees the slot although the \<open>Thread\<close> object
  still owns it: the next \<open>Mutex\<close> constructed shares the thread's kernel mutex.
\<close>

theorem copied_mutex_frees_slot:
  assumes "pool_inv n arr p" and "Mutex_ctor_user config_assert n arr p = Inr (a, p1)"
  shows "\<exists>p2 p3. Mutex_dtor_user config_assert n arr M (Mutex_copy_ctor_user a) p1 = Inr p2 \<and>
    Mutex_ctor_user config_assert n arr p2 = Inr (a, p3)"
proof -
  obtain s k s1 k1 where p: "p = (s, k)" "p1 = (s1, k1)" by (cases p; cases p1)
  note ctor = assms(2) [unfolded p]
  show ?thesis
    unfolding p Mutex_copy_ctor_user_def
    by (intro exI conjI, rule Mutex_dtor_after_ctor(1) [OF assms(1) [unfolded p(1)] ctor],
        rule Mutex_ctor_user_kernel(2) [OF ctor])
qed

theorem copied_mutex_frees_slot_witness:
  "\<exists>p2 p3. Mutex_dtor_user True 2 [10, 20] ref_mutex (Mutex_copy_ctor_user 10)
      (\<lparr>ZPP_MUTEX_ARRAY_BUSY = [True, False], mutexInstanceCount = 1\<rparr>, rk0) = Inr p2 \<and>
    Mutex_ctor_user True 2 [10, 20] p2 = Inr (10, p3)"
proof -
  have inv: "pool_inv 2 [10, 20] (pool_init 2, rk0)" by (rule pool_inv_init) simp_all
  have "Mutex_ctor_user True 2 [10, 20] (pool_init 2, rk0) =
    Inr (10, \<lparr>ZPP_MUTEX_ARRAY_BUSY = [True, False], mutexInstanceCount = 1\<rparr>, rk0)"
    by (simp add: Mutex_ctor_user_def pool_init_def free_slot_def numeral_2_eq_2)
  from copied_mutex_frees_slot [OF inv this] show ?thesis .
qed

end
