(* ===== verification/Display_Pixels.thy ===== *)
theory Display_Pixels
  imports Prelude
begin

text \<open>
  The pixel formats of \<open>zpp_lib::Display\<close> (src/zpp_include/display.hpp, src/zpp_drivers/display.cpp):
  colour values, and the static functions that fill the line buffer. A buffer is a list of bytes; a
  store outside it is undefined behaviour. 32-bit stores are little-endian, as on every target the
  library is built for. The locale \<open>pixel_codec\<close> is the contract of a pair of fill functions.
\<close>

unbundle bit_operations_syntax

datatype pixel_format = PIXEL_FORMAT_ARGB_8888 | PIXEL_FORMAT_RGB_888 | Other_pixel_format

section \<open>Colours\<close>

datatype color = Black | White | Blue | Green

definition kARGB8888Colors :: "u32 list" where
  "kARGB8888Colors = [0xFF000000, 0xFFFFFFFF, 0xFF0000FF, 0xFF00FF00]"

definition kRGB8888Colors :: "u32 list" where
  "kRGB8888Colors = [0x000000, 0xFFFFFF, 0x0000FF, 0x00FF00]"

fun color_index :: "color \<Rightarrow> nat" where
  "color_index Black = 0"
| "color_index White = 1"
| "color_index Blue = 2"
| "color_index Green = 3"

fun get_color_value :: "bool \<Rightarrow> pixel_format \<Rightarrow> color \<Rightarrow> u32 run" where
  "get_color_value a PIXEL_FORMAT_ARGB_8888 c = Inr (kARGB8888Colors ! color_index c)"
| "get_color_value a PIXEL_FORMAT_RGB_888 c = Inr (kRGB8888Colors ! color_index c)"
| "get_color_value a Other_pixel_format c = bindR (ZPP_ASSERT a False) (\<lambda>_. Inr 0)"

section \<open>Stores into a buffer\<close>

definition byte :: "nat \<Rightarrow> u32 \<Rightarrow> u8" where
  "byte k v = ucast (drop_bit (8 * k) v AND 0xFF)"

definition store_u8 :: "nat \<Rightarrow> u8 \<Rightarrow> u8 list \<Rightarrow> u8 list run" where
  "store_u8 i v buf = (if i < length buf then Inr (buf[i := v]) else Inl Undef)"

definition store_u32 :: "nat \<Rightarrow> u32 \<Rightarrow> u8 list \<Rightarrow> u8 list run" where
  "store_u32 i v buf =
     bindR (store_u8 i (byte 0 v) buf) (\<lambda>buf. bindR (store_u8 (i + 1) (byte 1 v) buf) (\<lambda>buf.
     bindR (store_u8 (i + 2) (byte 2 v) buf) (\<lambda>buf. store_u8 (i + 3) (byte 3 v) buf)))"

definition load_u32 :: "u32 list \<Rightarrow> nat \<Rightarrow> u32 run" where
  "load_u32 src i = (if i < length src then Inr (src ! i) else Inl Undef)"

section \<open>The fill functions\<close>

text \<open>The loops, from index \<open>idx\<close> on.\<close>

function fill_color_argb8888_from :: "u32 \<Rightarrow> nat \<Rightarrow> nat \<Rightarrow> u8 list \<Rightarrow> u8 list run" where
  "fill_color_argb8888_from color_value idx buffer_size buf =
     (if idx < buffer_size then
        bindR (store_u32 idx color_value buf) (\<lambda>buf.
          fill_color_argb8888_from color_value (idx + 4) buffer_size buf)
      else Inr buf)"
  by pat_completeness auto
termination
  by (relation "measure (\<lambda>(v, idx, size, buf). size - idx)") simp_all

definition fill_color_argb8888 :: "u32 \<Rightarrow> nat \<Rightarrow> u8 list \<Rightarrow> u8 list run" where
  "fill_color_argb8888 color_value buffer_size buf = fill_color_argb8888_from color_value 0 buffer_size buf"

definition store_bgr :: "nat \<Rightarrow> u32 \<Rightarrow> u8 list \<Rightarrow> u8 list run" where
  "store_bgr i v buf =
     bindR (store_u8 (i + 0) (ucast (drop_bit 0 v AND 0xFF)) buf) (\<lambda>buf.
     bindR (store_u8 (i + 1) (ucast (drop_bit 8 v AND 0xFF)) buf) (\<lambda>buf.
     store_u8 (i + 2) (ucast (drop_bit 16 v AND 0xFF)) buf))"

function fill_color_rgb888_from :: "u32 \<Rightarrow> nat \<Rightarrow> nat \<Rightarrow> u8 list \<Rightarrow> u8 list run" where
  "fill_color_rgb888_from color_value idx buffer_size buf =
     (if idx < buffer_size then
        bindR (store_bgr idx color_value buf) (\<lambda>buf.
          fill_color_rgb888_from color_value (idx + 3) buffer_size buf)
      else Inr buf)"
  by pat_completeness auto
termination
  by (relation "measure (\<lambda>(v, idx, size, buf). size - idx)") simp_all

definition fill_color_rgb888 :: "u32 \<Rightarrow> nat \<Rightarrow> u8 list \<Rightarrow> u8 list run" where
  "fill_color_rgb888 color_value buffer_size buf = fill_color_rgb888_from color_value 0 buffer_size buf"

text \<open>\<open>p_src\<close> points at element \<open>pos\<close> of the array \<open>src\<close>.\<close>

function fill_line_argb8888_from :: "u32 list \<Rightarrow> nat \<Rightarrow> nat \<Rightarrow> nat \<Rightarrow> u8 list \<Rightarrow> u8 list run" where
  "fill_line_argb8888_from src pos px src_size buf =
     (if px < src_size then
        bindR (load_u32 src pos) (\<lambda>v. bindR (store_u32 (px * 4) v buf) (\<lambda>buf.
          fill_line_argb8888_from src (pos + 1) (px + 1) src_size buf))
      else Inr buf)"
  by pat_completeness auto
termination
  by (relation "measure (\<lambda>(src, pos, idx, size, buf). size - idx)") simp_all

definition fill_line_argb8888 :: "u32 list \<Rightarrow> nat \<Rightarrow> nat \<Rightarrow> u8 list \<Rightarrow> u8 list run" where
  "fill_line_argb8888 src pos src_size buf = fill_line_argb8888_from src pos 0 src_size buf"

function fill_line_rgb888_from :: "u32 list \<Rightarrow> nat \<Rightarrow> nat \<Rightarrow> nat \<Rightarrow> u8 list \<Rightarrow> u8 list run" where
  "fill_line_rgb888_from src pos idx src_size buf =
     (if idx < src_size then
        bindR (load_u32 src pos) (\<lambda>v. bindR (store_bgr (idx * 3) v buf) (\<lambda>buf.
          fill_line_rgb888_from src (pos + 1) (idx + 1) src_size buf))
      else Inr buf)"
  by pat_completeness auto
termination
  by (relation "measure (\<lambda>(src, pos, idx, size, buf). size - idx)") simp_all

definition fill_line_rgb888 :: "u32 list \<Rightarrow> nat \<Rightarrow> nat \<Rightarrow> u8 list \<Rightarrow> u8 list run" where
  "fill_line_rgb888 src pos src_size buf = fill_line_rgb888_from src pos 0 src_size buf"

declare fill_color_argb8888_from.simps [simp del] fill_color_rgb888_from.simps [simp del]
  fill_line_argb8888_from.simps [simp del] fill_line_rgb888_from.simps [simp del]

section \<open>The contract of a pixel format\<close>

text \<open>\<open>blit\<close> is a buffer with the bytes \<open>bs\<close> written at offset \<open>i\<close>.\<close>

definition blit :: "nat \<Rightarrow> u8 list \<Rightarrow> u8 list \<Rightarrow> u8 list" where
  "blit i bs buf = take i buf @ bs @ drop (i + length bs) buf"

lemma length_blit: "i + length bs \<le> length buf \<Longrightarrow> length (blit i bs buf) = length buf"
  by (simp add: blit_def)

lemma blit_blit:
  assumes "i + length bs + length cs \<le> length buf"
  shows "blit (i + length bs) cs (blit i bs buf) = blit i (bs @ cs) buf"
proof -
  have i: "min i (length buf) = i" "min (length buf) i = i" using assms by simp_all
  show ?thesis by (simp add: blit_def i add.commute add.left_commute)
qed

lemma blit_nil [simp]: "blit i [] buf = buf"
  by (simp add: blit_def)

lemma list_update_blit: "i < length buf \<Longrightarrow> buf[i := v] = blit i [v] buf"
  by (simp add: blit_def upd_conv_take_nth_drop)

lemma store_u8_blit: "i < length buf \<Longrightarrow> store_u8 i v buf = Inr (blit i [v] buf)"
  by (simp add: store_u8_def list_update_blit)

text \<open>The pixel at index \<open>i\<close> of a buffer.\<close>

definition pixel_at :: "nat \<Rightarrow> nat \<Rightarrow> u8 list \<Rightarrow> u8 list" where
  "pixel_at bpp i buf = take bpp (drop (i * bpp) buf)"

locale pixel_codec =
  fixes bpp :: nat
    and encode :: "u32 \<Rightarrow> u8 list"
    and fill_color_from :: "u32 \<Rightarrow> nat \<Rightarrow> nat \<Rightarrow> u8 list \<Rightarrow> u8 list run"
    and fill_line_from :: "u32 list \<Rightarrow> nat \<Rightarrow> nat \<Rightarrow> nat \<Rightarrow> u8 list \<Rightarrow> u8 list run"
  assumes bpp_pos: "0 < bpp"
    and length_encode: "length (encode v) = bpp"
    and color_step: "idx < sz \<Longrightarrow> idx + bpp \<le> length buf \<Longrightarrow>
      fill_color_from v idx sz buf = fill_color_from v (idx + bpp) sz (blit idx (encode v) buf)"
    and color_stop: "sz \<le> idx \<Longrightarrow> fill_color_from v idx sz buf = Inr buf"
    and line_step: "px < n \<Longrightarrow> pos < length src \<Longrightarrow> px * bpp + bpp \<le> length buf \<Longrightarrow>
      fill_line_from src pos px n buf = fill_line_from src (pos + 1) (px + 1) n (blit (px * bpp) (encode (src ! pos)) buf)"
    and line_stop: "n \<le> px \<Longrightarrow> fill_line_from src pos px n buf = Inr buf"
begin

lemma fill_color_from_blit:
  "(i + k) * bpp \<le> length buf \<Longrightarrow>
    fill_color_from v (i * bpp) ((i + k) * bpp) buf = Inr (blit (i * bpp) (concat (replicate k (encode v))) buf)"
proof (induction k arbitrary: i buf)
  case 0
  then show ?case by (simp add: color_stop)
next
  case (Suc k)
  let ?buf = "blit (i * bpp) (encode v) buf"
  have len: "i * bpp + bpp \<le> length buf" using Suc.prems by (simp add: algebra_simps)
  then have "length ?buf = length buf" by (simp add: length_blit length_encode)
  then have "fill_color_from v (Suc i * bpp) ((Suc i + k) * bpp) ?buf =
    Inr (blit (Suc i * bpp) (concat (replicate k (encode v))) ?buf)"
    using Suc.IH [of "Suc i" ?buf] Suc.prems by simp
  moreover have "fill_color_from v (i * bpp) ((i + Suc k) * bpp) buf = fill_color_from v (i * bpp + bpp) ((i + Suc k) * bpp) ?buf"
    using bpp_pos len by (intro color_step) (simp_all add: algebra_simps)
  moreover have "blit (Suc i * bpp) (concat (replicate k (encode v))) ?buf = blit (i * bpp) (concat (replicate (Suc k) (encode v))) buf"
    using blit_blit [of "i * bpp" "encode v" "concat (replicate k (encode v))" buf] Suc.prems
    by (simp add: length_encode length_concat comp_def sum_list_replicate algebra_simps)
  ultimately show ?case by (simp add: add.commute)
qed

lemma fill_line_from_blit:
  "(i + k) * bpp \<le> length buf \<Longrightarrow> pos + k \<le> length src \<Longrightarrow>
    fill_line_from src pos i (i + k) buf = Inr (blit (i * bpp) (concat (map encode (take k (drop pos src)))) buf)"
proof (induction k arbitrary: i pos buf)
  case 0
  then show ?case by (simp add: line_stop)
next
  case (Suc k)
  let ?buf = "blit (i * bpp) (encode (src ! pos)) buf"
  have len: "i * bpp + bpp \<le> length buf" using Suc.prems by (simp add: algebra_simps)
  then have "length ?buf = length buf" by (simp add: length_blit length_encode)
  then have "fill_line_from src (pos + 1) (Suc i) (Suc i + k) ?buf =
    Inr (blit (Suc i * bpp) (concat (map encode (take k (drop (pos + 1) src)))) ?buf)"
    using Suc.IH [of "Suc i" ?buf "pos + 1"] Suc.prems by simp
  moreover have "fill_line_from src pos i (i + Suc k) buf = fill_line_from src (pos + 1) (i + 1) (i + Suc k) ?buf"
    using len Suc.prems by (intro line_step) simp_all
  moreover have "take (Suc k) (drop pos src) = src ! pos # take k (drop (pos + 1) src)"
    using Suc.prems by (simp add: Cons_nth_drop_Suc [symmetric])
  moreover have "length (concat (map encode xs)) = length xs * bpp" for xs
    by (induction xs) (simp_all add: length_encode)
  ultimately show ?case
    using blit_blit [of "i * bpp" "encode (src ! pos)" "concat (map encode (take k (drop (pos + 1) src)))" buf] Suc.prems
    by (simp add: length_encode algebra_simps)
qed

lemma pixel_at_concat:
  "i < length vs \<Longrightarrow> pixel_at bpp i (concat (map encode vs) @ rest) = encode (vs ! i)"
proof (induction vs arbitrary: i)
  case (Cons v vs)
  then show ?case by (cases i) (auto simp: pixel_at_def length_encode)
qed simp

lemma fill_color_pixels:
  assumes "length buf = k * bpp"
  shows "\<exists>buf'. fill_color_from v 0 (k * bpp) buf = Inr buf' \<and> length buf' = k * bpp \<and>
    (\<forall>i<k. pixel_at bpp i buf' = encode v)"
proof -
  have len: "length (concat (replicate k (encode v))) = k * bpp"
    by (simp add: length_concat comp_def sum_list_replicate length_encode)
  have "fill_color_from v 0 (k * bpp) buf = Inr (concat (replicate k (encode v)))"
    using fill_color_from_blit [of 0 k buf v] assms len by (simp add: blit_def)
  moreover have "pixel_at bpp i (concat (replicate k (encode v))) = encode v" if "i < k" for i
    using pixel_at_concat [of i "replicate k v" "[]"] that by simp
  ultimately show ?thesis using len by blast
qed

lemma fill_line_pixels:
  assumes "k * bpp \<le> length buf" and "pos + k \<le> length src"
  shows "\<exists>buf'. fill_line_from src pos 0 k buf = Inr buf' \<and> length buf' = length buf \<and>
    (\<forall>i<k. pixel_at bpp i buf' = encode (src ! (pos + i)))"
proof -
  let ?vs = "take k (drop pos src)"
  have "length (concat (map encode xs)) = length xs * bpp" for xs
    by (induction xs) (simp_all add: length_encode)
  then have len: "length (concat (map encode ?vs)) = k * bpp" using assms(2) by simp
  have "fill_line_from src pos 0 k buf = Inr (blit 0 (concat (map encode ?vs)) buf)"
    using fill_line_from_blit [of 0 k buf pos src] assms by simp
  moreover have "length (blit 0 (concat (map encode ?vs)) buf) = length buf"
    using assms len by (simp add: length_blit)
  moreover have "pixel_at bpp i (blit 0 (concat (map encode ?vs)) buf) = encode (src ! (pos + i))" if "i < k" for i
    using pixel_at_concat [of i ?vs "drop (k * bpp) buf"] that assms(2) len by (simp add: blit_def)
  ultimately show ?thesis by blast
qed

end

section \<open>The two formats\<close>

definition encode_argb8888 :: "u32 \<Rightarrow> u8 list" where
  "encode_argb8888 v = [byte 0 v, byte 1 v, byte 2 v, byte 3 v]"

definition encode_rgb888 :: "u32 \<Rightarrow> u8 list" where
  "encode_rgb888 v = [byte 0 v, byte 1 v, byte 2 v]"

lemma blit_snoc: "i + length bs < length buf \<Longrightarrow> j = i + length bs \<Longrightarrow> blit j [b] (blit i bs buf) = blit i (bs @ [b]) buf"
  by (simp add: blit_blit)

lemma store_u32_blit:
  "i + 4 \<le> length buf \<Longrightarrow> store_u32 i v buf = Inr (blit i (encode_argb8888 v) buf)"
  by (simp add: store_u32_def store_u8_blit length_blit blit_snoc encode_argb8888_def)

lemma store_bgr_blit:
  "i + 3 \<le> length buf \<Longrightarrow> store_bgr i v buf = Inr (blit i (encode_rgb888 v) buf)"
  by (simp add: store_bgr_def store_u8_blit length_blit blit_snoc encode_rgb888_def byte_def)

interpretation argb8888: pixel_codec 4 encode_argb8888 fill_color_argb8888_from fill_line_argb8888_from
  by unfold_locales
    (simp_all add: encode_argb8888_def fill_color_argb8888_from.simps [of _ _ _ buf for buf]
      fill_line_argb8888_from.simps [of _ _ _ _ buf for buf] store_u32_blit load_u32_def)

interpretation rgb888: pixel_codec 3 encode_rgb888 fill_color_rgb888_from fill_line_rgb888_from
  by unfold_locales
    (simp_all add: encode_rgb888_def fill_color_rgb888_from.simps [of _ _ _ buf for buf]
      fill_line_rgb888_from.simps [of _ _ _ _ buf for buf] store_bgr_blit load_u32_def)

section \<open>Reading the pixels back\<close>

lemma bit_byte: "bit (byte k v) n \<longleftrightarrow> n < 8 \<and> bit v (8 * k + n)"
proof -
  have "bit (mask 8 :: u32) n \<longleftrightarrow> n < 8" unfolding bit_mask_iff by auto
  moreover have "(mask 8 :: u32) = 0xFF" by (simp add: mask_eq_exp_minus_1)
  ultimately have "bit (0xFF :: u32) n \<longleftrightarrow> n < 8" by metis
  then show ?thesis by (auto simp: byte_def bit_simps dest: bit_imp_le_length)
qed

fun read_pixel :: "u8 list \<Rightarrow> u32" where
  "read_pixel [] = 0"
| "read_pixel (b # bs) = ucast b OR push_bit 8 (read_pixel bs)"

lemma read_argb8888 [simp]: "read_pixel (encode_argb8888 v) = v"
proof (rule bit_eqI)
  fix n
  assume "possible_bit TYPE(u32) n"
  then have "n < 32" by simp
  consider "n < 8" | "8 \<le> n" "n < 16" | "16 \<le> n" "n < 24" | "24 \<le> n" "n < 32" using \<open>n < 32\<close> by linarith
  then show "bit (read_pixel (encode_argb8888 v)) n = bit v n"
    by cases (auto simp: encode_argb8888_def bit_simps bit_byte)
qed

lemma read_rgb888 [simp]: "read_pixel (encode_rgb888 v) = v AND 0xFFFFFF"
proof (rule bit_eqI)
  fix n
  assume "possible_bit TYPE(u32) n"
  then have "n < 32" by simp
  have m: "(0xFFFFFF :: u32) = mask 24" by (simp add: mask_eq_exp_minus_1)
  have "bit (mask 24 :: u32) n \<longleftrightarrow> n < 24" unfolding bit_mask_iff by auto
  then have m: "bit (0xFFFFFF :: u32) n \<longleftrightarrow> n < 24" unfolding m .
  have land: "bit (v AND 0xFFFFFF) n \<longleftrightarrow> n < 24 \<and> bit v n" unfolding bit_and_iff m by blast
  consider "n < 8" | "8 \<le> n" "n < 16" | "16 \<le> n" "n < 24" | "24 \<le> n" "n < 32" using \<open>n < 32\<close> by linarith
  then show "bit (read_pixel (encode_rgb888 v)) n = bit (v AND 0xFFFFFF) n"
    unfolding land by cases (auto simp: encode_rgb888_def bit_simps bit_byte)
qed

text \<open>
  C40: drawing and reading back. A line of source colours copied into the line buffer is read back
  from its bytes exactly in the ARGB format and up to the unused byte in the RGB format, whatever the
  buffer held; and a buffer filled with a colour of the palette reads as that colour everywhere, the two
  formats differing only in the opaque alpha byte.
\<close>

theorem pixel_round_trip:
  assumes "k * 4 \<le> length buf" and "k * 3 \<le> length buf'" and "pos + k \<le> length src" and "length fb = k * 4" and "length fb' = k * 3"
  shows "(\<exists>b. fill_line_argb8888 src pos k buf = Inr b \<and> length b = length buf \<and>
      map (\<lambda>i. read_pixel (pixel_at 4 i b)) [0..<k] = take k (drop pos src)) \<and>
    (\<exists>b. fill_line_rgb888 src pos k buf' = Inr b \<and> length b = length buf' \<and>
      map (\<lambda>i. read_pixel (pixel_at 3 i b)) [0..<k] = map (\<lambda>v. v AND 0xFFFFFF) (take k (drop pos src))) \<and>
    (\<exists>v b v' b'. get_color_value a PIXEL_FORMAT_ARGB_8888 c = Inr v \<and> fill_color_argb8888 v (k * 4) fb = Inr b \<and>
      get_color_value a PIXEL_FORMAT_RGB_888 c = Inr v' \<and> fill_color_rgb888 v' (k * 3) fb' = Inr b' \<and>
      (\<forall>i<k. read_pixel (pixel_at 4 i b) = v \<and> read_pixel (pixel_at 3 i b') = v' \<and> v = 0xFF000000 OR v'))"
proof (intro conjI)
  obtain b where b: "fill_line_argb8888_from src pos 0 k buf = Inr b" "length b = length buf"
    "\<forall>i<k. pixel_at 4 i b = encode_argb8888 (src ! (pos + i))"
    using argb8888.fill_line_pixels [OF assms(1,3)] by blast
  have "map (\<lambda>i. read_pixel (pixel_at 4 i b)) [0..<k] = take k (drop pos src)"
    using b(3) assms(3) by (intro nth_equalityI) simp_all
  with b show "\<exists>b. fill_line_argb8888 src pos k buf = Inr b \<and> length b = length buf \<and>
      map (\<lambda>i. read_pixel (pixel_at 4 i b)) [0..<k] = take k (drop pos src)"
    unfolding fill_line_argb8888_def by blast
next
  obtain b where b: "fill_line_rgb888_from src pos 0 k buf' = Inr b" "length b = length buf'"
    "\<forall>i<k. pixel_at 3 i b = encode_rgb888 (src ! (pos + i))"
    using rgb888.fill_line_pixels [OF assms(2,3)] by blast
  have "map (\<lambda>i. read_pixel (pixel_at 3 i b)) [0..<k] = map (\<lambda>v. v AND 0xFFFFFF) (take k (drop pos src))"
    using b(3) assms(3) by (intro nth_equalityI) simp_all
  with b show "\<exists>b. fill_line_rgb888 src pos k buf' = Inr b \<and> length b = length buf' \<and>
      map (\<lambda>i. read_pixel (pixel_at 3 i b)) [0..<k] = map (\<lambda>v. v AND 0xFFFFFF) (take k (drop pos src))"
    unfolding fill_line_rgb888_def by blast
next
  let ?v = "kARGB8888Colors ! color_index c" and ?v' = "kRGB8888Colors ! color_index c"
  obtain b where b: "fill_color_argb8888 ?v (k * 4) fb = Inr b" "\<forall>i<k. pixel_at 4 i b = encode_argb8888 ?v"
    using argb8888.fill_color_pixels [OF assms(4), of ?v] unfolding fill_color_argb8888_def by blast
  obtain b' where b': "fill_color_rgb888 ?v' (k * 3) fb' = Inr b'" "\<forall>i<k. pixel_at 3 i b' = encode_rgb888 ?v'"
    using rgb888.fill_color_pixels [OF assms(5), of ?v'] unfolding fill_color_rgb888_def by blast
  have "?v' AND 0xFFFFFF = ?v' \<and> ?v = 0xFF000000 OR ?v'"
    by (cases c) (simp_all add: kARGB8888Colors_def kRGB8888Colors_def)
  with b b' show "\<exists>v b v' b'. get_color_value a PIXEL_FORMAT_ARGB_8888 c = Inr v \<and> fill_color_argb8888 v (k * 4) fb = Inr b \<and>
      get_color_value a PIXEL_FORMAT_RGB_888 c = Inr v' \<and> fill_color_rgb888 v' (k * 3) fb' = Inr b' \<and>
      (\<forall>i<k. read_pixel (pixel_at 4 i b) = v \<and> read_pixel (pixel_at 3 i b') = v' \<and> v = 0xFF000000 OR v')"
    by (intro exI [of _ ?v] exI [of _ b] exI [of _ ?v'] exI [of _ b']) simp
qed

theorem pixel_round_trip_witness:
  "\<exists>b. fill_line_argb8888 [1, 0x8899AABB, 3] 1 2 (replicate 9 0) = Inr b \<and> length b = 9 \<and>
    map (\<lambda>i. read_pixel (pixel_at 4 i b)) [0..<2] = [0x8899AABB, 3]"
  using pixel_round_trip [of 2 "replicate 9 0" "replicate 6 0" 1 "[1, 0x8899AABB, 3]" "replicate 8 0" "replicate 6 0"] by simp

end
