(* ===== verification/Display_Class.thy ===== *)
theory Display_Class
  imports Display_Pixels Error_Result
begin

text \<open>
  \<open>zpp_lib::Display\<close> (src/zpp_include/display.hpp, src/zpp_drivers/display.cpp): initialisation,
  rectangles, lines and icons. The display driver is the parameter \<open>display_api\<close> over a device
  state \<open>'d\<close>; what is on the screen is the view \<open>pixel\<close>. A loop over \<open>uint32_t\<close> lines that
  are bounded by a 16-bit number is a recursion on \<open>nat\<close>.
\<close>

section \<open>Data\<close>

datatype orientation = Orientation_normal | Rotated_90 | Rotated_180 | Rotated_270

record display_capabilities =
  x_resolution :: u16
  y_resolution :: u16
  current_pixel_format :: pixel_format
  current_orientation :: orientation

record display_buffer_descriptor =
  buf_size :: u32
  desc_width :: u16
  desc_height :: u16
  pitch :: u16
  frame_incomplete :: bool

record 'd display_api =
  device_is_ready :: "'d \<Rightarrow> bool"
  display_get_capabilities :: "'d \<Rightarrow> display_capabilities"
  display_write :: "u16 \<Rightarrow> u16 \<Rightarrow> display_buffer_descriptor \<Rightarrow> u8 list \<Rightarrow> 'd \<Rightarrow> int \<times> 'd"
  display_blanking_off :: "'d \<Rightarrow> int \<times> 'd"
  k_heap_alloc :: "nat \<Rightarrow> 'd \<Rightarrow> u8 list option \<times> 'd"

record font_char_info =
  unicode :: u32
  char_offset :: u32
  char_width :: u8

record font =
  font_height :: u8
  font_chars :: "font_char_info list"
  font_table :: "u8 list"

text \<open>The font's \<open>char_count\<close> is the length of its array \<open>chars\<close>. A null pointer is \<open>None\<close>.\<close>

record display =
  display_capabilities :: display_capabilities
  lcd_xsize :: u32
  lcd_ysize :: u32
  line_buffer_size :: size_t
  background_color :: color
  background_color_value :: u32
  line_buffer :: "u8 list option"
  p_font :: "font option"
  fill_color_function :: "(u32 \<Rightarrow> nat \<Rightarrow> u8 list \<Rightarrow> u8 list run) option"
  fill_line_function :: "(u32 list \<Rightarrow> nat \<Rightarrow> nat \<Rightarrow> u8 list \<Rightarrow> u8 list run) option"

definition Display_ctor :: display where
  "Display_ctor =
     \<lparr>display_capabilities = \<lparr>x_resolution = 0, y_resolution = 0, current_pixel_format = PIXEL_FORMAT_RGB_888,
        current_orientation = Orientation_normal\<rparr>,
      lcd_xsize = 0, lcd_ysize = 0, line_buffer_size = 0, background_color = Black, background_color_value = 0,
      line_buffer = None, p_font = None, fill_color_function = None, fill_line_function = None\<rparr>"

definition kHStep :: u32 where
  "kHStep = 1"

definition min16 :: "u32 \<Rightarrow> u16 \<Rightarrow> u16" where
  "min16 a b = (if ucast b < a then b else ucast a)"

definition pixel_format_of :: "display \<Rightarrow> pixel_format" where
  "pixel_format_of D = current_pixel_format (display_capabilities D)"

definition bytes_per_pixel :: "display \<Rightarrow> u32" where
  "bytes_per_pixel D = (if pixel_format_of D = PIXEL_FORMAT_ARGB_8888 then 4 else 3)"

text \<open>The bytes behind \<open>_line_buffer\<close>; behind a null pointer there are none.\<close>

definition buffer :: "display \<Rightarrow> u8 list" where
  "buffer D = (case line_buffer D of None \<Rightarrow> [] | Some buf \<Rightarrow> buf)"

definition set_buffer :: "display \<Rightarrow> u8 list \<Rightarrow> display" where
  "set_buffer D buf = (case line_buffer D of None \<Rightarrow> D | Some _ \<Rightarrow> D\<lparr>line_buffer := Some buf\<rparr>)"

section \<open>Initialisation\<close>

definition initialize ::
  "errno_values \<Rightarrow> 'd display_api \<Rightarrow> display \<Rightarrow> 'd \<Rightarrow> zephyr_result \<times> display \<times> 'd" where
  "initialize E A D d =
     (let res = ZephyrResult in
      if \<not> device_is_ready A d then (r_assign_error (Nodev E) res, D, d)
      else
        let caps = display_get_capabilities A d;
            rotated = (current_orientation caps = Rotated_90 \<or> current_orientation caps = Rotated_270);
            xs = (if rotated then ucast (y_resolution caps) else ucast (x_resolution caps));
            ys = (if rotated then ucast (x_resolution caps) else ucast (y_resolution caps));
            n = (if xs > ys then xs else ys);
            D1 = D\<lparr>display_capabilities := caps, lcd_xsize := xs, lcd_ysize := ys, line_buffer_size := n\<rparr>;
            allocate = (\<lambda>D2. case k_heap_alloc A (unat (line_buffer_size D2)) d of
                (None, d') \<Rightarrow> (r_assign_error (Nomem E) res, D2\<lparr>line_buffer := None\<rparr>, d')
              | (Some buf, d') \<Rightarrow> (res, D2\<lparr>line_buffer := Some buf\<rparr>, d')) in
        case current_pixel_format caps of
          PIXEL_FORMAT_ARGB_8888 \<Rightarrow> allocate (D1\<lparr>fill_color_function := Some fill_color_argb8888,
            fill_line_function := Some fill_line_argb8888, line_buffer_size := n * 4\<rparr>)
        | PIXEL_FORMAT_RGB_888 \<Rightarrow> allocate (D1\<lparr>fill_color_function := Some fill_color_rgb888,
            fill_line_function := Some fill_line_rgb888, line_buffer_size := n * 3\<rparr>)
        | Other_pixel_format \<Rightarrow> (r_assign_error (Nosys E) res, D1, d))"

definition get_width :: "display \<Rightarrow> u32" where
  "get_width D = lcd_xsize D"

definition get_height :: "display \<Rightarrow> u32" where
  "get_height D = lcd_ysize D"

definition set_background_color :: "bool \<Rightarrow> color \<Rightarrow> display \<Rightarrow> display run" where
  "set_background_color a c D =
     bindR (get_color_value a (pixel_format_of D) c) (\<lambda>v.
       Inr (D\<lparr>background_color := c, background_color_value := v\<rparr>))"

section \<open>Rectangles\<close>

text \<open>The descriptor of one pass of the loops: \<open>w\<close> pixels wide, at \<open>line\<close>, up to \<open>stop\<close>.\<close>

definition line_desc :: "u16 \<Rightarrow> u32 \<Rightarrow> nat \<Rightarrow> nat \<Rightarrow> display_buffer_descriptor" where
  "line_desc w bpp line stop =
     (let line_height = min16 kHStep (word_of_nat (stop - line)) in
      \<lparr>buf_size = ucast w * ucast line_height * bpp, desc_width = w, desc_height = line_height, pitch = w,
       frame_incomplete = line + unat line_height < stop\<rparr>)"

function fill_rectangle_lines ::
  "'d display_api \<Rightarrow> u16 \<Rightarrow> u16 \<Rightarrow> u32 \<Rightarrow> nat \<Rightarrow> nat \<Rightarrow> u8 list \<Rightarrow> 'd \<Rightarrow> 'd" where
  "fill_rectangle_lines A x_pos w bpp stop line buf d =
     (if line < stop then
        let (ret, d') = display_write A x_pos (word_of_nat line) (line_desc w bpp line stop) buf d in
        fill_rectangle_lines A x_pos w bpp stop (line + unat kHStep) buf d'
      else d)"
  by pat_completeness auto
termination
  by (relation "measure (\<lambda>(A, x_pos, w, bpp, stop, line, buf, d). stop - line)") (simp_all add: kHStep_def)

declare fill_rectangle_lines.simps [simp del]

definition fill_rectangle ::
  "bool \<Rightarrow> 'd display_api \<Rightarrow> color \<Rightarrow> u32 \<Rightarrow> u32 \<Rightarrow> u32 \<Rightarrow> u32 \<Rightarrow> display \<Rightarrow> 'd \<Rightarrow> (display \<times> 'd) run" where
  "fill_rectangle a A c x_pos y_pos width height D d =
     bindR (get_color_value a (pixel_format_of D) c) (\<lambda>color_value.
     case fill_color_function D of
       None \<Rightarrow> Inl Panic
     | Some fill \<Rightarrow>
         bindR (fill color_value (unat (line_buffer_size D)) (buffer D)) (\<lambda>buf.
         let x = min16 (lcd_xsize D - 1) (ucast x_pos);
             w = min16 (lcd_xsize D - ucast x) (ucast width);
             first_line = min16 y_pos (ucast (lcd_ysize D));
             last_line = min16 (y_pos + height) (ucast (lcd_ysize D)) in
         Inr (set_buffer D buf,
           fill_rectangle_lines A x w (bytes_per_pixel D) (unat last_line) (unat first_line) buf d)))"

definition fill_display :: "bool \<Rightarrow> 'd display_api \<Rightarrow> color \<Rightarrow> display \<Rightarrow> 'd \<Rightarrow> (display \<times> 'd) run" where
  "fill_display a A c D d =
     bindR (fill_rectangle a A c 0 0 (lcd_xsize D) (lcd_ysize D) D d) (\<lambda>(D', d').
       let (ret, d'') = display_blanking_off A d' in Inr (D', d''))"

definition draw_vertical_line ::
  "bool \<Rightarrow> 'd display_api \<Rightarrow> color \<Rightarrow> u32 \<Rightarrow> u32 \<Rightarrow> u32 \<Rightarrow> u32 \<Rightarrow> display \<Rightarrow> 'd \<Rightarrow> (display \<times> 'd) run" where
  "draw_vertical_line a A c x_pos y_pos line_length thickness D d =
     fill_rectangle a A c x_pos y_pos thickness line_length D d"

definition draw_horizontal_line ::
  "bool \<Rightarrow> 'd display_api \<Rightarrow> color \<Rightarrow> u32 \<Rightarrow> u32 \<Rightarrow> u32 \<Rightarrow> u32 \<Rightarrow> display \<Rightarrow> 'd \<Rightarrow> (display \<times> 'd) run" where
  "draw_horizontal_line a A c x_pos y_pos line_length thickness D d =
     fill_rectangle a A c x_pos y_pos line_length thickness D d"

section \<open>Pictures\<close>

text \<open>
  The loop of \<open>draw_icon\<close> and \<open>fill_rgb_rect\<close>: \<open>p_src\<close> points at element \<open>pos\<close> of \<open>src\<close> and
  advances by \<open>stride\<close> pixels per line.
\<close>

function draw_lines ::
  "'d display_api \<Rightarrow> (u32 list \<Rightarrow> nat \<Rightarrow> nat \<Rightarrow> u8 list \<Rightarrow> u8 list run) \<Rightarrow> u16 \<Rightarrow> u16 \<Rightarrow> u32 \<Rightarrow> nat \<Rightarrow> u32 list \<Rightarrow> nat
    \<Rightarrow> nat \<Rightarrow> nat \<Rightarrow> u8 list \<Rightarrow> 'd \<Rightarrow> (u8 list \<times> 'd) run" where
  "draw_lines A fill x_pos w bpp stride src pos stop line buf d =
     (if line < stop then
        bindR (fill src pos (unat w) buf) (\<lambda>buf'.
        let (ret, d') = display_write A x_pos (word_of_nat line) (line_desc w bpp line stop) buf' d in
        draw_lines A fill x_pos w bpp stride src (pos + stride) stop (line + unat kHStep) buf' d')
      else Inr (buf, d))"
  by pat_completeness auto
termination
  by (relation "measure (\<lambda>(A, fill, x_pos, w, bpp, stride, src, pos, stop, line, buf, d). stop - line)")
    (simp_all add: kHStep_def)

declare draw_lines.simps [simp del]

definition draw_icon ::
  "'d display_api \<Rightarrow> u16 \<Rightarrow> u16 \<Rightarrow> u32 list \<Rightarrow> u16 \<Rightarrow> u16 \<Rightarrow> display \<Rightarrow> 'd \<Rightarrow> (display \<times> 'd) run" where
  "draw_icon A x_pos y_pos src logo_width logo_height D d =
     (let x = min16 (lcd_xsize D - 1) x_pos;
          w = min16 (lcd_xsize D - ucast x) logo_width;
          first_line = min16 (ucast y_pos) (ucast (lcd_ysize D));
          last_line = min16 (ucast y_pos + ucast logo_height) (ucast (lcd_ysize D));
          fill = (case fill_line_function D of None \<Rightarrow> (\<lambda>_ _ _ _. Inl Panic) | Some f \<Rightarrow> f) in
      bindR (draw_lines A fill x w (bytes_per_pixel D) (unat logo_width) src 0 (unat last_line) (unat first_line)
        (buffer D) d) (\<lambda>(buf, d'). Inr (set_buffer D buf, d')))"

definition fill_rgb_rect ::
  "'d display_api \<Rightarrow> u32 \<Rightarrow> u32 \<Rightarrow> u32 list \<Rightarrow> u32 \<Rightarrow> u32 \<Rightarrow> display \<Rightarrow> 'd \<Rightarrow> (display \<times> 'd) run" where
  "fill_rgb_rect A x_pos y_pos data width height D d =
     (let x = min16 (lcd_xsize D - 1) (ucast x_pos);
          w = min16 (lcd_xsize D - ucast x) (ucast width);
          first_line = min16 y_pos (ucast (lcd_ysize D));
          last_line = min16 (y_pos + height) (ucast (lcd_ysize D));
          fill = (case fill_line_function D of None \<Rightarrow> (\<lambda>_ _ _ _. Inl Panic) | Some f \<Rightarrow> f) in
      bindR (draw_lines A fill x w (bytes_per_pixel D) (unat width) data 0 (unat last_line) (unat first_line)
        (buffer D) d) (\<lambda>(buf, d'). Inr (set_buffer D buf, d')))"

section \<open>What is on the screen\<close>

type_synonym 'd screen = "'d \<Rightarrow> nat \<Rightarrow> nat \<Rightarrow> u8 list"

text \<open>
  Documented: \<open>display_write\<close> copies \<open>height\<close> rows of \<open>width\<close> pixels, \<open>pitch\<close> pixels apart in
  the buffer, to the position \<open>(x, y)\<close>, when the rectangle lies on the screen and \<open>buf_size\<close> bytes
  are there to read. \<open>display_blanking_off\<close> changes no pixel. \<open>k_heap_alloc\<close> returns a block of the size it was asked for, or null.
\<close>

definition display_laws :: "'d display_api \<Rightarrow> nat \<Rightarrow> nat \<Rightarrow> nat \<Rightarrow> 'd screen \<Rightarrow> bool" where
  "display_laws A xs ys bpp pix \<longleftrightarrow>
     (\<forall>x y b buf d. unat x + unat (desc_width b) \<le> xs \<and> unat y + unat (desc_height b) \<le> ys \<and>
        pitch b = desc_width b \<and> unat (buf_size b) = unat (desc_width b) * unat (desc_height b) * bpp \<and>
        unat (buf_size b) \<le> length buf \<longrightarrow>
        (\<forall>i j. pix (snd (display_write A x y b buf d)) i j =
          (if unat x \<le> i \<and> i < unat x + unat (desc_width b) \<and> unat y \<le> j \<and> j < unat y + unat (desc_height b)
           then pixel_at bpp ((j - unat y) * unat (pitch b) + (i - unat x)) buf else pix d i j))) \<and>
     (\<forall>d. pix (snd (display_blanking_off A d)) = pix d) \<and>
     (\<forall>n d buf d'. k_heap_alloc A n d = (Some buf, d') \<longrightarrow> length buf = n)"

definition encode :: "display \<Rightarrow> u32 \<Rightarrow> u8 list" where
  "encode D = (if pixel_format_of D = PIXEL_FORMAT_ARGB_8888 then encode_argb8888 else encode_rgb888)"

text \<open>
  A display that \<open>initialize\<close> has set up for a screen of \<open>xs\<close> by \<open>ys\<close> pixels.
\<close>

definition display_ok :: "nat \<Rightarrow> nat \<Rightarrow> display \<Rightarrow> bool" where
  "display_ok xs ys D \<longleftrightarrow> 0 < xs \<and> 0 < ys \<and> xs < 65536 \<and> ys < 65536 \<and>
     unat (lcd_xsize D) = xs \<and> unat (lcd_ysize D) = ys \<and>
     unat (line_buffer_size D) = max xs ys * unat (bytes_per_pixel D) \<and>
     (\<exists>buf. line_buffer D = Some buf \<and> length buf = unat (line_buffer_size D)) \<and>
     (pixel_format_of D = PIXEL_FORMAT_ARGB_8888 \<and> fill_color_function D = Some fill_color_argb8888 \<and>
        fill_line_function D = Some fill_line_argb8888 \<or>
      pixel_format_of D = PIXEL_FORMAT_RGB_888 \<and> fill_color_function D = Some fill_color_rgb888 \<and>
        fill_line_function D = Some fill_line_rgb888)"

lemma display_ok_fill_color:
  assumes "display_ok xs ys D"
  shows "\<exists>fill buf. fill_color_function D = Some fill \<and>
    fill v (unat (line_buffer_size D)) (buffer D) = Inr buf \<and> length buf = unat (line_buffer_size D) \<and>
    (\<forall>i<max xs ys. pixel_at (unat (bytes_per_pixel D)) i buf = encode D v)"
proof -
  have len: "length (buffer D) = unat (line_buffer_size D)" using assms by (auto simp: display_ok_def buffer_def)
  from assms consider
    "pixel_format_of D = PIXEL_FORMAT_ARGB_8888" "fill_color_function D = Some fill_color_argb8888"
    | "pixel_format_of D = PIXEL_FORMAT_RGB_888" "fill_color_function D = Some fill_color_rgb888"
    by (auto simp: display_ok_def)
  then show ?thesis
  proof cases
    case 1
    then have "unat (line_buffer_size D) = max xs ys * 4" using assms by (simp add: display_ok_def bytes_per_pixel_def)
    with 1 len argb8888.fill_color_pixels [of "buffer D" "max xs ys" v] show ?thesis
      by (auto simp: fill_color_argb8888_def encode_def bytes_per_pixel_def)
  next
    case 2
    then have "unat (line_buffer_size D) = max xs ys * 3" using assms by (simp add: display_ok_def bytes_per_pixel_def)
    with 2 len rgb888.fill_color_pixels [of "buffer D" "max xs ys" v] show ?thesis
      by (auto simp: fill_color_rgb888_def encode_def bytes_per_pixel_def)
  qed
qed

lemma display_ok_fill_line:
  assumes "display_ok xs ys D"
  shows "\<exists>fill. fill_line_function D = Some fill \<and>
    (\<forall>src pos n buf. length buf = unat (line_buffer_size D) \<longrightarrow> n \<le> max xs ys \<longrightarrow> pos + n \<le> length src \<longrightarrow>
      (\<exists>buf'. fill src pos n buf = Inr buf' \<and> length buf' = length buf \<and>
        (\<forall>i<n. pixel_at (unat (bytes_per_pixel D)) i buf' = encode D (src ! (pos + i)))))"
proof -
  have size: "unat (line_buffer_size D) = max xs ys * unat (bytes_per_pixel D)"
    using assms by (simp add: display_ok_def)
  from assms consider
    "pixel_format_of D = PIXEL_FORMAT_ARGB_8888" "fill_line_function D = Some fill_line_argb8888"
    | "pixel_format_of D = PIXEL_FORMAT_RGB_888" "fill_line_function D = Some fill_line_rgb888"
    by (auto simp: display_ok_def)
  then show ?thesis
  proof cases
    case 1
    then have b: "unat (bytes_per_pixel D) = 4" "encode D = encode_argb8888"
      by (simp_all add: bytes_per_pixel_def encode_def)
    have "\<exists>buf'. fill_line_argb8888 src pos n buf = Inr buf' \<and> length buf' = length buf \<and>
        (\<forall>i<n. pixel_at 4 i buf' = encode_argb8888 (src ! (pos + i)))"
      if "length buf = unat (line_buffer_size D)" "n \<le> max xs ys" "pos + n \<le> length src" for src pos n buf
      using argb8888.fill_line_pixels [of n buf pos src] that mult_le_mono1 [of n "max xs ys" 4] size b(1)
      by (simp add: fill_line_argb8888_def)
    then show ?thesis unfolding b using 1(2) by blast
  next
    case 2
    then have b: "unat (bytes_per_pixel D) = 3" "encode D = encode_rgb888"
      by (simp_all add: bytes_per_pixel_def encode_def)
    have "\<exists>buf'. fill_line_rgb888 src pos n buf = Inr buf' \<and> length buf' = length buf \<and>
        (\<forall>i<n. pixel_at 3 i buf' = encode_rgb888 (src ! (pos + i)))"
      if "length buf = unat (line_buffer_size D)" "n \<le> max xs ys" "pos + n \<le> length src" for src pos n buf
      using rgb888.fill_line_pixels [of n buf pos src] that mult_le_mono1 [of n "max xs ys" 3] size b(1)
      by (simp add: fill_line_rgb888_def)
    then show ?thesis unfolding b using 2(2) by blast
  qed
qed

lemma bytes_per_pixel_le: "unat (bytes_per_pixel D) = 3 \<or> unat (bytes_per_pixel D) = 4"
  by (simp add: bytes_per_pixel_def)

lemma unat_min16:
  "unat (min16 a b) = (if unat b < unat a then unat b else unat a)"
proof (cases "unat b < unat a")
  case False
  then have "unat a < 65536" using unat_u16_lt [of b] by simp
  with False show ?thesis by (simp add: min16_def word_less_nat_alt unat_ucast_32_16)
qed (simp add: min16_def word_less_nat_alt)

lemma line_desc_one:
  assumes "line < stop" and "stop < 65536" and "unat bpp = 3 \<or> unat bpp = 4"
  shows "desc_width (line_desc w bpp line stop) = w" and "pitch (line_desc w bpp line stop) = w"
    and "unat (desc_height (line_desc w bpp line stop)) = 1"
    and "unat (buf_size (line_desc w bpp line stop)) = unat w * unat bpp"
proof -
  have h: "unat (min16 kHStep (word_of_nat (stop - line))) = 1"
    using assms(1,2) by (simp add: unat_min16 kHStep_def del: of_nat_diff)
  have "min16 kHStep (word_of_nat (stop - line)) = 1"
    using h by (metis unat_1 word_unat_eq_iff)
  moreover have "unat (ucast w * 1 * bpp :: u32) = unat w * unat bpp"
    using unat_u16_lt [of w] assms(3) by (subst unat_mult_lem [THEN iffD1]) auto
  ultimately show "desc_width (line_desc w bpp line stop) = w" "pitch (line_desc w bpp line stop) = w"
    "unat (desc_height (line_desc w bpp line stop)) = 1"
    "unat (buf_size (line_desc w bpp line stop)) = unat w * unat bpp"
    by (simp_all add: line_desc_def Let_def)
qed

text \<open>One pass of a loop: row \<open>line\<close> shows the first \<open>w\<close> pixels of the buffer.\<close>

lemma write_line:
  assumes laws: "display_laws A xs ys bpp pix" and bpp: "unat b = bpp" "bpp = 3 \<or> bpp = 4"
    and x: "unat x + unat w \<le> xs" and line: "line < stop" "stop \<le> ys" "ys < 65536"
    and buf: "unat w * bpp \<le> length buf"
  shows "pix (snd (display_write A x (word_of_nat line) (line_desc w b line stop) buf d)) i j =
    (if unat x \<le> i \<and> i < unat x + unat w \<and> j = line then pixel_at bpp (i - unat x) buf else pix d i j)"
proof -
  have lt: "stop < 65536" using line by simp
  have y: "unat (word_of_nat line :: u16) = line" using line by simp
  note desc = line_desc_one [OF line(1) lt, of b w]
  have d: "unat (desc_height (line_desc w b line stop)) = 1" "desc_width (line_desc w b line stop) = w"
    "pitch (line_desc w b line stop) = w" "unat (buf_size (line_desc w b line stop)) = unat w * bpp"
    using desc bpp by simp_all
  have "pix (snd (display_write A x (word_of_nat line) (line_desc w b line stop) buf d)) i j =
    (if unat x \<le> i \<and> i < unat x + unat w \<and> line \<le> j \<and> j < line + 1
     then pixel_at bpp ((j - line) * unat w + (i - unat x)) buf else pix d i j)"
    using laws [unfolded display_laws_def, THEN conjunct1, rule_format,
        of x "line_desc w b line stop" "word_of_nat line" buf d i j] x line buf d y by simp
  then show ?thesis by (auto simp: less_Suc_eq_le)
qed

lemma fill_rectangle_lines_pixels:
  assumes laws: "display_laws A xs ys bpp pix" and bpp: "unat b = bpp" "bpp = 3 \<or> bpp = 4"
    and x: "unat x + unat w \<le> xs" and stop: "stop \<le> ys" "ys < 65536"
    and buf: "unat w * bpp \<le> length buf" "\<forall>i<unat w. pixel_at bpp i buf = v"
  shows "pix (fill_rectangle_lines A x w b stop line buf d) i j =
    (if unat x \<le> i \<and> i < unat x + unat w \<and> line \<le> j \<and> j < stop then v else pix d i j)"
proof (induction "stop - line" arbitrary: line d)
  case 0
  then show ?case by (auto simp: fill_rectangle_lines.simps)
next
  case (Suc n)
  then have less: "line < stop" by simp
  let ?d = "snd (display_write A x (word_of_nat line) (line_desc w b line stop) buf d)"
  have "fill_rectangle_lines A x w b stop line buf d = fill_rectangle_lines A x w b stop (Suc line) buf ?d"
    using less by (subst fill_rectangle_lines.simps) (simp add: kHStep_def split_beta)
  moreover have "n = stop - Suc line" using Suc.hyps(2) by simp
  moreover have "pix ?d i j = (if unat x \<le> i \<and> i < unat x + unat w \<and> j = line then v else pix d i j)"
  proof -
    have "i - unat x < unat w" if "unat x \<le> i \<and> i < unat x + unat w \<and> j = line" using that by auto
    with buf(2) have "pixel_at bpp (i - unat x) buf = v" if "unat x \<le> i \<and> i < unat x + unat w \<and> j = line"
      using that by blast
    then show ?thesis unfolding write_line [OF laws bpp x less stop buf(1), of d i j] by (meson if_cong)
  qed
  ultimately show ?case using Suc.hyps(1) [of "Suc line" ?d] less by auto
qed

lemma draw_lines_pixels:
  assumes laws: "display_laws A xs ys bpp pix" and bpp: "unat b = bpp" "bpp = 3 \<or> bpp = 4"
    and x: "unat x + unat w \<le> xs" and stop: "stop \<le> ys" "ys < 65536"
    and fill: "\<And>pos buf. length buf = m \<Longrightarrow> pos + unat w \<le> length src \<Longrightarrow>
      \<exists>buf'. fill src pos (unat w) buf = Inr buf' \<and> length buf' = m \<and>
        (\<forall>i<unat w. pixel_at bpp i buf' = enc (src ! (pos + i)))"
    and m: "unat w * bpp \<le> m"
  shows "length buf = m \<Longrightarrow> line < stop \<longrightarrow> pos + (stop - line - 1) * stride + unat w \<le> length src \<Longrightarrow>
    \<exists>buf' d'. draw_lines A fill x w b stride src pos stop line buf d = Inr (buf', d') \<and> length buf' = m \<and>
      (\<forall>i j. pix d' i j = (if unat x \<le> i \<and> i < unat x + unat w \<and> line \<le> j \<and> j < stop
        then enc (src ! (pos + (j - line) * stride + (i - unat x))) else pix d i j))"
proof (induction "stop - line" arbitrary: line pos buf d)
  case 0
  then show ?case by (auto simp: draw_lines.simps)
next
  case (Suc n)
  then have less: "line < stop" by simp
  then have bound: "pos + (stop - line - 1) * stride + unat w \<le> length src" using Suc.prems by simp
  then have "pos + unat w \<le> length src" by linarith
  from fill [OF Suc.prems(1) this] obtain buf1 where buf1: "fill src pos (unat w) buf = Inr buf1" "length buf1 = m"
    "\<forall>i<unat w. pixel_at bpp i buf1 = enc (src ! (pos + i))" by blast
  let ?d = "snd (display_write A x (word_of_nat line) (line_desc w b line stop) buf1 d)"
  have step: "draw_lines A fill x w b stride src pos stop line buf d =
    draw_lines A fill x w b stride src (pos + stride) stop (Suc line) buf1 ?d"
    using less buf1(1) by (subst draw_lines.simps) (simp add: kHStep_def split_beta)
  have n: "n = stop - Suc line" using Suc.hyps(2) by simp
  have "pos + stride + (stop - Suc line - 1) * stride + unat w \<le> length src" if "Suc line < stop"
  proof -
    from that have "stop - line - 1 = Suc (stop - Suc line - 1)" by simp
    with bound show ?thesis by simp
  qed
  then obtain buf' d' where rec: "draw_lines A fill x w b stride src (pos + stride) stop (Suc line) buf1 ?d = Inr (buf', d')"
    "length buf' = m"
    "\<forall>i j. pix d' i j = (if unat x \<le> i \<and> i < unat x + unat w \<and> Suc line \<le> j \<and> j < stop
      then enc (src ! (pos + stride + (j - Suc line) * stride + (i - unat x))) else pix ?d i j)"
    using Suc.hyps(1) [OF n buf1(2), of "pos + stride" ?d] by blast
  have row: "pix ?d i j = (if unat x \<le> i \<and> i < unat x + unat w \<and> j = line
      then enc (src ! (pos + (i - unat x))) else pix d i j)" for i j
  proof -
    have len: "unat w * bpp \<le> length buf1" using m buf1(2) by simp
    have "i - unat x < unat w" if "unat x \<le> i \<and> i < unat x + unat w \<and> j = line" using that by auto
    with buf1(3) have "pixel_at bpp (i - unat x) buf1 = enc (src ! (pos + (i - unat x)))"
      if "unat x \<le> i \<and> i < unat x + unat w \<and> j = line" using that by blast
    then show ?thesis unfolding write_line [OF laws bpp x less stop len, of d i j] by (meson if_cong)
  qed
  have "pix d' i j = (if unat x \<le> i \<and> i < unat x + unat w \<and> line \<le> j \<and> j < stop
      then enc (src ! (pos + (j - line) * stride + (i - unat x))) else pix d i j)" for i j
  proof (cases "Suc line \<le> j")
    case True
    then have e: "pos + stride + (j - Suc line) * stride = pos + (j - line) * stride"
      by (simp add: Suc_diff_Suc [symmetric] del: diff_Suc_Suc)
    show ?thesis using rec(3) [rule_format, of i j] True unfolding e row by auto
  next
    case False
    with rec(3) row less show ?thesis by (cases "j = line") auto
  qed
  then have all: "\<forall>i j. pix d' i j = (if unat x \<le> i \<and> i < unat x + unat w \<and> line \<le> j \<and> j < stop
      then enc (src ! (pos + (j - line) * stride + (i - unat x))) else pix d i j)" by blast
  have "draw_lines A fill x w b stride src pos stop line buf d = Inr (buf', d')" using step rec(1) by simp
  with rec(2) all show ?case by blast
qed

section \<open>Properties\<close>

lemma ucast_u16_u32_mult:
  assumes "k = 3 \<or> k = 4"
  shows "unat (ucast (n :: u16) * (word_of_nat k :: u32)) = unat n * k"
proof -
  have k: "unat (word_of_nat k :: u32) = k" using assms by auto
  have "unat n * k < 4294967296" using unat_u16_lt [of n] assms by auto
  then have "unat (ucast n :: u32) * unat (word_of_nat k :: u32) < 2 ^ LENGTH(32)" by (simp add: k)
  then show ?thesis using unat_mult_lem [of "ucast n :: u32" "word_of_nat k"] k by simp
qed

text \<open>Which results \<open>initialize\<close> has, when \<open>k_heap_alloc\<close> returns blocks of the size asked for.\<close>

lemma initialize_cases:
  assumes heap: "\<forall>n buf d'. k_heap_alloc A n d = (Some buf, d') \<longrightarrow> length buf = n"
    and caps: "display_get_capabilities A d = caps" "x_resolution caps \<noteq> 0" "y_resolution caps \<noteq> 0"
    and run: "initialize E A D d = (res, D', d')"
  shows "(\<not> device_is_ready A d \<longrightarrow> res = r_assign_error (Nodev E) ZephyrResult \<and> D' = D) \<and>
    (device_is_ready A d \<and> current_pixel_format caps = Other_pixel_format \<longrightarrow>
      res = r_assign_error (Nosys E) ZephyrResult) \<and>
    (device_is_ready A d \<and> current_pixel_format caps \<noteq> Other_pixel_format \<longrightarrow>
      (res = r_assign_error (Nomem E) ZephyrResult \<and> line_buffer D' = None \<or>
       res = ZephyrResult \<and>
       (if current_orientation caps \<in> {Rotated_90, Rotated_270}
        then display_ok (unat (y_resolution caps)) (unat (x_resolution caps)) D'
        else display_ok (unat (x_resolution caps)) (unat (y_resolution caps)) D')))"
proof -
  have m: "unat (ucast n * 4 :: u32) = unat n * 4" "unat (ucast n * 3 :: u32) = unat n * 3" for n :: u16
    using ucast_u16_u32_mult [of 4 n] ucast_u16_u32_mult [of 3 n] by simp_all
  have mx: "unat (if (ucast p :: u32) > ucast q then ucast p else ucast q :: u32) = max (unat p) (unat q)"
    and mx2: "(if (ucast p :: u32) > ucast q then ucast p else ucast q :: u32) = ucast (if p > q then p else q)"
    and mx3: "unat (if p > q then p else q) = max (unat p) (unat q)" for p q :: u16
    by (auto simp: word_less_nat_alt max_def)
  have pos: "0 < unat (x_resolution caps)" "0 < unat (y_resolution caps)"
    using caps(2,3) by (simp_all add: unat_gt_0)
  have lt: "unat (x_resolution caps) < 65536" "unat (y_resolution caps) < 65536" by (rule unat_u16_lt)+
  show ?thesis
  proof (cases "device_is_ready A d \<and> current_pixel_format caps \<noteq> Other_pixel_format")
    case False
    with caps(1) run show ?thesis by (auto simp: initialize_def Let_def split: if_splits)
  next
    case True
    let ?rot = "current_orientation caps = Rotated_90 \<or> current_orientation caps = Rotated_270"
    define p where "p = (if ?rot then y_resolution caps else x_resolution caps)"
    define q where "q = (if ?rot then x_resolution caps else y_resolution caps)"
    have p: "(if ?rot then ucast (y_resolution caps) else ucast (x_resolution caps) :: u32) = ucast p"
      and q: "(if ?rot then ucast (x_resolution caps) else ucast (y_resolution caps) :: u32) = ucast q"
      by (simp_all add: p_def q_def)
    have pq: "0 < unat p" "0 < unat q" "unat p < 65536" "unat q < 65536"
      using pos lt by (simp_all add: p_def q_def)
    have "res = r_assign_error (Nomem E) ZephyrResult \<and> line_buffer D' = None \<or>
      res = ZephyrResult \<and> display_ok (unat p) (unat q) D'"
    proof (cases "current_pixel_format caps")
      case PIXEL_FORMAT_ARGB_8888
      with True run pq heap show ?thesis
        unfolding initialize_def Let_def caps(1) p q mx2
        by (auto simp: display_ok_def pixel_format_of_def bytes_per_pixel_def m mx3 split: prod.splits option.splits)
    next
      case PIXEL_FORMAT_RGB_888
      with True run pq heap show ?thesis
        unfolding initialize_def Let_def caps(1) p q mx2
        by (auto simp: display_ok_def pixel_format_of_def bytes_per_pixel_def m mx3 split: prod.splits option.splits)
    qed (use True in simp)
    with True show ?thesis by (auto simp: p_def q_def)
  qed
qed

text \<open>
  \<open>initialize\<close> on every branch: a device that is not ready, an unsupported pixel format and an
  exhausted heap are reported with their own error; otherwise the display is set up for the
  screen as the driver rotates it, with a line buffer that holds the longer side, so that one row of
  pixels fits it in every orientation.
\<close>

theorem initialize_sets_up:
  assumes "display_laws A xs ys bpp pix"
    and "display_get_capabilities A d = caps" and "x_resolution caps \<noteq> 0" and "y_resolution caps \<noteq> 0"
    and "initialize E A D d = (res, D', d')"
  shows "(\<not> device_is_ready A d \<longrightarrow> res = r_assign_error (Nodev E) ZephyrResult \<and> D' = D) \<and>
    (device_is_ready A d \<and> current_pixel_format caps = Other_pixel_format \<longrightarrow>
      res = r_assign_error (Nosys E) ZephyrResult) \<and>
    (device_is_ready A d \<and> current_pixel_format caps \<noteq> Other_pixel_format \<longrightarrow>
      (res = r_assign_error (Nomem E) ZephyrResult \<and> line_buffer D' = None \<or>
       res = ZephyrResult \<and>
       (if current_orientation caps \<in> {Rotated_90, Rotated_270}
        then display_ok (unat (y_resolution caps)) (unat (x_resolution caps)) D'
        else display_ok (unat (x_resolution caps)) (unat (y_resolution caps)) D')))"
  by (rule initialize_cases [OF _ assms(2-5)]) (use assms(1) in \<open>unfold display_laws_def, blast\<close>)

text \<open>The rectangle the source computes from its arguments: 16-bit casts and clipping at the right.\<close>

lemma clip_x:
  assumes "display_ok xs ys D"
  shows "unat (min16 (lcd_xsize D - 1) x) = min (unat x) (xs - 1)"
    and "unat (min16 (lcd_xsize D - ucast (min16 (lcd_xsize D - 1) x)) w) = min (unat w) (xs - min (unat x) (xs - 1))"
proof -
  have xs: "0 < xs" "unat (lcd_xsize D) = xs" using assms by (simp_all add: display_ok_def)
  then have "lcd_xsize D \<noteq> 0" by auto
  then have m1: "unat (lcd_xsize D - 1) = xs - 1" using xs by (simp add: unat_minus_one)
  then show 1: "unat (min16 (lcd_xsize D - 1) x) = min (unat x) (xs - 1)" by (simp add: unat_min16)
  have "ucast (min16 (lcd_xsize D - 1) x) \<le> lcd_xsize D" using xs 1 by (simp add: word_le_nat_alt)
  then have "unat (lcd_xsize D - ucast (min16 (lcd_xsize D - 1) x)) = xs - min (unat x) (xs - 1)"
    using xs(2) 1 by (simp add: unat_sub)
  then show "unat (min16 (lcd_xsize D - ucast (min16 (lcd_xsize D - 1) x)) w) = min (unat w) (xs - min (unat x) (xs - 1))"
    by (simp add: unat_min16 min_def)
qed

lemma clip_y:
  assumes "display_ok xs ys D"
  shows "unat (min16 y (ucast (lcd_ysize D))) = min (unat y) ys"
proof -
  have "unat (ucast (lcd_ysize D) :: u16) = ys" using assms by (simp add: display_ok_def unat_ucast_32_16)
  then show ?thesis by (simp add: unat_min16 min_def)
qed

lemma display_ok_set_buffer:
  assumes "display_ok xs ys D" and "length buf = unat (line_buffer_size D)"
  shows "display_ok xs ys (set_buffer D buf)"
proof -
  obtain old where "line_buffer D = Some old" using assms(1) by (auto simp: display_ok_def)
  then have "set_buffer D buf = D\<lparr>line_buffer := Some buf\<rparr>" by (simp add: set_buffer_def)
  with assms show ?thesis by (simp add: display_ok_def pixel_format_of_def bytes_per_pixel_def)
qed

lemma clip_inside: "min m (xs - 1) + min k (xs - min m (xs - 1)) \<le> (xs :: nat)"
proof -
  have le: "min m (xs - 1) \<le> xs" by (rule order.trans [OF min.cobounded2]) (rule diff_le_self)
  have "min m (xs - 1) + min k (xs - min m (xs - 1)) \<le> min m (xs - 1) + (xs - min m (xs - 1))"
    by (rule add_left_mono) (rule min.cobounded2)
  with le show ?thesis by (simp only: le_add_diff_inverse)
qed

lemma fill_rectangle_pixels:
  assumes laws: "display_laws A xs ys (unat (bytes_per_pixel D)) pix" and ok: "display_ok xs ys D"
    and v: "get_color_value a (pixel_format_of D) c = Inr v"
  shows "\<exists>D' d'. fill_rectangle a A c x y width height D d = Inr (D', d') \<and> display_ok xs ys D' \<and>
    (\<forall>i j. pix d' i j =
      (let x' = min (unat (ucast x :: u16)) (xs - 1); w' = min (unat (ucast width :: u16)) (xs - x') in
       if x' \<le> i \<and> i < x' + w' \<and> min (unat y) ys \<le> j \<and> j < min (unat (y + height)) ys
       then encode D v else pix d i j))"
proof -
  let ?x = "min16 (lcd_xsize D - 1) (ucast x)"
  let ?w = "min16 (lcd_xsize D - ucast ?x) (ucast width)"
  have sizes: "0 < xs" "xs < 65536" "ys < 65536"
    "unat (line_buffer_size D) = max xs ys * unat (bytes_per_pixel D)" using ok by (simp_all add: display_ok_def)
  obtain fill buf where fill: "fill_color_function D = Some fill"
    "fill v (unat (line_buffer_size D)) (buffer D) = Inr buf" "length buf = unat (line_buffer_size D)"
    "\<forall>i<max xs ys. pixel_at (unat (bytes_per_pixel D)) i buf = encode D v"
    using display_ok_fill_color [OF ok] by blast
  note x = clip_x(1) [OF ok, of "ucast x"] and w = clip_x(2) [OF ok, of "ucast x" "ucast width"]
  have inside: "unat ?x + unat ?w \<le> xs" unfolding x w by (rule clip_inside)
  then have w_le: "unat ?w \<le> max xs ys" by simp
  have len: "unat ?w * unat (bytes_per_pixel D) \<le> length buf"
    using w_le fill(3) sizes(4) by (simp only: mult_le_mono1)
  have row: "\<forall>i<unat ?w. pixel_at (unat (bytes_per_pixel D)) i buf = encode D v" using fill(4) w_le by auto
  let ?d = "fill_rectangle_lines A ?x ?w (bytes_per_pixel D) (min (unat (y + height)) ys) (min (unat y) ys) buf d"
  have "fill_rectangle a A c x y width height D d = Inr (set_buffer D buf, ?d)"
    using v fill(1,2) by (simp add: fill_rectangle_def Let_def clip_y [OF ok])
  moreover have "pix ?d i j =
      (if unat ?x \<le> i \<and> i < unat ?x + unat ?w \<and> min (unat y) ys \<le> j \<and> j < min (unat (y + height)) ys
       then encode D v else pix d i j)" for i j
    using bytes_per_pixel_le
    by (intro fill_rectangle_lines_pixels [OF laws refl _ inside _ sizes(3) len row]) simp_all
  ultimately show ?thesis
    using display_ok_set_buffer [OF ok fill(3)] unfolding x w Let_def by blast
qed

text \<open>
  C13: \<open>fill_rectangle\<close> with its corner on the screen and arguments that fit 16 bits paints exactly
  the part of the rectangle that lies on the screen, in the colour asked for, and nothing else; the
  line buffer is never overrun and the display stays usable.
\<close>

theorem fill_rectangle_clips:
  assumes "display_laws A xs ys (unat (bytes_per_pixel D)) pix" and "display_ok xs ys D"
    and "get_color_value a (pixel_format_of D) c = Inr v"
    and "unat x < xs" and "unat width < 65536" and "unat y + unat height < 4294967296"
  shows "\<exists>D' d'. fill_rectangle a A c x y width height D d = Inr (D', d') \<and> display_ok xs ys D' \<and>
    (\<forall>i j. i < xs \<and> j < ys \<longrightarrow> pix d' i j =
      (if unat x \<le> i \<and> i < unat x + unat width \<and> unat y \<le> j \<and> j < unat y + unat height
       then encode D v else pix d i j)) \<and>
    (\<forall>i j. \<not> (i < xs \<and> j < ys) \<longrightarrow> pix d' i j = pix d i j)"
proof -
  have xs: "xs < 65536" using assms(2) by (simp add: display_ok_def)
  have casts: "unat (ucast x :: u16) = unat x" "unat (ucast width :: u16) = unat width"
    using assms(4,5) xs by (simp_all add: unat_ucast_32_16)
  have "unat y + unat height < 2 ^ LENGTH(32)" using assms(6) by simp
  then have sum: "unat (y + height) = unat y + unat height" using unat_add_lem [of y height] by simp
  have x: "min (unat x) (xs - 1) = unat x" using assms(4) by simp
  obtain D' d' where *: "fill_rectangle a A c x y width height D d = Inr (D', d')" "display_ok xs ys D'"
    "\<forall>i j. pix d' i j =
      (if unat x \<le> i \<and> i < unat x + min (unat width) (xs - unat x) \<and> min (unat y) ys \<le> j \<and>
          j < min (unat y + unat height) ys
       then encode D v else pix d i j)"
    using fill_rectangle_pixels [OF assms(1-3), of x y width height d] unfolding casts sum x Let_def by blast
  show ?thesis
    by (intro exI [of _ D'] exI [of _ d'] conjI allI impI *(1,2)) (auto simp: *(3))
qed

definition demo_device :: "(nat \<Rightarrow> nat \<Rightarrow> u8 list) display_api" where
  "demo_device =
     \<lparr>device_is_ready = (\<lambda>_. True),
      display_get_capabilities = (\<lambda>_. \<lparr>x_resolution = 8, y_resolution = 6,
        current_pixel_format = PIXEL_FORMAT_RGB_888, current_orientation = Orientation_normal\<rparr>),
      display_write = (\<lambda>x y b buf d. (0, \<lambda>i j.
        if unat x \<le> i \<and> i < unat x + unat (desc_width b) \<and> unat y \<le> j \<and> j < unat y + unat (desc_height b)
        then pixel_at 3 ((j - unat y) * unat (pitch b) + (i - unat x)) buf else d i j)),
      display_blanking_off = (\<lambda>d. (0, d)),
      k_heap_alloc = (\<lambda>n d. (Some (replicate n 0), d))\<rparr>"

definition demo_display :: display where
  "demo_display = Display_ctor\<lparr>lcd_xsize := 8, lcd_ysize := 6, line_buffer_size := 24,
     line_buffer := Some (replicate 24 0), fill_color_function := Some fill_color_rgb888,
     fill_line_function := Some fill_line_rgb888\<rparr>"

lemma demo_display_sel [simp]:
  "unat (bytes_per_pixel demo_display) = 3" "pixel_format_of demo_display = PIXEL_FORMAT_RGB_888"
  "unat (lcd_xsize demo_display) = 8" "unat (lcd_ysize demo_display) = 6" "encode demo_display = encode_rgb888"
  by (simp_all add: demo_display_def Display_ctor_def bytes_per_pixel_def pixel_format_of_def encode_def)

lemma demo_device_laws [simp]: "display_laws demo_device 8 6 3 (\<lambda>d. d)"
  by (simp add: display_laws_def demo_device_def)

lemma demo_display_ok [simp]: "display_ok 8 6 demo_display"
  by (simp add: display_ok_def) (simp add: demo_display_def Display_ctor_def)

lemma demo_laws_bpp: "display_laws demo_device 8 6 (unat (bytes_per_pixel demo_display)) (\<lambda>d. d)"
  by simp

lemma demo_colors [simp]:
  "get_color_value a (pixel_format_of demo_display) Green = Inr 0x00FF00"
  "get_color_value a (pixel_format_of demo_display) Blue = Inr 0x0000FF"
  by (simp_all add: kRGB8888Colors_def)

lemma encode_green [simp]: "encode_rgb888 0x00FF00 = [0, 255, 0]"
  by (simp add: encode_rgb888_def byte_def)

theorem initialize_sets_up_witness:
  "\<exists>D' d'. initialize (\<lambda>_. 1) demo_device Display_ctor (\<lambda>_ _. []) = (ZephyrResult, D', d') \<and> display_ok 8 6 D'"
proof -
  obtain res D' d' where i: "initialize (\<lambda>_. 1) demo_device Display_ctor (\<lambda>_ _. []) = (res, D', d')"
    by (cases "initialize (\<lambda>_. 1) demo_device Display_ctor (\<lambda>_ _. [])") auto
  have "line_buffer D' \<noteq> None"
    using i by (auto simp: initialize_def demo_device_def Let_def)
  with initialize_sets_up [OF demo_device_laws refl _ _ i] i show ?thesis
    by (auto simp: demo_device_def)
qed

theorem fill_rectangle_clips_witness:
  "\<exists>D' d'. fill_rectangle True demo_device Green 6 4 5 5 demo_display (\<lambda>_ _. []) = Inr (D', d') \<and>
    d' 7 5 = [0, 255, 0] \<and> d' 5 5 = [] \<and> d' 8 5 = []"
proof -
  have pre: "unat (6 :: u32) < 8" "unat (5 :: u32) < 65536" "unat (4 :: u32) + unat (5 :: u32) < 4294967296" by simp_all
  show ?thesis
    by (rule exE [OF fill_rectangle_clips [OF demo_laws_bpp demo_display_ok demo_colors(1) pre]])
      (elim exE conjE, intro exI conjI, assumption, simp_all)
qed

text \<open>
  A rectangle whose left edge lies beyond the right border is not invisible: its corner is moved
  to the last column, which is painted in the rows of the rectangle.
\<close>

theorem fill_rectangle_beyond_border:
  assumes "display_laws A xs ys (unat (bytes_per_pixel D)) pix" and "display_ok xs ys D"
    and "get_color_value a (pixel_format_of D) c = Inr v"
    and "xs \<le> unat x" and "unat x < 65536" and "unat width < 65536" and "0 < unat width"
    and "unat y + unat height < 4294967296"
  shows "\<exists>D' d'. fill_rectangle a A c x y width height D d = Inr (D', d') \<and>
    (\<forall>j. unat y \<le> j \<and> j < unat y + unat height \<and> j < ys \<longrightarrow> pix d' (xs - 1) j = encode D v) \<and>
    (\<forall>i j. i < xs - 1 \<longrightarrow> pix d' i j = pix d i j)"
proof -
  have casts: "unat (ucast x :: u16) = unat x" "unat (ucast width :: u16) = unat width"
    using assms(5,6) by (simp_all add: unat_ucast_32_16)
  have "unat y + unat height < 2 ^ LENGTH(32)" using assms(8) by simp
  then have sum: "unat (y + height) = unat y + unat height" using unat_add_lem [of y height] by simp
  have pos: "0 < xs" using assms(2) by (simp add: display_ok_def)
  then have x: "min (unat x) (xs - 1) = xs - 1" and w: "min (unat width) (xs - (xs - 1)) = 1"
    using assms(4,7) by auto
  obtain D' d' where *: "fill_rectangle a A c x y width height D d = Inr (D', d')"
    "\<forall>i j. pix d' i j =
      (if xs - 1 \<le> i \<and> i < xs - 1 + 1 \<and> min (unat y) ys \<le> j \<and> j < min (unat y + unat height) ys
       then encode D v else pix d i j)"
    using fill_rectangle_pixels [OF assms(1-3), of x y width height d] unfolding casts sum x w Let_def by blast
  show ?thesis
    by (intro exI [of _ D'] exI [of _ d'] conjI allI impI *(1)) (use pos in \<open>auto simp: *(2)\<close>)
qed

theorem fill_rectangle_beyond_border_witness:
  "\<exists>D' d'. fill_rectangle True demo_device Green 100 4 5 5 demo_display (\<lambda>_ _. []) = Inr (D', d') \<and> d' 7 5 = [0, 255, 0]"
proof -
  have pre: "8 \<le> unat (100 :: u32)" "unat (100 :: u32) < 65536" "unat (5 :: u32) < 65536" "0 < unat (5 :: u32)"
    "unat (4 :: u32) + unat (5 :: u32) < 4294967296" by simp_all
  show ?thesis
    by (rule exE [OF fill_rectangle_beyond_border [OF demo_laws_bpp demo_display_ok demo_colors(1) pre]])
      (elim exE conjE, intro exI conjI, assumption, simp_all)
qed

text \<open>
  \<open>fill_display\<close> paints every pixel of the screen in the colour asked for.
\<close>

theorem fill_display_fills:
  assumes "display_laws A xs ys (unat (bytes_per_pixel D)) pix" and "display_ok xs ys D"
    and "get_color_value a (pixel_format_of D) c = Inr v"
  shows "\<exists>D' d'. fill_display a A c D d = Inr (D', d') \<and> display_ok xs ys D' \<and>
    (\<forall>i j. i < xs \<and> j < ys \<longrightarrow> pix d' i j = encode D v)"
proof -
  have s: "unat (lcd_xsize D) = xs" "unat (lcd_ysize D) = ys" "0 < xs" "xs < 65536" "ys < 65536"
    using assms(2) by (simp_all add: display_ok_def)
  have x: "unat (ucast (0 :: u32) :: u16) = 0" "unat (ucast (lcd_xsize D) :: u16) = xs"
    "unat (0 + lcd_ysize D) = ys" using s by (simp_all add: unat_ucast_32_16)
  obtain D' d' where *: "fill_rectangle a A c 0 0 (lcd_xsize D) (lcd_ysize D) D d = Inr (D', d')"
    "display_ok xs ys D'" "\<forall>i j. i < xs \<and> j < ys \<longrightarrow> pix d' i j = encode D v"
    using fill_rectangle_pixels [OF assms, of 0 0 "lcd_xsize D" "lcd_ysize D" d] unfolding x Let_def by fastforce
  have "pix (snd (display_blanking_off A d')) = pix d'" using assms(1) by (simp add: display_laws_def)
  with * show ?thesis by (simp add: fill_display_def split_beta)
qed

theorem fill_display_fills_witness:
  "\<exists>D' d'. fill_display True demo_device Green demo_display (\<lambda>_ _. []) = Inr (D', d') \<and> d' 3 2 = [0, 255, 0]"
  by (rule exE [OF fill_display_fills [OF demo_laws_bpp demo_display_ok demo_colors(1)]])
    (elim exE conjE, intro exI conjI, assumption, simp_all)

text \<open>The loop of the picture functions on a usable display: \<open>W\<close> by \<open>H\<close> pixels of \<open>src\<close> at \<open>(x, y)\<close>.\<close>

lemma picture_pixels:
  assumes laws: "display_laws A xs ys (unat (bytes_per_pixel D)) pix" and ok: "display_ok xs ys D"
    and w: "unat w = min W (xs - unat x)" and x: "unat x < xs" and src: "W * H \<le> length src"
  shows "\<exists>fill buf' d'. fill_line_function D = Some fill \<and>
    draw_lines A fill x w (bytes_per_pixel D) W src 0 (min (y + H) ys) (min y ys) (buffer D) d = Inr (buf', d') \<and>
    length buf' = unat (line_buffer_size D) \<and>
    (\<forall>i j. pix d' i j =
      (if unat x \<le> i \<and> i < min (unat x + W) xs \<and> y \<le> j \<and> j < min (y + H) ys
       then encode D (src ! ((j - y) * W + (i - unat x))) else pix d i j))"
proof -
  let ?first = "min y ys" and ?stop = "min (y + H) ys"
  have sizes: "xs < 65536" "ys < 65536" "unat (line_buffer_size D) = max xs ys * unat (bytes_per_pixel D)"
    and len: "length (buffer D) = unat (line_buffer_size D)"
    using ok by (auto simp: display_ok_def buffer_def)
  have inside: "unat x + unat w \<le> xs" unfolding w using x by simp
  have w_le: "unat w \<le> max xs ys" and w_W: "unat w \<le> W" unfolding w by auto
  obtain fill where fill: "fill_line_function D = Some fill"
    "\<forall>src pos n buf. length buf = unat (line_buffer_size D) \<longrightarrow> n \<le> max xs ys \<longrightarrow> pos + n \<le> length src \<longrightarrow>
      (\<exists>buf'. fill src pos n buf = Inr buf' \<and> length buf' = length buf \<and>
        (\<forall>i<n. pixel_at (unat (bytes_per_pixel D)) i buf' = encode D (src ! (pos + i))))"
    using display_ok_fill_line [OF ok] by blast
  have m: "unat w * unat (bytes_per_pixel D) \<le> unat (line_buffer_size D)"
    using w_le sizes(3) by (simp only: mult_le_mono1)
  have bound: "0 + (?stop - ?first - 1) * W + unat w \<le> length src" if "?first < ?stop"
  proof -
    have "?stop - ?first - 1 \<le> H - 1" using that by simp
    then have "(?stop - ?first - 1) * W \<le> (H - 1) * W" by (rule mult_le_mono1)
    moreover have "0 < H" using that by (cases H) simp_all
    then have "(H - 1) * W + W = H * W" by (cases H) simp_all
    ultimately show ?thesis using w_W src by (simp only: mult.commute [of W])
  qed
  obtain buf' d' where *: "draw_lines A fill x w (bytes_per_pixel D) W src 0 ?stop ?first (buffer D) d = Inr (buf', d')"
    "length buf' = unat (line_buffer_size D)"
    "\<forall>i j. pix d' i j = (if unat x \<le> i \<and> i < unat x + unat w \<and> ?first \<le> j \<and> j < ?stop
      then encode D (src ! (0 + (j - ?first) * W + (i - unat x))) else pix d i j)"
    using draw_lines_pixels [OF laws refl _ inside _ sizes(2), where m = "unat (line_buffer_size D)" and fill = fill
        and src = src and enc = "encode D" and stop = ?stop and line = ?first and pos = 0 and stride = W
        and buf = "buffer D" and d = d] fill(2) m len bytes_per_pixel_le w_le bound by fastforce
  have "pix d' i j =
      (if unat x \<le> i \<and> i < min (unat x + W) xs \<and> y \<le> j \<and> j < ?stop
       then encode D (src ! ((j - y) * W + (i - unat x))) else pix d i j)" for i j
    unfolding *(3) [rule_format, of i j] w by auto
  with fill(1) *(1,2) show ?thesis by blast
qed

text \<open>
  C17: \<open>draw_icon\<close> shows the picture, clipped at the right and bottom border: pixel \<open>(x + i, y + j)\<close> is
  element \<open>j * logo_width + i\<close> of the source for the part of the picture that lies on the screen; nothing
  else changes, no element outside the picture is read and the line buffer is never overrun. A picture
  that begins right of the screen is not skipped: its left column is painted into the last column of
  the screen, for \<open>x\<close> is clamped to \<open>_lcd_xsize - 1\<close>. One that begins below the screen changes nothing.
\<close>

theorem draw_icon_shows_picture:
  assumes "display_laws A xs ys (unat (bytes_per_pixel D)) pix" and "display_ok xs ys D"
    and "unat logo_width * unat logo_height \<le> length src" and "x1 = min (unat x) (xs - 1)"
  shows "\<exists>D' d'. draw_icon A x y src logo_width logo_height D d = Inr (D', d') \<and> display_ok xs ys D' \<and>
    (\<forall>i j. pix d' i j =
      (if x1 \<le> i \<and> i < min (x1 + unat logo_width) xs \<and> unat y \<le> j \<and> j < min (unat y + unat logo_height) ys
       then encode D (src ! ((j - unat y) * unat logo_width + (i - x1))) else pix d i j))"
proof -
  let ?x = "min16 (lcd_xsize D - 1) x"
  let ?w = "min16 (lcd_xsize D - ucast ?x) logo_width"
  have x: "unat ?x = x1" and w: "unat ?w = min (unat logo_width) (xs - x1)"
    using clip_x [OF assms(2), of x] by (simp_all add: assms(4))
  have x1: "x1 < xs" using assms(2,4) by (auto simp: display_ok_def)
  have sum: "unat (ucast y + ucast logo_height :: u32) = unat y + unat logo_height"
    using unat_u16_lt [of y] unat_u16_lt [of logo_height] by (subst unat_add_lem [THEN iffD1]) simp_all
  obtain fill buf' d' where *: "fill_line_function D = Some fill"
    "draw_lines A fill ?x ?w (bytes_per_pixel D) (unat logo_width) src 0 (min (unat y + unat logo_height) ys)
      (min (unat y) ys) (buffer D) d = Inr (buf', d')"
    "length buf' = unat (line_buffer_size D)"
    "\<forall>i j. pix d' i j =
      (if x1 \<le> i \<and> i < min (x1 + unat logo_width) xs \<and> unat y \<le> j \<and> j < min (unat y + unat logo_height) ys
       then encode D (src ! ((j - unat y) * unat logo_width + (i - x1))) else pix d i j)"
    using picture_pixels [OF assms(1,2), of ?w "unat logo_width" ?x "unat logo_height" src "unat y" d] x1 assms(3)
    unfolding x w by blast
  have "draw_icon A x y src logo_width logo_height D d = Inr (set_buffer D buf', d')"
    using *(1,2) by (simp add: draw_icon_def Let_def clip_y [OF assms(2)] sum)
  with *(4) display_ok_set_buffer [OF assms(2) *(3)] show ?thesis by blast
qed

theorem draw_icon_shows_picture_witness:
  "(\<exists>D' d'. draw_icon demo_device 6 5 (replicate 9 0x00FF00) 3 3 demo_display (\<lambda>_ _. []) = Inr (D', d') \<and>
    d' 7 5 = [0, 255, 0] \<and> d' 7 4 = []) \<and>
   (\<exists>D' d'. draw_icon demo_device 100 5 (replicate 9 0x00FF00) 3 3 demo_display (\<lambda>_ _. []) = Inr (D', d') \<and>
    d' 7 5 = [0, 255, 0] \<and> d' 6 5 = [])"
proof -
  have src: "unat (3 :: u16) * unat (3 :: u16) \<le> length (replicate 9 (0x00FF00 :: u32))" by simp
  note shown = draw_icon_shows_picture [OF demo_laws_bpp demo_display_ok src refl]
  show ?thesis
    by (rule conjI; rule exE [OF shown]) (elim exE conjE, intro exI conjI, assumption, simp_all)+
qed

text \<open>\<open>fill_rgb_rect\<close> is \<open>draw_icon\<close> with 32-bit coordinates.\<close>

lemma fill_rgb_rect_pixels:
  assumes "display_laws A xs ys (unat (bytes_per_pixel D)) pix" and "display_ok xs ys D"
    and "unat x < xs" and "unat width < 65536" and "unat y + unat height < 4294967296"
    and "unat width * unat height \<le> length src"
  shows "\<exists>buf' d'. fill_rgb_rect A x y src width height D d = Inr (set_buffer D buf', d') \<and>
    length buf' = unat (line_buffer_size D) \<and>
    (\<forall>i j. pix d' i j =
      (if unat x \<le> i \<and> i < min (unat x + unat width) xs \<and> unat y \<le> j \<and> j < min (unat y + unat height) ys
       then encode D (src ! ((j - unat y) * unat width + (i - unat x))) else pix d i j))"
proof -
  let ?x = "min16 (lcd_xsize D - 1) (ucast x)"
  let ?w = "min16 (lcd_xsize D - ucast ?x) (ucast width)"
  have "xs < 65536" using assms(2) by (simp add: display_ok_def)
  then have casts: "unat (ucast x :: u16) = unat x" "unat (ucast width :: u16) = unat width"
    using assms(3,4) by (simp_all add: unat_ucast_32_16)
  then have x: "unat ?x = unat x" and w: "unat ?w = min (unat width) (xs - unat x)"
    using clip_x [OF assms(2), of "ucast x"] assms(3) by simp_all
  have "unat y + unat height < 2 ^ LENGTH(32)" using assms(5) by simp
  then have sum: "unat (y + height) = unat y + unat height" using unat_add_lem [of y height] by simp
  obtain fill buf' d' where *: "fill_line_function D = Some fill"
    "draw_lines A fill ?x ?w (bytes_per_pixel D) (unat width) src 0 (min (unat y + unat height) ys)
      (min (unat y) ys) (buffer D) d = Inr (buf', d')"
    "length buf' = unat (line_buffer_size D)"
    "\<forall>i j. pix d' i j =
      (if unat x \<le> i \<and> i < min (unat x + unat width) xs \<and> unat y \<le> j \<and> j < min (unat y + unat height) ys
       then encode D (src ! ((j - unat y) * unat width + (i - unat x))) else pix d i j)"
    using picture_pixels [OF assms(1,2), of ?w "unat width" ?x "unat height" src "unat y" d] assms(3,6)
    unfolding x w by blast
  have "fill_rgb_rect A x y src width height D d = Inr (set_buffer D buf', d')"
    using *(1,2) by (simp add: fill_rgb_rect_def Let_def clip_y [OF assms(2)] sum)
  with *(3,4) show ?thesis by blast
qed

end
