(* ===== verification/Display_Text.thy ===== *)
theory Display_Text
  imports Display_Class
begin

text \<open>
  The text functions of \<open>zpp_lib::Display\<close> (src/zpp_drivers/display.cpp): font lookup, widths,
  characters and strings. A \<open>std::string\<close> is its list of bytes; \<open>char_signed\<close> says whether
  \<open>char\<close> is signed on the target (it is on x86, not on ARM). A pointer into the font table is the
  index of the byte it points at.
\<close>

unbundle bit_operations_syntax

section \<open>Fonts\<close>

fun get_char_width_from :: "font_char_info list \<Rightarrow> u32 \<Rightarrow> u8" where
  "get_char_width_from [] u = 0"
| "get_char_width_from (c # cs) u = (if unicode c = u then char_width c else get_char_width_from cs u)"

fun font_get_glyph_from :: "font_char_info list \<Rightarrow> u32 \<Rightarrow> (nat \<times> u8) option" where
  "font_get_glyph_from [] u = None"
| "font_get_glyph_from (c # cs) u =
     (if unicode c = u then Some (unat (char_offset c), char_width c) else font_get_glyph_from cs u)"

text \<open>\<open>ZPP_ASSERT(p_font != nullptr)\<close>, then the font is dereferenced.\<close>

definition with_font :: "bool \<Rightarrow> font option \<Rightarrow> (font \<Rightarrow> 'r run) \<Rightarrow> 'r run" where
  "with_font a pf f = bindR (ZPP_ASSERT a (pf \<noteq> None)) (\<lambda>_. case pf of None \<Rightarrow> Inl Undef | Some ft \<Rightarrow> f ft)"

definition get_char_width :: "bool \<Rightarrow> font option \<Rightarrow> u32 \<Rightarrow> u8 run" where
  "get_char_width a pf u = with_font a pf (\<lambda>ft. Inr (get_char_width_from (font_chars ft) u))"

definition font_get_glyph :: "bool \<Rightarrow> font option \<Rightarrow> u32 \<Rightarrow> (nat \<times> u8) option run" where
  "font_get_glyph a pf u = with_font a pf (\<lambda>ft. Inr (font_get_glyph_from (font_chars ft) u))"

definition set_font :: "font option \<Rightarrow> display \<Rightarrow> display" where
  "set_font pf D = D\<lparr>p_font := pf\<rparr>"

definition get_font :: "display \<Rightarrow> font option" where
  "get_font D = p_font D"

definition char_to_u32 :: "bool \<Rightarrow> u8 \<Rightarrow> u32" where
  "char_to_u32 char_signed c = (if char_signed then scast c else ucast c)"

fun string_width_from :: "bool \<Rightarrow> bool \<Rightarrow> font option \<Rightarrow> u8 list \<Rightarrow> u16 \<Rightarrow> u16 run" where
  "string_width_from a char_signed pf [] string_width = Inr string_width"
| "string_width_from a char_signed pf (c # cs) string_width =
     bindR (get_char_width a pf (char_to_u32 char_signed c)) (\<lambda>w.
       string_width_from a char_signed pf cs (string_width + ucast w))"

definition get_string_width :: "bool \<Rightarrow> bool \<Rightarrow> u8 list \<Rightarrow> display \<Rightarrow> u16 run" where
  "get_string_width a char_signed text D =
     bindR (ZPP_ASSERT a (p_font D \<noteq> None)) (\<lambda>_. string_width_from a char_signed (p_font D) text 0)"

definition compute_ypos_from_line_number :: "u32 \<Rightarrow> display \<Rightarrow> u32 run" where
  "compute_ypos_from_line_number line D =
     (case get_font D of None \<Rightarrow> Inl Undef | Some ft \<Rightarrow> Inr (line * ucast (font_height ft)))"

section \<open>Characters\<close>

definition kMaxCharWidth :: nat where
  "kMaxCharWidth = 48"

text \<open>The bytes of one row of a glyph, the first one most significant.\<close>

function glyph_line :: "u8 list \<Rightarrow> nat \<Rightarrow> nat \<Rightarrow> nat \<Rightarrow> u64 \<Rightarrow> u64 run" where
  "glyph_line table p_char j n line =
     (if j < n then
        if p_char + j < length table
        then glyph_line table p_char (j + 1) n (push_bit 8 line OR ucast (table ! (p_char + j)))
        else Inl Undef
      else Inr line)"
  by pat_completeness auto
termination
  by (relation "measure (\<lambda>(table, p_char, j, n, line). n - j)") simp_all

declare glyph_line.simps [simp del]

text \<open>The array of one row of pixels; it has \<open>kMaxCharWidth\<close> elements.\<close>

function char_row :: "bool \<Rightarrow> color \<Rightarrow> display \<Rightarrow> nat \<Rightarrow> nat \<Rightarrow> u64 \<Rightarrow> nat \<Rightarrow> u32 list \<Rightarrow> u32 list run" where
  "char_row a c D w offset line j argb8888 =
     (if j < w then
        let bit_in_pixel = push_bit (w - j + offset - 1) 1 in
        bindR (if line AND bit_in_pixel \<noteq> 0 then get_color_value a (pixel_format_of D) c
               else Inr (background_color_value D)) (\<lambda>v.
        if j < length argb8888 then char_row a c D w offset line (j + 1) (argb8888[j := v]) else Inl Undef)
      else Inr argb8888)"
  by pat_completeness auto
termination
  by (relation "measure (\<lambda>(a, c, D, w, offset, line, j, arr). w - j)") simp_all

declare char_row.simps [simp del]

function char_rows ::
  "bool \<Rightarrow> 'd display_api \<Rightarrow> color \<Rightarrow> font \<Rightarrow> nat \<Rightarrow> u8 \<Rightarrow> u32 \<Rightarrow> u32 \<Rightarrow> nat \<Rightarrow> display \<Rightarrow> 'd \<Rightarrow> (display \<times> 'd) run" where
  "char_rows a A c ft p_data w x_pos y_pos i D d =
     (if i < unat (font_height ft) then
        let offset = 8 * ((unat w + 7) div 8) - unat w;
            nbr_of_bytes_per_line = (unat w + 7) div 8 in
        bindR (glyph_line (font_table ft) (p_data + nbr_of_bytes_per_line * i) 0 nbr_of_bytes_per_line 0) (\<lambda>line.
        if pixel_format_of D = PIXEL_FORMAT_ARGB_8888 \<or> pixel_format_of D = PIXEL_FORMAT_RGB_888 then
          bindR (char_row a c D (unat w) offset line 0 (replicate kMaxCharWidth 0)) (\<lambda>argb8888.
          bindR (fill_rgb_rect A x_pos y_pos argb8888 (ucast w) 1 D d) (\<lambda>(D', d').
          char_rows a A c ft p_data w x_pos (y_pos + 1) (i + 1) D' d'))
        else
          bindR (ZPP_ASSERT a False) (\<lambda>_. char_rows a A c ft p_data w x_pos y_pos (i + 1) D d))
      else Inr (D, d))"
  by pat_completeness auto
termination
  by (relation "measure (\<lambda>(a, A, c, ft, p_data, w, x_pos, y_pos, i, D, d). unat (font_height ft) - i)") auto

declare char_rows.simps [simp del]

definition display_char ::
  "bool \<Rightarrow> 'd display_api \<Rightarrow> color \<Rightarrow> u32 \<Rightarrow> u32 \<Rightarrow> u32 \<Rightarrow> display \<Rightarrow> 'd \<Rightarrow> (display \<times> 'd) run" where
  "display_char a A c x_pos y_pos u D d =
     with_font a (p_font D) (\<lambda>ft.
       bindR (font_get_glyph a (p_font D) u) (\<lambda>g.
       case g of
         None \<Rightarrow> Inr (D, d)
       | Some (p_data, w) \<Rightarrow>
           bindR (ZPP_ASSERT a (unat w < kMaxCharWidth)) (\<lambda>_. char_rows a A c ft p_data w x_pos y_pos 0 D d)))"

section \<open>Strings\<close>

fun draw_chars ::
  "bool \<Rightarrow> 'd display_api \<Rightarrow> color \<Rightarrow> u32 \<Rightarrow> u8 list \<Rightarrow> u32 \<Rightarrow> u32 \<Rightarrow> display \<Rightarrow> 'd \<Rightarrow> (display \<times> 'd) run" where
  "draw_chars a A c y_pos [] total_width refcolumn D d = Inr (D, d)"
| "draw_chars a A c y_pos (ch # cs) total_width refcolumn D d =
     bindR (get_char_width a (p_font D) (ucast ch)) (\<lambda>w.
     let total_width' = total_width + ucast w in
     if total_width' > lcd_xsize D then Inr (D, d)
     else bindR (display_char a A c refcolumn y_pos (ucast ch) D d) (\<lambda>(D', d').
       draw_chars a A c y_pos cs total_width' (refcolumn + ucast w) D' d'))"

definition draw_string_at ::
  "bool \<Rightarrow> 'd display_api \<Rightarrow> color \<Rightarrow> u32 \<Rightarrow> u32 \<Rightarrow> u8 list \<Rightarrow> display \<Rightarrow> 'd \<Rightarrow> (display \<times> 'd) run" where
  "draw_string_at a A c x_pos y_pos text D d =
     bindR (ZPP_ASSERT a (p_font D \<noteq> None)) (\<lambda>_.
     let refcolumn = (if x_pos < 1 \<or> 0x8000 \<le> x_pos then 1 else x_pos) in
     draw_chars a A c y_pos text refcolumn refcolumn D d)"

datatype align_mode = Center | Right | Left

definition draw_string_at_line ::
  "bool \<Rightarrow> bool \<Rightarrow> 'd display_api \<Rightarrow> color \<Rightarrow> u32 \<Rightarrow> u8 list \<Rightarrow> align_mode \<Rightarrow> display \<Rightarrow> 'd \<Rightarrow> (display \<times> 'd) run" where
  "draw_string_at_line a char_signed A c line text mode D d =
     bindR (get_string_width a char_signed text D) (\<lambda>nbr_of_pixels.
     let x_pos = (case mode of
           Center \<Rightarrow> get_width D div 2 - ucast nbr_of_pixels div 2
         | Left \<Rightarrow> 0
         | Right \<Rightarrow> get_width D - ucast nbr_of_pixels) in
     bindR (compute_ypos_from_line_number line D) (\<lambda>y_pos. draw_string_at a A c x_pos y_pos text D d))"

section \<open>Glyphs\<close>

text \<open>
  Pixel \<open>k\<close> of row \<open>i\<close> of a glyph of width \<open>w\<close> at \<open>p_data\<close>: rows are padded to whole bytes and the
  leftmost pixel is the most significant bit of the first byte.
\<close>

definition glyph_pixel :: "font \<Rightarrow> nat \<Rightarrow> nat \<Rightarrow> nat \<Rightarrow> nat \<Rightarrow> bool" where
  "glyph_pixel ft p_data w i k =
     bit (font_table ft ! (p_data + (w + 7) div 8 * i + k div 8)) (7 - k mod 8)"

lemma glyph_line_bits:
  "n \<le> 8 \<Longrightarrow> j \<le> n \<Longrightarrow> p_char + n \<le> length table \<Longrightarrow>
    \<exists>l. glyph_line table p_char j n acc = Inr l \<and>
      (\<forall>k<8 * (n - j). bit l (8 * (n - j) - 1 - k) = bit (table ! (p_char + j + k div 8)) (7 - k mod 8)) \<and>
      (\<forall>m. 8 * (n - j) + m < 64 \<longrightarrow> bit l (8 * (n - j) + m) = bit acc m)"
proof (induction "n - j" arbitrary: j acc)
  case 0
  then show ?case by (simp add: glyph_line.simps)
next
  case (Suc r)
  let ?b = "table ! (p_char + j)"
  let ?acc = "push_bit 8 acc OR ucast ?b"
  have less: "j < n" and r: "r = n - Suc j" using Suc.hyps(2) by simp_all
  obtain l where l: "glyph_line table p_char (Suc j) n ?acc = Inr l"
    "\<forall>k<8 * r. bit l (8 * r - 1 - k) = bit (table ! (p_char + Suc j + k div 8)) (7 - k mod 8)"
    "\<forall>m. 8 * r + m < 64 \<longrightarrow> bit l (8 * r + m) = bit ?acc m"
    using Suc.hyps(1) [OF r, of ?acc] Suc.prems less unfolding r by auto
  have nj: "n - j = Suc r" "Suc r \<le> 8" using Suc.hyps(2) Suc.prems(1) by simp_all
  have step: "glyph_line table p_char j n acc = Inr l"
    using less Suc.prems(3) l(1) by (subst glyph_line.simps) simp
  have "bit l (8 * Suc r - 1 - k) = bit (table ! (p_char + j + k div 8)) (7 - k mod 8)" if k: "k < 8 * Suc r" for k
  proof (cases "k < 8")
    case True
    then have pos: "8 * Suc r - 1 - k = 8 * r + (7 - k)" "8 * r + (7 - k) < 64" using nj by simp_all
    have "bit l (8 * r + (7 - k)) = bit ?acc (7 - k)" using l(3) pos(2) by blast
    also have "\<dots> = bit ?b (7 - k)" using True by (auto simp: bit_simps)
    finally show ?thesis using True by (simp only: pos(1)) simp
  next
    case False
    then obtain m where m: "k = m + 8" by (metis add.commute le_Suc_ex not_less)
    then have "m < 8 * r" "8 * Suc r - 1 - k = 8 * r - 1 - m" using k by simp_all
    moreover have "k div 8 = Suc (m div 8)" "k mod 8 = m mod 8" using m by simp_all
    ultimately show ?thesis using l(2) by simp
  qed
  moreover have "bit l (8 * Suc r + m) = bit acc m" if "8 * Suc r + m < 64" for m
  proof -
    have "8 * r + (8 + m) < 64" using that by simp
    then have "bit l (8 * r + (8 + m)) = bit ?acc (8 + m)" using l(3) by blast
    also have "\<dots> = bit acc m" using that bit_imp_le_length [of ?b "8 + m"] by (auto simp: bit_simps)
    finally show ?thesis by (simp add: add.assoc add.left_commute)
  qed
  ultimately show ?case using step unfolding nj(1) by blast
qed

lemma char_row_values:
  assumes v: "get_color_value a (pixel_format_of D) c = Inr v" and w: "w \<le> length arr"
  shows "j \<le> w \<Longrightarrow> \<exists>arr'. char_row a c D w offset line j arr = Inr arr' \<and> length arr' = length arr \<and>
    (\<forall>k<j. arr' ! k = arr ! k) \<and>
    (\<forall>k. j \<le> k \<and> k < w \<longrightarrow> arr' ! k = (if bit line (w - k + offset - 1) then v else background_color_value D))"
  using w
proof (induction "w - j" arbitrary: j arr)
  case 0
  then show ?case by (auto simp: char_row.simps)
next
  case (Suc n)
  let ?x = "if bit line (w - j + offset - 1) then v else background_color_value D"
  have less: "j < w" "n = w - Suc j" using Suc.hyps(2) by simp_all
  have step: "char_row a c D w offset line j arr = char_row a c D w offset line (Suc j) (arr[j := ?x])"
    using less(1) Suc.prems(2) v
    by (subst char_row.simps) (simp add: Let_def bit_iff_and_push_bit_not_eq_0)
  obtain arr' where "char_row a c D w offset line (Suc j) (arr[j := ?x]) = Inr arr'" "length arr' = length arr"
    "\<forall>k<Suc j. arr' ! k = arr[j := ?x] ! k"
    "\<forall>k. Suc j \<le> k \<and> k < w \<longrightarrow> arr' ! k = (if bit line (w - k + offset - 1) then v else background_color_value D)"
    using Suc.hyps(1) [OF less(2), of "arr[j := ?x]"] less(1) Suc.prems(2) by auto
  moreover from this have "arr' ! k = (if bit line (w - k + offset - 1) then v else background_color_value D)"
    if "j \<le> k \<and> k < w" for k
    using that less(1) Suc.prems(2) by (cases "k = j") auto
  ultimately show ?case using step by (intro exI [of _ arr']) auto
qed

lemma set_buffer_same:
  "pixel_format_of (set_buffer D buf) = pixel_format_of D" "p_font (set_buffer D buf) = p_font D"
  "background_color_value (set_buffer D buf) = background_color_value D"
  "bytes_per_pixel (set_buffer D buf) = bytes_per_pixel D" "encode (set_buffer D buf) = encode D"
  "lcd_xsize (set_buffer D buf) = lcd_xsize D"
  by (cases "line_buffer D"; simp add: set_buffer_def pixel_format_of_def bytes_per_pixel_def encode_def)+

lemma char_rows_pixels:
  assumes v: "get_color_value a (pixel_format_of D) c = Inr v"
    and w: "0 < unat w" "unat w < kMaxCharWidth" and x: "unat x + unat w \<le> xs"
    and table: "p_data + (unat w + 7) div 8 * unat (font_height ft) \<le> length (font_table ft)"
  shows "display_laws A xs ys (unat (bytes_per_pixel D)) pix \<Longrightarrow> display_ok xs ys D \<Longrightarrow>
    i \<le> unat (font_height ft) \<Longrightarrow> unat y + (unat (font_height ft) - i) \<le> ys \<Longrightarrow>
    \<exists>buf d'. char_rows a A c ft p_data w x y i D d = Inr (set_buffer D buf, d') \<and>
      length buf = unat (line_buffer_size D) \<and>
      (\<forall>I J. pix d' I J =
        (if unat x \<le> I \<and> I < unat x + unat w \<and> unat y \<le> J \<and> J < unat y + (unat (font_height ft) - i)
         then encode D (if glyph_pixel ft p_data (unat w) (i + (J - unat y)) (I - unat x) then v
           else background_color_value D) else pix d I J))"
  using v
proof (induction "unat (font_height ft) - i" arbitrary: i y D d)
  case 0
  obtain buf where buf: "line_buffer D = Some buf" "length buf = unat (line_buffer_size D)"
    using 0(3) by (auto simp: display_ok_def)
  then have "set_buffer D buf = D" by (simp add: set_buffer_def)
  moreover have "char_rows a A c ft p_data w x y i D d = Inr (D, d)" using 0(1) by (simp add: char_rows.simps)
  ultimately show ?case using 0(1) buf(2) by (intro exI [of _ buf] exI [of _ d]) auto
next
  case (Suc r)
  let ?H = "unat (font_height ft)" and ?n = "(unat w + 7) div 8" and ?bg = "background_color_value D"
  let ?offset = "8 * ?n - unat w"
  have less: "i < ?H" "r = ?H - Suc i" using Suc.hyps(2) by simp_all
  have n8: "?n \<le> 8" and w8: "unat w \<le> 8 * ?n" using w(2) by (simp_all add: kMaxCharWidth_def)
  have "?n * Suc i \<le> ?n * ?H" using less(1) by (intro mult_le_mono2) simp
  then have row_in: "p_data + ?n * i + ?n \<le> length (font_table ft)" using table by simp
  obtain l where l: "glyph_line (font_table ft) (p_data + ?n * i) 0 ?n 0 = Inr l"
    "\<forall>k<8 * ?n. bit l (8 * ?n - 1 - k) = bit (font_table ft ! (p_data + ?n * i + k div 8)) (7 - k mod 8)"
    using glyph_line_bits [OF n8 _ row_in, of 0 0] by auto
  obtain arr where arr: "char_row a c D (unat w) ?offset l 0 (replicate kMaxCharWidth 0) = Inr arr"
    "length arr = kMaxCharWidth"
    "\<forall>k<unat w. arr ! k = (if bit l (unat w - k + ?offset - 1) then v else ?bg)"
    using char_row_values [OF Suc.prems(5), of "unat w" "replicate kMaxCharWidth 0" 0 ?offset l] w(2) by auto
  have arr_k: "arr ! k = (if glyph_pixel ft p_data (unat w) i k then v else ?bg)" if "k < unat w" for k
  proof -
    have "unat w - k + ?offset - 1 = 8 * ?n - 1 - k" "k < 8 * ?n" using that w8 by simp_all
    then show ?thesis using arr(3) that l(2) by (simp add: glyph_pixel_def)
  qed
  have ys: "ys < 65536" and xs: "unat x < xs" using Suc.prems(2) x w(1) by (simp_all add: display_ok_def)
  have cast: "unat (ucast w :: u32) = unat w" by simp
  have pre: "unat (ucast w :: u32) < 65536" "unat y + unat (1 :: u32) < 4294967296"
    "unat (ucast w :: u32) * unat (1 :: u32) \<le> length arr"
    using unat_u8_lt [of w] Suc.prems(4) ys less(1) arr(2) w(2) by simp_all
  obtain buf1 d1 where d1: "fill_rgb_rect A x y arr (ucast w) 1 D d = Inr (set_buffer D buf1, d1)"
    "length buf1 = unat (line_buffer_size D)"
    "\<forall>I J. pix d1 I J =
      (if unat x \<le> I \<and> I < min (unat x + unat w) xs \<and> unat y \<le> J \<and> J < min (unat y + 1) ys
       then encode D (arr ! ((J - unat y) * unat w + (I - unat x))) else pix d I J)"
    using fill_rgb_rect_pixels [OF Suc.prems(1,2) xs pre, of d] by auto
  let ?D = "set_buffer D buf1"
  have row: "pix d1 I J = (if unat x \<le> I \<and> I < unat x + unat w \<and> J = unat y
    then encode D (if glyph_pixel ft p_data (unat w) i (I - unat x) then v else ?bg) else pix d I J)" for I J
    using d1(3) [rule_format, of I J] arr_k [of "I - unat x"] x Suc.prems(4) less(1) by auto
  have step: "char_rows a A c ft p_data w x y i D d = char_rows a A c ft p_data w x (y + 1) (Suc i) ?D d1"
    using less(1) l(1) arr(1) d1(1) Suc.prems(2)
    by (subst char_rows.simps) (auto simp: Let_def display_ok_def)
  have y1: "unat (y + 1) = Suc (unat y)" using pre(2) unat_add_lem [of y 1] by simp
  have old: "line_buffer D \<noteq> None" using Suc.prems(2) by (auto simp: display_ok_def)
  have ok1: "display_ok xs ys ?D" using display_ok_set_buffer [OF Suc.prems(2) d1(2)] .
  have size: "line_buffer_size ?D = line_buffer_size D" using old by (auto simp: set_buffer_def)
  have laws1: "display_laws A xs ys (unat (bytes_per_pixel ?D)) pix"
    and v1: "get_color_value a (pixel_format_of ?D) c = Inr v"
    and i1: "Suc i \<le> ?H" and ys1: "unat (y + 1) + (?H - Suc i) \<le> ys"
    using Suc.prems less(1) by (simp_all add: set_buffer_same y1)
  obtain buf d' where rec: "char_rows a A c ft p_data w x (y + 1) (Suc i) ?D d1 = Inr (set_buffer ?D buf, d')"
    "length buf = unat (line_buffer_size ?D)"
    "\<forall>I J. pix d' I J =
      (if unat x \<le> I \<and> I < unat x + unat w \<and> unat (y + 1) \<le> J \<and> J < unat (y + 1) + (?H - Suc i)
       then encode ?D (if glyph_pixel ft p_data (unat w) (Suc i + (J - unat (y + 1))) (I - unat x) then v
         else background_color_value ?D) else pix d1 I J)"
    using Suc.hyps(1) [OF less(2) laws1 ok1 i1 ys1 v1, of d1] by blast
  have "set_buffer ?D buf = set_buffer D buf" using old by (auto simp: set_buffer_def)
  moreover have "pix d' I J =
      (if unat x \<le> I \<and> I < unat x + unat w \<and> unat y \<le> J \<and> J < unat y + (?H - i)
       then encode D (if glyph_pixel ft p_data (unat w) (i + (J - unat y)) (I - unat x) then v else ?bg)
       else pix d I J)" for I J
  proof (cases "J = unat y")
    case True
    with rec(3) [rule_format, of I J] row [of I J] less(1) show ?thesis by (auto simp: y1)
  next
    case False
    have "Suc i + (J - Suc (unat y)) = i + (J - unat y)" if "Suc (unat y) \<le> J" using that by simp
    with False rec(3) [rule_format, of I J] row [of I J] less(1) show ?thesis
      by (auto simp: set_buffer_same y1)
  qed
  ultimately show ?case using step rec(1,2) size by auto
qed

section \<open>Properties\<close>

lemma display_char_pixels:
  assumes "display_laws A xs ys (unat (bytes_per_pixel D)) pix" and "display_ok xs ys D"
    and "get_color_value a (pixel_format_of D) c = Inr v" and "p_font D = Some ft"
    and "font_get_glyph_from (font_chars ft) u = Some (p_data, w)" and "0 < unat w" and "unat w < kMaxCharWidth"
    and "p_data + (unat w + 7) div 8 * unat (font_height ft) \<le> length (font_table ft)"
    and "unat x + unat w \<le> xs" and "unat y + unat (font_height ft) \<le> ys"
  shows "\<exists>buf d'. display_char a A c x y u D d = Inr (set_buffer D buf, d') \<and> length buf = unat (line_buffer_size D) \<and>
    (\<forall>I J. pix d' I J =
      (if unat x \<le> I \<and> I < unat x + unat w \<and> unat y \<le> J \<and> J < unat y + unat (font_height ft)
       then encode D (if glyph_pixel ft p_data (unat w) (J - unat y) (I - unat x) then v else background_color_value D)
       else pix d I J))"
proof -
  obtain buf d' where *: "char_rows a A c ft p_data w x y 0 D d = Inr (set_buffer D buf, d')"
    "length buf = unat (line_buffer_size D)"
    "\<forall>I J. pix d' I J =
        (if unat x \<le> I \<and> I < unat x + unat w \<and> unat y \<le> J \<and> J < unat y + (unat (font_height ft) - 0)
         then encode D (if glyph_pixel ft p_data (unat w) (0 + (J - unat y)) (I - unat x) then v
           else background_color_value D) else pix d I J)"
    using char_rows_pixels [OF assms(3,6,7,9,8,1,2), of 0 y d] assms(10) by auto
  have "display_char a A c x y u D d = Inr (set_buffer D buf, d')"
    using *(1) assms(4,5,7) by (simp add: display_char_def with_font_def font_get_glyph_def)
  with * show ?thesis by auto
qed

text \<open>A font whose characters have between 1 and 47 columns and lie inside the table.\<close>

definition font_ok :: "font \<Rightarrow> bool" where
  "font_ok ft \<longleftrightarrow> (\<forall>ci\<in>set (font_chars ft). 0 < unat (char_width ci) \<and> unat (char_width ci) < kMaxCharWidth \<and>
     unat (char_offset ci) + (unat (char_width ci) + 7) div 8 * unat (font_height ft) \<le> length (font_table ft))"

lemma glyph_and_width:
  "font_get_glyph_from cs u = None \<Longrightarrow> get_char_width_from cs u = 0"
  "font_get_glyph_from cs u = Some (p_data, w) \<Longrightarrow>
    get_char_width_from cs u = w \<and> (\<exists>ci\<in>set cs. p_data = unat (char_offset ci) \<and> w = char_width ci)"
  by (induction cs) (auto split: if_splits)

definition text_width :: "font \<Rightarrow> u8 list \<Rightarrow> nat" where
  "text_width ft s = sum_list (map (\<lambda>ch. unat (get_char_width_from (font_chars ft) (ucast ch))) s)"

text \<open>One character of a string: it is drawn in its cell, or, when the font has no glyph, nothing happens.\<close>

lemma display_char_cell:
  assumes laws: "display_laws A xs ys (unat (bytes_per_pixel D)) pix" and ok: "display_ok xs ys D"
    and v: "get_color_value a (pixel_format_of D) c = Inr v" and ft: "p_font D = Some ft" "font_ok ft"
    and x: "unat x + unat (get_char_width_from (font_chars ft) u) \<le> xs" and y: "unat y + unat (font_height ft) \<le> ys"
  shows "\<exists>buf d'. display_char a A c x y u D d = Inr (set_buffer D buf, d') \<and> length buf = unat (line_buffer_size D) \<and>
    (\<forall>p_data w. font_get_glyph_from (font_chars ft) u = Some (p_data, w) \<longrightarrow>
      (\<forall>k<unat w. \<forall>i<unat (font_height ft). pix d' (unat x + k) (unat y + i) =
         encode D (if glyph_pixel ft p_data (unat w) i k then v else background_color_value D))) \<and>
    (\<forall>I J. \<not> (unat x \<le> I \<and> I < unat x + unat (get_char_width_from (font_chars ft) u) \<and>
        unat y \<le> J \<and> J < unat y + unat (font_height ft)) \<longrightarrow> pix d' I J = pix d I J)"
proof (cases "font_get_glyph_from (font_chars ft) u")
  case None
  obtain buf where buf: "line_buffer D = Some buf" "length buf = unat (line_buffer_size D)"
    using ok by (auto simp: display_ok_def)
  then have "set_buffer D buf = D" by (simp add: set_buffer_def)
  with None ft(1) buf(2) show ?thesis
    by (intro exI [of _ buf] exI [of _ d]) (simp add: display_char_def with_font_def font_get_glyph_def)
next
  case (Some g)
  obtain p_data w where g: "g = (p_data, w)" by (cases g)
  obtain ci where ci: "ci \<in> set (font_chars ft)" "p_data = unat (char_offset ci)" "w = char_width ci"
    "get_char_width_from (font_chars ft) u = w" using glyph_and_width(2) Some g by metis
  then have "0 < unat w" "unat w < kMaxCharWidth" "p_data + (unat w + 7) div 8 * unat (font_height ft) \<le> length (font_table ft)"
    using ft(2) by (auto simp: font_ok_def)
  from display_char_pixels [OF laws ok v ft(1) Some [unfolded g] this _ y, of x d] x ci(4) Some g show ?thesis by fastforce
qed

text \<open>
  A string from column \<open>col\<close> on: each character that the screen has room for, after those before it,
  is drawn as its glyph, and every pixel that no such prefix of the string reaches is left alone.
\<close>

lemma draw_chars_pixels:
  assumes laws: "display_laws A xs ys bpp pix" and ft: "font_ok ft" and y: "unat y + unat (font_height ft) \<le> ys"
  shows "display_ok xs ys D \<Longrightarrow> bpp = unat (bytes_per_pixel D) \<Longrightarrow> p_font D = Some ft \<Longrightarrow>
    get_color_value a (pixel_format_of D) c = Inr v \<Longrightarrow> unat col < 65536 \<Longrightarrow>
    \<exists>D' d'. draw_chars a A c y str col col D d = Inr (D', d') \<and> display_ok xs ys D' \<and>
      (\<forall>s ch cs p_data w k i. str = s @ ch # cs \<longrightarrow> font_get_glyph_from (font_chars ft) (ucast ch) = Some (p_data, w) \<longrightarrow>
         unat col + text_width ft (s @ [ch]) \<le> xs \<longrightarrow> k < unat w \<longrightarrow> i < unat (font_height ft) \<longrightarrow>
         pix d' (unat col + text_width ft s + k) (unat y + i) =
           encode D (if glyph_pixel ft p_data (unat w) i k then v else background_color_value D)) \<and>
      (\<forall>I J. (unat col \<le> I \<and> unat y \<le> J \<and> J < unat y + unat (font_height ft) \<and>
          (\<exists>s cs. str = s @ cs \<and> unat col + text_width ft s \<le> xs \<and> I < unat col + text_width ft s)) \<or>
        pix d' I J = pix d I J)"
proof (induction str arbitrary: col D d)
  case (Cons ch str)
  let ?w = "get_char_width_from (font_chars ft) (ucast ch)"
  have xs: "xs < 65536" "unat (lcd_xsize D) = xs" using Cons.prems(1) by (simp_all add: display_ok_def)
  have sum: "unat (col + ucast ?w) = unat col + unat ?w"
    using unat_add_lem [of col "ucast ?w :: u32"] Cons.prems(5) unat_u8_lt [of ?w] by simp
  have width: "get_char_width a (p_font D) (ucast ch) = Inr ?w"
    using Cons.prems(3) by (simp add: get_char_width_def with_font_def)
  show ?case
  proof (cases "lcd_xsize D < col + ucast ?w")
    case True
    then have "xs < unat col + unat ?w" using sum xs(2) by (simp add: word_less_nat_alt)
    then have full: "s = []" if "ch # str = s @ cs" "unat col + text_width ft s \<le> xs" for s cs
      using that by (cases s) (auto simp: text_width_def)
    have "xs < unat col + text_width ft (s @ [e])" if "ch # str = s @ e # cs" for s e cs
      using full [of "s @ [e]" cs] that by (intro not_le_imp_less notI) auto
    with True width Cons.prems(1) show ?thesis
      by (intro exI [of _ D] exI [of _ d]) (auto simp: Let_def not_le [symmetric])
  next
    case False
    then have fits: "unat col + unat ?w \<le> xs" using sum xs(2) by (simp add: word_less_nat_alt)
    obtain buf d1 where d1: "display_char a A c col y (ucast ch) D d = Inr (set_buffer D buf, d1)"
      "length buf = unat (line_buffer_size D)"
      "\<forall>p_data w. font_get_glyph_from (font_chars ft) (ucast ch) = Some (p_data, w) \<longrightarrow>
        (\<forall>k<unat w. \<forall>i<unat (font_height ft). pix d1 (unat col + k) (unat y + i) =
           encode D (if glyph_pixel ft p_data (unat w) i k then v else background_color_value D))"
      "\<forall>I J. \<not> (unat col \<le> I \<and> I < unat col + unat ?w \<and> unat y \<le> J \<and> J < unat y + unat (font_height ft)) \<longrightarrow>
        pix d1 I J = pix d I J"
      using display_char_cell [OF laws [unfolded Cons.prems(2)] Cons.prems(1,4,3) ft fits y] by blast
    have col': "unat (col + ucast ?w) < 65536" using fits sum xs(1) by simp
    have D1: "display_ok xs ys (set_buffer D buf)" "bpp = unat (bytes_per_pixel (set_buffer D buf))"
      "p_font (set_buffer D buf) = Some ft" "get_color_value a (pixel_format_of (set_buffer D buf)) c = Inr v"
      using display_ok_set_buffer [OF Cons.prems(1) d1(2)] Cons.prems(2-4) by (simp_all add: set_buffer_same)
    have cons: "text_width ft (ch # s) = unat ?w + text_width ft s" for s by (simp add: text_width_def)
    obtain D' d' where rec: "draw_chars a A c y str (col + ucast ?w) (col + ucast ?w) (set_buffer D buf) d1 = Inr (D', d')"
      "display_ok xs ys D'"
      and cells: "\<And>s e cs p_data w k i. str = s @ e # cs \<Longrightarrow> font_get_glyph_from (font_chars ft) (ucast e) = Some (p_data, w) \<Longrightarrow>
         unat col + text_width ft ((ch # s) @ [e]) \<le> xs \<Longrightarrow> k < unat w \<Longrightarrow> i < unat (font_height ft) \<Longrightarrow>
         pix d' (unat col + text_width ft (ch # s) + k) (unat y + i) =
           encode D (if glyph_pixel ft p_data (unat w) i k then v else background_color_value D)"
      and kept: "\<And>I J. (unat col + unat ?w \<le> I \<and> unat y \<le> J \<and> J < unat y + unat (font_height ft) \<and>
          (\<exists>s cs. str = s @ cs \<and> unat col + text_width ft (ch # s) \<le> xs \<and> I < unat col + text_width ft (ch # s))) \<or>
        pix d' I J = pix d1 I J"
      using Cons.IH [OF D1 col', of d1] unfolding sum set_buffer_same append_Cons cons add.assoc by blast
    have "draw_chars a A c y (ch # str) col col D d = Inr (D', d')"
      using False width d1(1) rec(1) by (simp add: Let_def)
    moreover have "pix d' (unat col + text_width ft s + k) (unat y + i) =
        encode D (if glyph_pixel ft p_data (unat w) i k then v else background_color_value D)"
      if cell: "ch # str = s @ e # cs" "font_get_glyph_from (font_chars ft) (ucast e) = Some (p_data, w)"
        "unat col + text_width ft (s @ [e]) \<le> xs" "k < unat w" "i < unat (font_height ft)" for s e cs p_data w k i
    proof (cases s)
      case Nil
      then have e: "font_get_glyph_from (font_chars ft) (ucast ch) = Some (p_data, w)" "?w = w"
        using cell(1,2) glyph_and_width(2) by auto
      then have "pix d' (unat col + k) (unat y + i) = pix d1 (unat col + k) (unat y + i)"
        using kept [of "unat col + k" "unat y + i"] cell(4) by auto
      with d1(3) e(1) cell(4,5) Nil show ?thesis by (simp add: text_width_def)
    next
      case (Cons h s')
      with cell(1) have "str = s' @ e # cs" "s = ch # s'" by simp_all
      with cells cell(2-5) show ?thesis by simp
    qed
    moreover have "(unat col \<le> I \<and> unat y \<le> J \<and> J < unat y + unat (font_height ft) \<and>
          (\<exists>s cs. ch # str = s @ cs \<and> unat col + text_width ft s \<le> xs \<and> I < unat col + text_width ft s)) \<or>
        pix d' I J = pix d I J" for I J
    proof (cases "pix d' I J = pix d1 I J")
      case True
      show ?thesis
      proof (cases "unat col \<le> I \<and> I < unat col + unat ?w \<and> unat y \<le> J \<and> J < unat y + unat (font_height ft)")
        case True
        with fits have "ch # str = [ch] @ str \<and> unat col + text_width ft [ch] \<le> xs \<and> I < unat col + text_width ft [ch]"
          by (simp add: text_width_def)
        with True show ?thesis by blast
      qed (use True d1(4) in auto)
    next
      case False
      then obtain s cs where s: "str = s @ cs" "unat col + text_width ft (ch # s) \<le> xs" "I < unat col + text_width ft (ch # s)"
        "unat col + unat ?w \<le> I" "unat y \<le> J" "J < unat y + unat (font_height ft)"
        using kept by blast
      then have "ch # str = (ch # s) @ cs" "unat col \<le> I" by simp_all
      with s show ?thesis by blast
    qed
    ultimately show ?thesis using rec(2) by blast
  qed
qed (auto simp: text_width_def)

text \<open>
  C14: A character of a font is drawn as its glyph: pixel \<open>(k, i)\<close> of the cell has the text colour
  where bit \<open>7 - k mod 8\<close> of byte \<open>k div 8\<close> of row \<open>i\<close> is set, and the background colour elsewhere;
  no pixel outside the cell changes and the font table, the row array of 48 pixels and the line
  buffer are only accessed inside their bounds.
\<close>

theorem display_char_draws_glyph:
  assumes "display_laws A xs ys (unat (bytes_per_pixel D)) pix" and "display_ok xs ys D"
    and "get_color_value a (pixel_format_of D) c = Inr v" and "p_font D = Some ft"
    and "font_get_glyph_from (font_chars ft) u = Some (p_data, w)" and "0 < unat w" and "unat w < kMaxCharWidth"
    and "p_data + (unat w + 7) div 8 * unat (font_height ft) \<le> length (font_table ft)"
    and "unat x + unat w \<le> xs" and "unat y + unat (font_height ft) \<le> ys"
  shows "\<exists>D' d'. display_char a A c x y u D d = Inr (D', d') \<and> display_ok xs ys D' \<and>
    (\<forall>I J. pix d' I J =
      (if unat x \<le> I \<and> I < unat x + unat w \<and> unat y \<le> J \<and> J < unat y + unat (font_height ft)
       then encode D (if glyph_pixel ft p_data (unat w) (J - unat y) (I - unat x) then v else background_color_value D)
       else pix d I J))"
proof -
  obtain buf d' where *: "display_char a A c x y u D d = Inr (set_buffer D buf, d')" "length buf = unat (line_buffer_size D)"
    "\<forall>I J. pix d' I J =
      (if unat x \<le> I \<and> I < unat x + unat w \<and> unat y \<le> J \<and> J < unat y + unat (font_height ft)
       then encode D (if glyph_pixel ft p_data (unat w) (J - unat y) (I - unat x) then v else background_color_value D)
       else pix d I J)"
    using display_char_pixels [OF assms] by blast
  with display_ok_set_buffer [OF assms(2) *(2)] show ?thesis by blast
qed

text \<open>A font with one character, a 3 by 2 pattern.\<close>

definition demo_font :: font where
  "demo_font = \<lparr>font_height = 2, font_chars = [\<lparr>unicode = 65, char_offset = 0, char_width = 3\<rparr>],
     font_table = [0xA0, 0x40]\<rparr>"

definition demo_text_display :: display where
  "demo_text_display = set_font (Some demo_font) demo_display"

lemma demo_text_sel [simp]:
  "pixel_format_of demo_text_display = PIXEL_FORMAT_RGB_888" "unat (bytes_per_pixel demo_text_display) = 3"
  "encode demo_text_display = encode_rgb888" "p_font demo_text_display = Some demo_font"
  "background_color_value demo_text_display = 0" "lcd_xsize demo_text_display = 8"
  by (simp_all add: demo_text_display_def set_font_def demo_display_def Display_ctor_def pixel_format_of_def
      bytes_per_pixel_def encode_def)

lemma demo_text_ok [simp]: "display_ok 8 6 demo_text_display"
  by (simp add: display_ok_def)
    (simp add: demo_text_display_def set_font_def demo_display_def Display_ctor_def)

lemma demo_text_laws: "display_laws demo_device 8 6 (unat (bytes_per_pixel demo_text_display)) (\<lambda>d. d)"
  by simp

lemma demo_text_green: "get_color_value a (pixel_format_of demo_text_display) Green = Inr 0x00FF00"
  by (simp add: kRGB8888Colors_def)

lemma encode_black [simp]: "encode_rgb888 0 = [0, 0, 0]"
  by (simp add: encode_rgb888_def byte_def)

theorem display_char_draws_glyph_witness:
  "\<exists>D' d'. display_char True demo_device Green 4 3 65 demo_text_display (\<lambda>_ _. []) = Inr (D', d') \<and>
    d' 4 3 = [0, 255, 0] \<and> d' 5 3 = [0, 0, 0] \<and> d' 5 4 = [0, 255, 0] \<and> d' 7 3 = []"
proof -
  have glyph: "font_get_glyph_from (font_chars demo_font) 65 = Some (0, 3)" by (simp add: demo_font_def)
  have pre: "0 < unat (3 :: u8)" "unat (3 :: u8) < kMaxCharWidth"
    "0 + (unat (3 :: u8) + 7) div 8 * unat (font_height demo_font) \<le> length (font_table demo_font)"
    "unat (4 :: u32) + unat (3 :: u8) \<le> 8" "unat (3 :: u32) + unat (font_height demo_font) \<le> 6"
    by (simp_all add: kMaxCharWidth_def demo_font_def)
  have table: "glyph_pixel demo_font 0 3 0 0" "\<not> glyph_pixel demo_font 0 3 0 1" "glyph_pixel demo_font 0 3 1 1"
    by (simp_all add: glyph_pixel_def demo_font_def bit_numeral_rec)
  have height: "unat (font_height demo_font) = 2" by (simp add: demo_font_def)
  show ?thesis
    by (rule exE [OF display_char_draws_glyph [OF demo_text_laws demo_text_ok demo_text_green demo_text_sel(4) glyph pre,
          of True "\<lambda>_ _. []"]])
      (elim exE conjE, intro exI conjI, assumption, use table height in \<open>simp_all\<close>)
qed

text \<open>
  A string cannot be drawn in column 0: \<open>draw_string_at\<close> moves it to column 1, as it does for
  columns from \<open>0x8000\<close> on. A left-aligned line therefore starts at column 1.
\<close>

theorem column_zero_is_column_one:
  "draw_string_at a A c 0 y text D d = draw_string_at a A c 1 y text D d"
  by (simp add: draw_string_at_def)

text \<open>
  C15: Drawing a string, whatever its length and column: with a font whose characters are 1 to 47
  columns wide and lie inside its table, and a line of text that fits between \<open>y\<close> and the bottom of the
  screen, the call returns. Every character with a glyph, up to the first that would cross the right
  border, is painted as its glyph just right of the characters before it; characters the font does not
  have take no room; every other pixel is unchanged, so that the text ends at the first character that
  does not fit. The first column is \<open>x\<close>, or 1 for column 0 and those from \<open>0x8000\<close> on.
\<close>

theorem string_stays_on_screen:
  assumes "display_laws A xs ys (unat (bytes_per_pixel D)) pix" and "display_ok xs ys D"
    and "get_color_value a (pixel_format_of D) c = Inr v" and "p_font D = Some ft" and "font_ok ft"
    and "unat y + unat (font_height ft) \<le> ys" and "x1 = (if x = 0 \<or> 0x8000 \<le> x then 1 else unat x)"
  shows "\<exists>D' d'. draw_string_at a A c x y text D d = Inr (D', d') \<and> display_ok xs ys D' \<and>
    (\<forall>s ch cs p_data w k i. text = s @ ch # cs \<longrightarrow> font_get_glyph_from (font_chars ft) (ucast ch) = Some (p_data, w) \<longrightarrow>
       x1 + text_width ft (s @ [ch]) \<le> xs \<longrightarrow> k < unat w \<longrightarrow> i < unat (font_height ft) \<longrightarrow>
       pix d' (x1 + text_width ft s + k) (unat y + i) =
         encode D (if glyph_pixel ft p_data (unat w) i k then v else background_color_value D)) \<and>
    (\<forall>I J. (x1 \<le> I \<and> unat y \<le> J \<and> J < unat y + unat (font_height ft) \<and>
        (\<exists>s cs. text = s @ cs \<and> x1 + text_width ft s \<le> xs \<and> I < x1 + text_width ft s)) \<or>
      pix d' I J = pix d I J)"
proof -
  let ?col = "if x < 1 \<or> 0x8000 \<le> x then 1 else x"
  have x0: "x < 1 \<longleftrightarrow> x = 0" by (metis word_less_1)
  have col: "unat ?col < 65536" by (simp add: word_le_nat_alt)
  have eq: "unat ?col = x1" by (simp add: x0 assms(7))
  have "draw_string_at a A c x y text D d = draw_chars a A c y text ?col ?col D d"
    using assms(4) by (simp only: draw_string_at_def Let_def ZPP_ASSERT_def) simp
  then show ?thesis
    using draw_chars_pixels [OF assms(1,5,6,2) refl assms(4,3) col, of "text" d] unfolding eq by simp
qed

theorem string_stays_on_screen_witness:
  "\<exists>D' d'. draw_string_at True demo_device Green 1 3 [65, 66, 65, 65] demo_text_display (\<lambda>_ _. []) = Inr (D', d') \<and>
    d' 4 3 = [0, 255, 0] \<and> d' 5 3 = [0, 0, 0] \<and> d' 5 4 = [0, 255, 0] \<and> d' 7 3 = [] \<and> d' 4 5 = []"
proof -
  have ft: "font_ok demo_font" "unat (3 :: u32) + unat (font_height demo_font) \<le> 6"
    by (simp_all add: font_ok_def demo_font_def kMaxCharWidth_def)
  have first: "1 = (if (1 :: u32) = 0 \<or> 0x8000 \<le> (1 :: u32) then 1 else unat (1 :: u32))" by simp
  obtain D' d' where run: "draw_string_at True demo_device Green 1 3 [65, 66, 65, 65] demo_text_display (\<lambda>_ _. []) = Inr (D', d')"
    and cells: "\<And>s ch cs p_data w k i. [65, 66, 65, 65] = s @ ch # cs \<Longrightarrow>
      font_get_glyph_from (font_chars demo_font) (ucast ch) = Some (p_data, w) \<Longrightarrow>
      1 + text_width demo_font (s @ [ch]) \<le> 8 \<Longrightarrow> k < unat w \<Longrightarrow> i < unat (font_height demo_font) \<Longrightarrow>
      d' (1 + text_width demo_font s + k) (unat (3 :: u32) + i) =
        encode demo_text_display (if glyph_pixel demo_font p_data (unat w) i k then 0x00FF00
          else background_color_value demo_text_display)"
    and kept: "\<And>I J. (1 \<le> I \<and> unat (3 :: u32) \<le> J \<and> J < unat (3 :: u32) + unat (font_height demo_font) \<and>
        (\<exists>s cs. [65, 66, 65, 65] = s @ cs \<and> 1 + text_width demo_font s \<le> 8 \<and> I < 1 + text_width demo_font s)) \<or> d' I J = []"
    using string_stays_on_screen [OF demo_text_laws demo_text_ok demo_text_green demo_text_sel(4) ft first,
        of True "[65, 66, 65, 65]" "\<lambda>_ _. []"] by blast
  have widths: "text_width demo_font [65, 66] = 3" "text_width demo_font [65, 66, 65] = 6"
    by (simp_all add: text_width_def demo_font_def)
  have table: "glyph_pixel demo_font 0 3 0 0" "\<not> glyph_pixel demo_font 0 3 0 1" "glyph_pixel demo_font 0 3 1 1"
    by (simp_all add: glyph_pixel_def demo_font_def bit_numeral_rec)
  have glyph: "font_get_glyph_from (font_chars demo_font) (ucast (65 :: u8)) = Some (0, 3)" "unat (font_height demo_font) = 2"
    by (simp_all add: demo_font_def)
  note second = cells [of "[65, 66]" 65 "[65]" 0 3, simplified, OF glyph(1) [simplified]]
  have "\<not> (\<exists>s cs. [65, 66, 65, 65] = s @ cs \<and> 1 + text_width demo_font s \<le> 8 \<and> 7 < 1 + text_width demo_font s)"
    by (auto simp: Cons_eq_append_conv text_width_def demo_font_def)
  then have "d' 7 3 = []" using kept [of 7 3] by blast
  moreover have "d' 4 5 = []" using kept [of 4 5] glyph(2) by simp
  moreover have "d' 4 3 = [0, 255, 0]" "d' 5 3 = [0, 0, 0]" "d' 5 4 = [0, 255, 0]"
    using second [of 0 0] second [of 1 0] second [of 1 1] table widths glyph(2) by simp_all
  ultimately show ?thesis using run by (intro exI conjI)
qed

lemma fill_rgb_rect_same:
  "fill_rgb_rect A x y src width height D d = Inr (D', d') \<Longrightarrow> lcd_xsize D' = lcd_xsize D \<and> p_font D' = p_font D"
  by (auto simp: fill_rgb_rect_def Let_def bindR_eq_Inr set_buffer_same)

lemma char_rows_same:
  "char_rows a A c ft p_data w x y i D d = Inr (D', d') \<Longrightarrow> lcd_xsize D' = lcd_xsize D \<and> p_font D' = p_font D"
proof (induction "unat (font_height ft) - i" arbitrary: i y D d)
  case 0
  then show ?case by (simp add: char_rows.simps)
next
  case (Suc r)
  then have less: "i < unat (font_height ft)" and r: "r = unat (font_height ft) - Suc i" by simp_all
  note IH = Suc.hyps(1) [OF r]
  have run: "char_rows a A c ft p_data w x y i D d = Inr (D', d')" by fact
  show ?case
  proof (cases "pixel_format_of D = PIXEL_FORMAT_ARGB_8888 \<or> pixel_format_of D = PIXEL_FORMAT_RGB_888")
    case True
    obtain arr D1 d1 where D1: "fill_rgb_rect A x y arr (ucast w) 1 D d = Inr (D1, d1)"
      "char_rows a A c ft p_data w x (y + 1) (Suc i) D1 d1 = Inr (D', d')"
      using run less True by (subst (asm) char_rows.simps) (auto simp: Let_def bindR_eq_Inr)
    from IH [OF D1(2)] fill_rgb_rect_same [OF D1(1)] show ?thesis by simp
  next
    case False
    with run less have "char_rows a A c ft p_data w x y (Suc i) D d = Inr (D', d')"
      by (subst (asm) char_rows.simps) (simp add: Let_def bindR_eq_Inr)
    from IH [OF this] show ?thesis .
  qed
qed

lemma display_char_same:
  "display_char a A c x y u D d = Inr (D', d') \<Longrightarrow> lcd_xsize D' = lcd_xsize D \<and> p_font D' = p_font D"
  by (auto simp: display_char_def with_font_def bindR_eq_Inr split: option.splits dest!: char_rows_same)

lemma draw_chars_last_lost:
  "p_font D = Some ft \<Longrightarrow> unat (lcd_xsize D) < unat col + text_width ft (s @ [ch]) \<Longrightarrow>
    unat col + text_width ft (s @ [ch]) < 4294967296 \<Longrightarrow>
    draw_chars a A c y (s @ [ch]) col col D d = draw_chars a A c y s col col D d"
proof (induction s arbitrary: col D d)
  case Nil
  let ?w = "get_char_width_from (font_chars ft) (ucast ch)"
  have "unat (col + ucast ?w) = unat col + unat ?w"
    using unat_add_lem [of col "ucast ?w :: u32"] Nil.prems(3) by (simp add: text_width_def)
  then have "lcd_xsize D < col + ucast ?w" using Nil.prems(2) by (simp add: word_less_nat_alt text_width_def)
  then show ?case using Nil.prems(1) by (simp add: get_char_width_def with_font_def Let_def)
next
  case (Cons h s)
  let ?w = "get_char_width_from (font_chars ft) (ucast h)"
  have sum: "unat (col + ucast ?w) = unat col + unat ?w"
    using unat_add_lem [of col "ucast ?w :: u32"] Cons.prems(3) by (simp add: text_width_def)
  have "draw_chars a A c y (s @ [ch]) (col + ucast ?w) (col + ucast ?w) D' d' =
    draw_chars a A c y s (col + ucast ?w) (col + ucast ?w) D' d'"
    if "display_char a A c col y (ucast h) D d = Inr (D', d')" for D' d'
    using Cons.IH [of D' "col + ucast ?w" d'] Cons.prems display_char_same [OF that] sum
    by (simp add: text_width_def add.assoc)
  then have "bindR (display_char a A c col y (ucast h) D d)
      (\<lambda>(D', d'). draw_chars a A c y (s @ [ch]) (col + ucast ?w) (col + ucast ?w) D' d') =
    bindR (display_char a A c col y (ucast h) D d)
      (\<lambda>(D', d'). draw_chars a A c y s (col + ucast ?w) (col + ucast ?w) D' d')"
    by (intro bindR_cong) auto
  then show ?case using Cons.prems(1) by (simp add: get_char_width_def with_font_def Let_def)
qed

text \<open>
  Because of that first column, a text whose width is exactly the width of the screen loses its
  last character, although it would fit: \<open>draw_string_at\<close> at column 0, as left alignment calls it,
  draws the text without it.
\<close>

theorem full_width_text_loses_last_char:
  assumes "p_font D = Some ft" and "text_width ft (s @ [ch]) = unat (lcd_xsize D)" and "unat (lcd_xsize D) < 65536"
  shows "draw_string_at a A c 0 y (s @ [ch]) D d = draw_string_at a A c 0 y s D d"
  using draw_chars_last_lost [of D ft 1 s ch a A c y d] assms by (simp add: draw_string_at_def Let_def)

definition narrow_display :: display where
  "narrow_display = demo_text_display\<lparr>lcd_xsize := 6\<rparr>"

theorem full_width_text_loses_last_char_witness:
  "draw_string_at True demo_device Green 0 0 [65, 65] narrow_display (\<lambda>_ _. []) =
    draw_string_at True demo_device Green 0 0 [65] narrow_display (\<lambda>_ _. [])"
  using full_width_text_loses_last_char [of narrow_display demo_font "[65]" 65 True demo_device Green 0 "\<lambda>_ _. []"]
  by (simp add: narrow_display_def text_width_def demo_font_def demo_text_display_def set_font_def)

lemma uint_negative: "128 \<le> i \<Longrightarrow> i < 256 \<Longrightarrow> uint (word_of_int (i - 256) :: u32) = i + 4294967040"
proof -
  assume i: "128 \<le> i" "i < 256"
  have "uint (word_of_int (i - 256) :: u32) = (i - 256) mod 4294967296"
    unfolding uint_word_of_int by simp
  also have "\<dots> = (i - 256 + 4294967296) mod 4294967296" by (rule mod_add_self2 [symmetric])
  also have "\<dots> = i - 256 + 4294967296" using i by (intro mod_pos_pos_trivial) simp_all
  finally show ?thesis by simp
qed

lemma sint_high: "128 \<le> i \<Longrightarrow> i < 256 \<Longrightarrow> sint (word_of_int i :: u8) = i - 256"
proof -
  assume i: "128 \<le> i" "i < 256"
  have "(i - 128 + 256) mod 256 = (i - 128) mod 256" by (rule mod_add_self2)
  also have "\<dots> = i - 128" using i by (intro mod_pos_pos_trivial) simp_all
  finally show ?thesis by (simp add: int_word_sint add.commute)
qed

text \<open>
  On a target where \<open>char\<close> is signed, \<open>get_string_width\<close> looks up a byte from 128 on under the
  code \<open>2^32 - 256 + byte\<close>, which no font has: the character counts 0 pixels, while
  \<open>draw_string_at\<close>, which reads the string as \<open>unsigned char\<close>, draws it with its width. Centred and
  right-aligned text with such characters is therefore misplaced.
\<close>

theorem high_bytes_have_no_width:
  assumes "p_font D = Some ft" and "128 \<le> unat b" and "\<forall>ci\<in>set (font_chars ft). unat (unicode ci) < 4294967168"
  shows "get_string_width a True [b] D = Inr 0 \<and>
    get_string_width a False [b] D = Inr (ucast (get_char_width_from (font_chars ft) (ucast b)))"
proof -
  have "uint b = int (unat b)" by (rule uint_nat)
  then have ub: "128 \<le> uint b" "uint b < 256" using assms(2) unat_u8_lt [of b] by linarith+
  have neg: "sint b = uint b - 256" using sint_high [OF ub] by simp
  have "uint (scast b :: u32) = uint b + 4294967040"
    unfolding scast_eq neg using ub by (rule uint_negative)
  then have "unat (scast b :: u32) = unat b + 4294967040"
    using ub unfolding unat_eq_nat_uint by (simp add: nat_add_distrib)
  then have "get_char_width_from cs (scast b) = 0" if "\<forall>ci\<in>set cs. unat (unicode ci) < 4294967168" for cs
    using that assms(2) by (induction cs) auto
  with assms(1,3) show ?thesis
    by (simp add: get_string_width_def get_char_width_def with_font_def char_to_u32_def)
qed

definition latin_font :: font where
  "latin_font = demo_font\<lparr>font_chars := [\<lparr>unicode = 233, char_offset = 0, char_width = 3\<rparr>]\<rparr>"

theorem high_bytes_have_no_width_witness:
  "get_string_width True True [233] (set_font (Some latin_font) demo_display) = Inr 0 \<and>
    get_string_width True False [233] (set_font (Some latin_font) demo_display) = Inr 3"
  using high_bytes_have_no_width [of "set_font (Some latin_font) demo_display" latin_font 233 True]
  by (simp add: set_font_def latin_font_def)

end
