(* ===== verification/GPIO_API.thy ===== *)
theory GPIO_API
  imports Zephyr_API
begin

text \<open>
  What zpp_lib uses of Zephyr's GPIO driver interface, as parameters: \<open>'k gpio_api\<close> bundles the
  calls, \<open>'k gpio_view\<close> is the abstract view in which the documented behaviour is stated:
  the \<open>struct gpio_callback\<close>s installed on a port, and the logic levels an output pin has been
  driven to, the latest first. The last section is a reference instance used by the witnesses.
\<close>

section \<open>The calls\<close>

record gpio_dt_spec =
  port :: addr
  pin :: nat

datatype gpio_flag = GPIO_INPUT | GPIO_OUTPUT_ACTIVE | GPIO_INT_EDGE_FALLING

record 'k gpio_api =
  gpio_is_ready_dt :: "gpio_dt_spec \<Rightarrow> 'k \<Rightarrow> bool"
  gpio_pin_configure_dt :: "gpio_dt_spec \<Rightarrow> gpio_flag list \<Rightarrow> 'k \<Rightarrow> int \<times> 'k"
  gpio_pin_interrupt_configure_dt :: "gpio_dt_spec \<Rightarrow> gpio_flag \<Rightarrow> 'k \<Rightarrow> int \<times> 'k"
  gpio_pin_set :: "addr \<Rightarrow> nat \<Rightarrow> int \<Rightarrow> 'k \<Rightarrow> int \<times> 'k"
  gpio_pin_get :: "addr \<Rightarrow> nat \<Rightarrow> 'k \<Rightarrow> int"
  gpio_pin_set_dt :: "gpio_dt_spec \<Rightarrow> int \<Rightarrow> 'k \<Rightarrow> int \<times> 'k"
  gpio_pin_get_dt :: "gpio_dt_spec \<Rightarrow> 'k \<Rightarrow> int"
  gpio_init_callback :: "addr \<Rightarrow> nat \<Rightarrow> 'k \<Rightarrow> 'k"
  gpio_add_callback :: "addr \<Rightarrow> addr \<Rightarrow> 'k \<Rightarrow> int \<times> 'k"
  gpio_remove_callback :: "addr \<Rightarrow> addr \<Rightarrow> 'k \<Rightarrow> int \<times> 'k"

section \<open>Documented behaviour\<close>

record 'k gpio_view =
  handlers :: "'k \<Rightarrow> addr \<Rightarrow> addr set"
  levels :: "'k \<Rightarrow> addr \<Rightarrow> nat \<Rightarrow> bool list"

text \<open>
  \<open>gpio_add_callback\<close> installs a callback and returns 0; \<open>gpio_remove_callback\<close> returns 0 for an
  installed callback and a negative error for another one. Configuring a pin installs nothing.
\<close>

definition gpio_irq_laws :: "'k gpio_api \<Rightarrow> 'k gpio_view \<Rightarrow> bool" where
  "gpio_irq_laws G V \<longleftrightarrow>
     (\<forall>cb p k. handlers V (gpio_init_callback G cb p k) = handlers V k) \<and>
     (\<forall>d cb k. \<exists>k'. gpio_add_callback G d cb k = (0, k') \<and>
        handlers V k' = (handlers V k)(d := insert cb (handlers V k d))) \<and>
     (\<forall>d cb k. cb \<in> handlers V k d \<longrightarrow> (\<exists>k'. gpio_remove_callback G d cb k = (0, k') \<and>
        handlers V k' = (handlers V k)(d := handlers V k d - {cb}))) \<and>
     (\<forall>d cb k. cb \<notin> handlers V k d \<longrightarrow> (\<exists>e. e < 0 \<and> gpio_remove_callback G d cb k = (e, k))) \<and>
     (\<forall>g f k. handlers V (snd (gpio_pin_configure_dt G g f k)) = handlers V k) \<and>
     (\<forall>g f k. handlers V (snd (gpio_pin_interrupt_configure_dt G g f k)) = handlers V k)"

text \<open>
  On a device that is ready, configuring with \<open>GPIO_OUTPUT_ACTIVE\<close> drives the pin to logic 1;
  \<open>gpio_pin_set\<close> drives a configured pin to the given level, and \<open>gpio_pin_get\<close> of a pin
  configured both ways reads that level. The \<open>_dt\<close> calls take port and pin from the specification.
\<close>

definition gpio_out_laws :: "'k gpio_api \<Rightarrow> 'k gpio_view \<Rightarrow> bool" where
  "gpio_out_laws G V \<longleftrightarrow>
     (\<forall>g k. gpio_is_ready_dt G g k \<longrightarrow>
        (\<exists>k'. gpio_pin_configure_dt G g [GPIO_INPUT, GPIO_OUTPUT_ACTIVE] k = (0, k') \<and>
           levels V k' = (levels V k)(port g := (levels V k (port g))(pin g := True # levels V k (port g) (pin g))))) \<and>
     (\<forall>d p v k. levels V k d p \<noteq> [] \<longrightarrow>
        (\<exists>k'. gpio_pin_set G d p v k = (0, k') \<and>
           levels V k' = (levels V k)(d := (levels V k d)(p := (v \<noteq> 0) # levels V k d p)))) \<and>
     (\<forall>d p k. levels V k d p \<noteq> [] \<longrightarrow> gpio_pin_get G d p k = of_bool (hd (levels V k d p))) \<and>
     (\<forall>g v k. gpio_pin_set_dt G g v k = gpio_pin_set G (port g) (pin g) v k) \<and>
     (\<forall>g k. gpio_pin_get_dt G g k = gpio_pin_get G (port g) (pin g) k)"

lemma gpio_configure_law:
  "gpio_out_laws G V \<Longrightarrow> gpio_is_ready_dt G g k \<Longrightarrow>
    \<exists>k'. gpio_pin_configure_dt G g [GPIO_INPUT, GPIO_OUTPUT_ACTIVE] k = (0, k') \<and>
      levels V k' = (levels V k)(port g := (levels V k (port g))(pin g := True # levels V k (port g) (pin g)))"
  by (simp add: gpio_out_laws_def)

lemma gpio_set_law:
  "gpio_out_laws G V \<Longrightarrow> levels V k (port g) (pin g) \<noteq> [] \<Longrightarrow>
    \<exists>k'. gpio_pin_set_dt G g v k = (0, k') \<and>
      levels V k' = (levels V k)(port g := (levels V k (port g))(pin g := (v \<noteq> 0) # levels V k (port g) (pin g)))"
  by (simp add: gpio_out_laws_def)

lemma gpio_get_law:
  "gpio_out_laws G V \<Longrightarrow> levels V k (port g) (pin g) \<noteq> [] \<Longrightarrow>
    gpio_pin_get_dt G g k = of_bool (hd (levels V k (port g) (pin g)))"
  by (simp add: gpio_out_laws_def)

section \<open>A reference instance\<close>

record rgpio =
  rg_handlers :: "(addr \<times> addr) list"
  rg_levels :: "addr \<Rightarrow> nat \<Rightarrow> bool list"

definition ref_set :: "addr \<Rightarrow> nat \<Rightarrow> int \<Rightarrow> rgpio \<Rightarrow> int \<times> rgpio" where
  "ref_set d p v k = (if rg_levels k d p = [] then (- 22, k)
     else (0, k\<lparr>rg_levels := (rg_levels k)(d := (rg_levels k d)(p := (v \<noteq> 0) # rg_levels k d p))\<rparr>))"

definition ref_get :: "addr \<Rightarrow> nat \<Rightarrow> rgpio \<Rightarrow> int" where
  "ref_get d p k = (case rg_levels k d p of [] \<Rightarrow> - 22 | l # _ \<Rightarrow> of_bool l)"

definition ref_gpio :: "rgpio gpio_api" where
  "ref_gpio = \<lparr>
     gpio_is_ready_dt = (\<lambda>g k. True),
     gpio_pin_configure_dt = (\<lambda>g f k. (0, if GPIO_OUTPUT_ACTIVE \<in> set f
        then k\<lparr>rg_levels := (rg_levels k)(port g := (rg_levels k (port g))(pin g := True # rg_levels k (port g) (pin g)))\<rparr>
        else k)),
     gpio_pin_interrupt_configure_dt = (\<lambda>g f k. (0, k)),
     gpio_pin_set = ref_set,
     gpio_pin_get = ref_get,
     gpio_pin_set_dt = (\<lambda>g. ref_set (port g) (pin g)),
     gpio_pin_get_dt = (\<lambda>g. ref_get (port g) (pin g)),
     gpio_init_callback = (\<lambda>cb p k. k),
     gpio_add_callback = (\<lambda>d cb k. (0, k\<lparr>rg_handlers := (d, cb) # rg_handlers k\<rparr>)),
     gpio_remove_callback = (\<lambda>d cb k. if (d, cb) \<in> set (rg_handlers k)
        then (0, k\<lparr>rg_handlers := filter (\<lambda>e. e \<noteq> (d, cb)) (rg_handlers k)\<rparr>) else (- 22, k))\<rparr>"

definition ref_gview :: "rgpio gpio_view" where
  "ref_gview = \<lparr>handlers = (\<lambda>k d. {cb. (d, cb) \<in> set (rg_handlers k)}), levels = rg_levels\<rparr>"

definition gpio0 :: rgpio where
  "gpio0 = \<lparr>rg_handlers = [], rg_levels = (\<lambda>_ _. [])\<rparr>"

lemma ref_gpio_irq: "gpio_irq_laws ref_gpio ref_gview"
  by (auto simp: gpio_irq_laws_def ref_gpio_def ref_gview_def fun_eq_iff)

lemma ref_gpio_out: "gpio_out_laws ref_gpio ref_gview"
  by (auto simp: gpio_out_laws_def ref_gpio_def ref_gview_def ref_set_def ref_get_def fun_eq_iff split: list.splits)

end
