(* ===== verification/Digital_Out.thy ===== *)
theory Digital_Out
  imports Error_Result GPIO_API
begin

text \<open>
  src/zpp_drivers/digital_out.cpp and the system calls of its userspace build,
  src/syscalls/gpio_syscalls.c with its driver gpio_syscalls_driver.c. What Zephyr generates or
  provides is a parameter: the devicetree aliases \<open>led0\<close> and \<open>led1\<close>, looking up a device by name,
  \<open>dev->api\<close>, the check \<open>K_SYSCALL_DRIVER_GPIO_SYSCALL\<close> and whether a call comes from user mode.
\<close>

section \<open>The system calls\<close>

record 'k gpio_syscall_driver_api =
  api_set :: "addr \<Rightarrow> gpio_dt_spec \<Rightarrow> int \<Rightarrow> 'k \<Rightarrow> int \<times> 'k"
  api_get :: "addr \<Rightarrow> gpio_dt_spec \<Rightarrow> 'k \<Rightarrow> int"

record 'k out_env =
  out_assert :: bool
  out_userspace :: bool
  leds :: "nat \<Rightarrow> gpio_dt_spec option"
  out_errno :: errno_values
  out_gpio :: "'k gpio_api"
  from_user :: bool
  driver_check :: "addr \<Rightarrow> 'k \<Rightarrow> bool"
  dev_api :: "addr \<Rightarrow> 'k gpio_syscall_driver_api"
  device_get_binding :: "string \<Rightarrow> 'k \<Rightarrow> addr option"
  k_thread_access_grant :: "addr \<Rightarrow> 'k \<Rightarrow> 'k"

definition gpio_syscall_set_impl :: "'k gpio_api \<Rightarrow> addr \<Rightarrow> gpio_dt_spec \<Rightarrow> int \<Rightarrow> 'k \<Rightarrow> int \<times> 'k" where
  "gpio_syscall_set_impl G dev g v k = gpio_pin_set G (port g) (pin g) v k"

definition gpio_syscall_get_impl :: "'k gpio_api \<Rightarrow> addr \<Rightarrow> gpio_dt_spec \<Rightarrow> 'k \<Rightarrow> int" where
  "gpio_syscall_get_impl G dev g k = gpio_pin_get G (port g) (pin g) k"

definition gpio_syscall_api :: "'k gpio_api \<Rightarrow> 'k gpio_syscall_driver_api" where
  "gpio_syscall_api G = \<lparr>api_set = gpio_syscall_set_impl G, api_get = gpio_syscall_get_impl G\<rparr>"

definition GPIO_SYSCALL_DRIVER_NAME :: string where
  "GPIO_SYSCALL_DRIVER_NAME = ''GPIO_SYSCALL''"

definition z_impl_gpio_syscall_set :: "'k out_env \<Rightarrow> addr \<Rightarrow> gpio_dt_spec \<Rightarrow> int \<Rightarrow> 'k \<Rightarrow> int \<times> 'k" where
  "z_impl_gpio_syscall_set env dev g v k = api_set (dev_api env dev) dev g v k"

definition z_vrfy_gpio_syscall_set :: "'k out_env \<Rightarrow> addr \<Rightarrow> gpio_dt_spec \<Rightarrow> int \<Rightarrow> 'k \<Rightarrow> int \<times> 'k" where
  "z_vrfy_gpio_syscall_set env dev g v k =
     (if driver_check env dev k then (neg_errno (out_errno env) ''EINVAL'', k)
      else z_impl_gpio_syscall_set env dev g v k)"

definition z_impl_gpio_syscall_get :: "'k out_env \<Rightarrow> addr \<Rightarrow> gpio_dt_spec \<Rightarrow> 'k \<Rightarrow> int" where
  "z_impl_gpio_syscall_get env dev g k = api_get (dev_api env dev) dev g k"

definition z_vrfy_gpio_syscall_get :: "'k out_env \<Rightarrow> addr \<Rightarrow> gpio_dt_spec \<Rightarrow> 'k \<Rightarrow> int" where
  "z_vrfy_gpio_syscall_get env dev g k =
     (if driver_check env dev k then neg_errno (out_errno env) ''EINVAL''
      else z_impl_gpio_syscall_get env dev g k)"

text \<open>The generated entry points: a call from user mode is verified, one from a privileged thread is not.\<close>

definition gpio_syscall_set :: "'k out_env \<Rightarrow> addr \<Rightarrow> gpio_dt_spec \<Rightarrow> int \<Rightarrow> 'k \<Rightarrow> int \<times> 'k" where
  "gpio_syscall_set env = (if from_user env then z_vrfy_gpio_syscall_set env else z_impl_gpio_syscall_set env)"

definition gpio_syscall_get :: "'k out_env \<Rightarrow> addr \<Rightarrow> gpio_dt_spec \<Rightarrow> 'k \<Rightarrow> int" where
  "gpio_syscall_get env = (if from_user env then z_vrfy_gpio_syscall_get env else z_impl_gpio_syscall_get env)"

section \<open>DigitalOut\<close>

record digital_out =
  out_spec :: "gpio_dt_spec option"
  gpio_device :: "addr option"

text \<open>A member that was never assigned is \<open>None\<close>; using it is undefined.\<close>

definition DigitalOut_write ::
  "'k out_env \<Rightarrow> digital_out \<Rightarrow> bool \<Rightarrow> 'k \<Rightarrow> (zephyr_result \<times> 'k) run" where
  "DigitalOut_write env ob v k =
     (let res = ZephyrResult in
      case out_spec ob of
        None \<Rightarrow> Inl Undef
      | Some g \<Rightarrow>
          bindR (if out_userspace env
                 then (case gpio_device ob of None \<Rightarrow> Inl Undef | Some dev \<Rightarrow> Inr (gpio_syscall_set env dev g (of_bool v) k))
                 else Inr (gpio_pin_set_dt (out_gpio env) g (of_bool v) k)) (\<lambda>(ret, k').
          Inr (if ret \<noteq> 0 then r_assign_error (ret_code ret) res else res, k')))"

definition DigitalOut_read :: "'k out_env \<Rightarrow> digital_out \<Rightarrow> 'k \<Rightarrow> bool run" where
  "DigitalOut_read env ob k =
     (case out_spec ob of
        None \<Rightarrow> Inl Undef
      | Some g \<Rightarrow>
          if out_userspace env
          then (case gpio_device ob of None \<Rightarrow> Inl Undef | Some dev \<Rightarrow> Inr (gpio_syscall_get env dev g k \<noteq> 0))
          else Inr (gpio_pin_get_dt (out_gpio env) g k \<noteq> 0))"

text \<open>\<open>k_oops\<close> ends the calling thread.\<close>

definition DigitalOut_ctor :: "'k out_env \<Rightarrow> nat \<Rightarrow> bool \<Rightarrow> 'k \<Rightarrow> (digital_out \<times> 'k) run" where
  "DigitalOut_ctor env pin_name v k =
     (let assert_false = ZPP_ASSERT (out_assert env) False in
      case (if pin_name \<in> {0, 1} then leds env pin_name else None) of
        None \<Rightarrow> bindR assert_false (\<lambda>_. Inl Undef)
      | Some g \<Rightarrow>
         (let ob = \<lparr>out_spec = Some g, gpio_device = None\<rparr> in
          if \<not> gpio_is_ready_dt (out_gpio env) g k then bindR assert_false (\<lambda>_. Inr (ob, k))
          else case gpio_pin_configure_dt (out_gpio env) g [GPIO_INPUT, GPIO_OUTPUT_ACTIVE] k of
            (ret, k1) \<Rightarrow>
              if ret < 0 then bindR assert_false (\<lambda>_. Inr (ob, k1))
              else
                bindR (if out_userspace env
                  then (case device_get_binding env GPIO_SYSCALL_DRIVER_NAME k1 of
                      None \<Rightarrow> Inl Panic
                    | Some dev \<Rightarrow> Inr (ob\<lparr>gpio_device := Some dev\<rparr>, k_thread_access_grant env dev k1))
                  else Inr (ob, k1)) (\<lambda>(ob2, k2).
                bindR (DigitalOut_write env ob2 v k2) (\<lambda>(res, k3).
                if \<not> r_bool res then bindR assert_false (\<lambda>_. Inr (ob2, k3)) else Inr (ob2, k3)))))"

definition DigitalOut_ctor_default :: "'k out_env \<Rightarrow> nat \<Rightarrow> 'k \<Rightarrow> (digital_out \<times> 'k) run" where
  "DigitalOut_ctor_default env pin_name = DigitalOut_ctor env pin_name False"

text \<open>\<open>operator=\<close>, which drops the result of \<open>write\<close>.\<close>

definition DigitalOut_assign :: "'k out_env \<Rightarrow> digital_out \<Rightarrow> bool \<Rightarrow> 'k \<Rightarrow> 'k run" where
  "DigitalOut_assign env ob v k = bindR (DigitalOut_write env ob v k) (\<lambda>(_, k'). Inr k')"

section \<open>What the library relies on\<close>

text \<open>
  The driver of the system calls is registered under its name with its own table, granting access
  changes no pin, and a thread with access passes the check.
\<close>

definition out_env_laws :: "'k out_env \<Rightarrow> 'k gpio_view \<Rightarrow> addr \<Rightarrow> bool" where
  "out_env_laws env V dev \<longleftrightarrow> gpio_out_laws (out_gpio env) V \<and>
     (\<forall>k. device_get_binding env GPIO_SYSCALL_DRIVER_NAME k = Some dev) \<and>
     dev_api env dev = gpio_syscall_api (out_gpio env) \<and>
     (\<forall>d k. levels V (k_thread_access_grant env d k) = levels V k) \<and>
     (\<forall>k. \<not> driver_check env dev k)"

text \<open>An object that the constructor has set up for pin \<open>g\<close>.\<close>

definition out_ok :: "'k out_env \<Rightarrow> 'k gpio_view \<Rightarrow> addr \<Rightarrow> gpio_dt_spec \<Rightarrow> digital_out \<Rightarrow> 'k \<Rightarrow> bool" where
  "out_ok env V dev g ob k \<longleftrightarrow> out_spec ob = Some g \<and> (out_userspace env \<longrightarrow> gpio_device ob = Some dev) \<and>
     levels V k (port g) (pin g) \<noteq> []"

lemma syscall_set:
  "out_env_laws env V dev \<Longrightarrow> gpio_syscall_set env dev g v k = gpio_pin_set_dt (out_gpio env) g v k"
  by (simp add: out_env_laws_def gpio_out_laws_def gpio_syscall_set_def z_vrfy_gpio_syscall_set_def
      z_impl_gpio_syscall_set_def gpio_syscall_api_def gpio_syscall_set_impl_def)

lemma syscall_get:
  "out_env_laws env V dev \<Longrightarrow> gpio_syscall_get env dev g k = gpio_pin_get_dt (out_gpio env) g k"
  by (simp add: out_env_laws_def gpio_out_laws_def gpio_syscall_get_def z_vrfy_gpio_syscall_get_def
      z_impl_gpio_syscall_get_def gpio_syscall_api_def gpio_syscall_get_impl_def)

lemma write_ok:
  assumes "out_env_laws env V dev" and "out_ok env V dev g ob k"
  shows "\<exists>k'. DigitalOut_write env ob v k = Inr (ZephyrResult, k') \<and> out_ok env V dev g ob k' \<and>
    levels V k' = (levels V k)(port g := (levels V k (port g))(pin g := v # levels V k (port g) (pin g)))"
proof -
  have gpio: "gpio_out_laws (out_gpio env) V" using assms(1) by (simp add: out_env_laws_def)
  have "levels V k (port g) (pin g) \<noteq> []" using assms(2) by (simp add: out_ok_def)
  then obtain k' where "gpio_pin_set_dt (out_gpio env) g (of_bool v) k = (0, k')"
    "levels V k' = (levels V k)(port g := (levels V k (port g))(pin g := v # levels V k (port g) (pin g)))"
    using gpio_set_law [OF gpio, of k g "of_bool v"] by auto
  then show ?thesis
    using assms syscall_set [OF assms(1)] by (auto simp: DigitalOut_write_def out_ok_def)
qed

lemma read_ok:
  assumes "out_env_laws env V dev" and "out_ok env V dev g ob k"
  shows "DigitalOut_read env ob k = Inr (hd (levels V k (port g) (pin g)))"
proof -
  have "gpio_pin_get_dt (out_gpio env) g k = of_bool (hd (levels V k (port g) (pin g)))"
    using assms by (simp add: out_env_laws_def out_ok_def gpio_get_law)
  then show ?thesis
    using assms syscall_get [OF assms(1)] by (auto simp: DigitalOut_read_def out_ok_def)
qed

text \<open>Assigning one value after the other.\<close>

fun assign_all :: "'k out_env \<Rightarrow> digital_out \<Rightarrow> bool list \<Rightarrow> 'k \<Rightarrow> 'k run" where
  "assign_all env ob [] k = Inr k"
| "assign_all env ob (v # vs) k = bindR (DigitalOut_assign env ob v k) (assign_all env ob vs)"

lemma assign_all_ok:
  assumes "out_env_laws env V dev"
  shows "out_ok env V dev g ob k \<Longrightarrow> \<exists>k'. assign_all env ob vs k = Inr k' \<and> out_ok env V dev g ob k' \<and>
    levels V k' (port g) (pin g) = rev vs @ levels V k (port g) (pin g)"
proof (induction vs arbitrary: k)
  case (Cons v vs)
  obtain k1 where k1: "DigitalOut_write env ob v k = Inr (ZephyrResult, k1)" "out_ok env V dev g ob k1"
    "levels V k1 (port g) (pin g) = v # levels V k (port g) (pin g)"
    using write_ok [OF assms Cons.prems, of v] by auto
  then show ?case using Cons.IH [OF k1(2)] by (simp add: DigitalOut_assign_def)
qed simp

lemma ctor_ok:
  assumes "out_env_laws env V dev" and "p \<in> {0, 1}" and "leds env p = Some g"
    and "gpio_is_ready_dt (out_gpio env) g k"
  shows "\<exists>ob k'. DigitalOut_ctor env p v k = Inr (ob, k') \<and> out_ok env V dev g ob k' \<and>
    levels V k' (port g) (pin g) = v # True # levels V k (port g) (pin g)"
proof -
  have gpio: "gpio_out_laws (out_gpio env) V" using assms(1) by (simp add: out_env_laws_def)
  obtain k1 where k1: "gpio_pin_configure_dt (out_gpio env) g [GPIO_INPUT, GPIO_OUTPUT_ACTIVE] k = (0, k1)"
    "levels V k1 (port g) (pin g) = True # levels V k (port g) (pin g)"
    using gpio_configure_law [OF gpio assms(4)] by auto
  define ob where "ob = \<lparr>out_spec = Some g, gpio_device = (if out_userspace env then Some dev else None)\<rparr>"
  define k2 where "k2 = (if out_userspace env then k_thread_access_grant env dev k1 else k1)"
  have k2: "levels V k2 (port g) (pin g) = True # levels V k (port g) (pin g)"
    using k1(2) assms(1) by (simp add: k2_def out_env_laws_def)
  then have "out_ok env V dev g ob k2" by (simp add: ob_def out_ok_def)
  then obtain k3 where "DigitalOut_write env ob v k2 = Inr (ZephyrResult, k3)" "out_ok env V dev g ob k3"
    "levels V k3 (port g) (pin g) = v # True # levels V k (port g) (pin g)"
    using write_ok [OF assms(1), of g ob k2 v] k2 by auto
  then have "DigitalOut_ctor env p v k = Inr (ob, k3) \<and> out_ok env V dev g ob k3 \<and>
    levels V k3 (port g) (pin g) = v # True # levels V k (port g) (pin g)"
    using assms k1(1)
    by (simp add: DigitalOut_ctor_def out_env_laws_def ob_def k2_def ZephyrResult_def r_bool_def split: if_splits)
  then show ?thesis by blast
qed

section \<open>Properties\<close>

definition led_env :: "bool \<Rightarrow> rgpio out_env" where
  "led_env user = \<lparr>out_assert = True, out_userspace = user, leds = [0 \<mapsto> \<lparr>port = 4, pin = 2\<rparr>],
     out_errno = (\<lambda>_. 22), out_gpio = ref_gpio, from_user = user, driver_check = (\<lambda>_ _. False),
     dev_api = (\<lambda>_. gpio_syscall_api ref_gpio), device_get_binding = (\<lambda>_ _. Some 70),
     k_thread_access_grant = (\<lambda>_ k. k)\<rparr>"

lemma led_env_laws: "out_env_laws (led_env user) ref_gview 70"
  by (simp add: led_env_def out_env_laws_def ref_gpio_out)

text \<open>
  C18: a DigitalOut on a ready pin drives the level given to its constructor and then every value
  assigned, in order, and a read gives the last one, in both builds. The constructor configures the pin
  as active first, so the output shows a pulse even when the initial value is false.
\<close>

theorem digital_out_drives:
  assumes "out_env_laws env V dev" and "p \<in> {0, 1}" and "leds env p = Some g"
    and "gpio_is_ready_dt (out_gpio env) g k"
  shows "\<exists>ob k1 k2. DigitalOut_ctor env p v k = Inr (ob, k1) \<and> assign_all env ob vs k1 = Inr k2 \<and>
    levels V k2 (port g) (pin g) = rev vs @ [v, True] @ levels V k (port g) (pin g) \<and>
    DigitalOut_read env ob k2 = Inr (last (v # vs))"
proof -
  obtain ob k1 where ob: "DigitalOut_ctor env p v k = Inr (ob, k1)" "out_ok env V dev g ob k1"
    "levels V k1 (port g) (pin g) = v # True # levels V k (port g) (pin g)"
    using ctor_ok [OF assms] by blast
  obtain k2 where k2: "assign_all env ob vs k1 = Inr k2" "out_ok env V dev g ob k2"
    "levels V k2 (port g) (pin g) = rev vs @ v # True # levels V k (port g) (pin g)"
    using assign_all_ok [OF assms(1) ob(2)] ob(3) by metis
  have "hd (rev vs @ v # True # levels V k (port g) (pin g)) = last (v # vs)"
    by (cases vs rule: rev_cases) simp_all
  then show ?thesis using ob(1) k2 read_ok [OF assms(1) k2(2)] by simp
qed

theorem digital_out_drives_witness:
  "\<exists>ob k1 k2. DigitalOut_ctor (led_env True) 0 False gpio0 = Inr (ob, k1) \<and>
    assign_all (led_env True) ob [True, False] k1 = Inr k2 \<and> rg_levels k2 4 2 = [False, True, False, True]"
proof -
  have led: "leds (led_env True) 0 = Some \<lparr>port = 4, pin = 2\<rparr>"
    "gpio_is_ready_dt (out_gpio (led_env True)) \<lparr>port = 4, pin = 2\<rparr> gpio0"
    by (simp_all add: led_env_def ref_gpio_def)
  obtain ob k1 k2 where "DigitalOut_ctor (led_env True) 0 False gpio0 = Inr (ob, k1)"
    "assign_all (led_env True) ob [True, False] k1 = Inr k2"
    "levels ref_gview k2 4 2 = [False, True, False, True]"
    using digital_out_drives [OF led_env_laws _ led, of False "[True, False]"]
    by (auto simp: ref_gview_def gpio0_def)
  then show ?thesis by (auto simp: ref_gview_def)
qed

text \<open>
  The userspace build goes through a verified system call and a driver, and yet writes and reads
  exactly as the supervisor build does, errors included.
\<close>

theorem user_build_same:
  assumes "out_env_laws env V dev" and "gpio_device ob = Some dev"
  shows "DigitalOut_write (env\<lparr>out_userspace := True\<rparr>) ob v k = DigitalOut_write (env\<lparr>out_userspace := False\<rparr>) ob v k \<and>
    DigitalOut_read (env\<lparr>out_userspace := True\<rparr>) ob k = DigitalOut_read (env\<lparr>out_userspace := False\<rparr>) ob k"
proof -
  have "out_env_laws (env\<lparr>out_userspace := True\<rparr>) V dev" using assms(1) by (simp add: out_env_laws_def)
  note set = syscall_set [OF this] and get = syscall_get [OF this]
  show ?thesis using assms(2) by (auto simp: DigitalOut_write_def DigitalOut_read_def set get split: option.splits)
qed

theorem user_build_same_witness:
  "DigitalOut_write (led_env True) \<lparr>out_spec = Some \<lparr>port = 4, pin = 2\<rparr>, gpio_device = Some 70\<rparr> True gpio0 =
    DigitalOut_write (led_env True\<lparr>out_userspace := False\<rparr>) \<lparr>out_spec = Some \<lparr>port = 4, pin = 2\<rparr>, gpio_device = Some 70\<rparr> True gpio0"
  using user_build_same [OF led_env_laws [of True], of "\<lparr>out_spec = Some \<lparr>port = 4, pin = 2\<rparr>, gpio_device = Some 70\<rparr>" True gpio0]
  by (simp add: led_env_def)

text \<open>A pin that cannot be read is reported as high: the negative return value is cast to bool.\<close>

lemma failed_read_is_high:
  assumes "\<not> out_userspace env" and "out_spec ob = Some g" and "gpio_pin_get_dt (out_gpio env) g k < 0"
  shows "DigitalOut_read env ob k = Inr True"
  using assms by (simp add: DigitalOut_read_def)

end
