(* ===== verification/Message_Queue.thy ===== *)
theory Message_Queue
  imports Error_Result Clock_Time Kernel_Pool Kernel_Instance
begin

text \<open>
  src/zpp_include/message_queue.hpp and src/zpp_rtos/message_queue.cpp: the template class over one
  kernel message queue. A message is a value of type \<open>'m\<close> (the kernel copies \<open>sizeof(T)\<close> bytes).
  The locale \<open>bounded_fifo\<close> is the contract of the class; its interpretation \<open>msgq\<close> rests on the
  documented behaviour of \<open>k_msgq_put\<close> and \<open>k_msgq_get\<close>.
\<close>

section \<open>The kernel calls\<close>

text \<open>
  \<open>k_msgq_get\<close> yields the message it has copied out, if any. \<open>mq k a\<close> is the content of the queue at
  \<open>a\<close>, oldest first, and its capacity.
\<close>

record ('k, 'm) msgq_api =
  k_msgq_init :: "addr \<Rightarrow> u32 \<Rightarrow> 'k \<Rightarrow> 'k"
  k_msgq_put :: "addr \<Rightarrow> 'm \<Rightarrow> k_timeout_t \<Rightarrow> 'k \<Rightarrow> (int \<times> 'k) option"
  k_msgq_get :: "addr \<Rightarrow> k_timeout_t \<Rightarrow> 'k \<Rightarrow> (int \<times> 'm option \<times> 'k) option"
  k_msgq_num_used_get :: "addr \<Rightarrow> 'k \<Rightarrow> u32"

type_synonym ('k, 'm) msgq_view = "'k \<Rightarrow> addr \<Rightarrow> 'm list \<times> nat"

text \<open>
  Documented: \<open>k_msgq_put\<close> returns 0 when the message is queued, \<open>-ENOMSG\<close> when the queue is full and
  it may not wait, \<open>-EAGAIN\<close> when the waiting period has passed; \<open>k_msgq_get\<close> likewise for an empty
  queue, the oldest message first.
\<close>

definition msgq_laws :: "errno_values \<Rightarrow> clock_api \<Rightarrow> ('k, 'm) msgq_api \<Rightarrow> ('k, 'm) msgq_view \<Rightarrow> bool" where
  "msgq_laws E C Q mq \<longleftrightarrow>
     (\<forall>a n k. mq (k_msgq_init Q a n k) = (mq k)(a := ([], unat n))) \<and>
     (\<forall>a m d k ms c. mq k a = (ms, c) \<and> length ms < c \<longrightarrow>
        (\<exists>k'. k_msgq_put Q a m d k = Some (0, k') \<and> mq k' = (mq k)(a := (ms @ [m], c)))) \<and>
     (\<forall>a m d k ms c. mq k a = (ms, c) \<and> c \<le> length ms \<and> d \<noteq> K_FOREVER C \<longrightarrow>
        k_msgq_put Q a m d k = Some (neg_errno E (if d = K_NO_WAIT C then ''ENOMSG'' else ''EAGAIN''), k)) \<and>
     (\<forall>a d k m ms c. mq k a = (m # ms, c) \<longrightarrow>
        (\<exists>k'. k_msgq_get Q a d k = Some (0, Some m, k') \<and> mq k' = (mq k)(a := (ms, c)))) \<and>
     (\<forall>a d k c. mq k a = ([], c) \<and> d \<noteq> K_FOREVER C \<longrightarrow>
        k_msgq_get Q a d k = Some (neg_errno E (if d = K_NO_WAIT C then ''ENOMSG'' else ''EAGAIN''), None, k)) \<and>
     (\<forall>a k ms c. mq k a = (ms, c) \<longrightarrow> k_msgq_num_used_get Q a k = word_of_nat (length ms))"

section \<open>The class\<close>

definition MessageQueue_ctor :: "('k, 'm) msgq_api \<Rightarrow> u32 \<Rightarrow> addr \<Rightarrow> 'k \<Rightarrow> addr \<times> 'k" where
  "MessageQueue_ctor Q QueueSize this_msgq k = (this_msgq, k_msgq_init Q this_msgq QueueSize k)"

definition MessageQueue_try_put_for ::
  "bool \<Rightarrow> errno_values \<Rightarrow> clock_api \<Rightarrow> ('k, 'm) msgq_api \<Rightarrow> addr \<Rightarrow> int \<Rightarrow> 'm \<Rightarrow> 'k \<Rightarrow> (zephyr_bool_result \<times> 'k) run" where
  "MessageQueue_try_put_for config_assert E C Q p timeout data k =
     (let k_timeout = microseconds_to_ticks C timeout in
      case k_msgq_put Q p data k_timeout k of
        None \<Rightarrow> Inl Stuck
      | Some (ret, k') \<Rightarrow>
          let res = ZephyrBoolResult in
          if K_TIMEOUT_EQ k_timeout (K_NO_WAIT C) \<and> ret = neg_errno E ''ENOMSG'' \<or>
             \<not> K_TIMEOUT_EQ k_timeout (K_NO_WAIT C) \<and> ret = neg_errno E ''EAGAIN''
          then Inr (b_assign_value False res, k')
          else if ret \<noteq> 0 then bindR (ZPP_ASSERT config_assert False)
            (\<lambda>_. Inr (b_assign_error (ret_code ret) (b_assign_value False res), k'))
          else Inr (res, k'))"

text \<open>\<open>data\<close> is an output parameter: its value before the call, and after it.\<close>

definition MessageQueue_try_get_for ::
  "bool \<Rightarrow> errno_values \<Rightarrow> clock_api \<Rightarrow> ('k, 'm) msgq_api \<Rightarrow> addr \<Rightarrow> int \<Rightarrow> 'm \<Rightarrow> 'k \<Rightarrow>
    (zephyr_bool_result \<times> 'm \<times> 'k) run" where
  "MessageQueue_try_get_for config_assert E C Q p timeout data k =
     (let k_timeout = microseconds_to_ticks C timeout in
      case k_msgq_get Q p k_timeout k of
        None \<Rightarrow> Inl Stuck
      | Some (ret, m, k') \<Rightarrow>
          let res = ZephyrBoolResult; data' = (case m of None \<Rightarrow> data | Some x \<Rightarrow> x) in
          if K_TIMEOUT_EQ k_timeout (K_NO_WAIT C) \<and> ret = neg_errno E ''ENOMSG'' \<or>
             \<not> K_TIMEOUT_EQ k_timeout (K_NO_WAIT C) \<and> ret = neg_errno E ''EAGAIN''
          then Inr (b_assign_value False res, data', k')
          else if ret \<noteq> 0 then bindR (ZPP_ASSERT config_assert False)
            (\<lambda>_. Inr (b_assign_error (ret_code ret) (b_assign_value False res), data', k'))
          else Inr (res, data', k'))"

definition get_nbr_of_queued_messages :: "('k, 'm) msgq_api \<Rightarrow> addr \<Rightarrow> 'k \<Rightarrow> u32" where
  "get_nbr_of_queued_messages Q p k = k_msgq_num_used_get Q p k"

text \<open>
  The userspace build takes the kernel objects from \<open>ZPP_MESSAGE_QUEUE_ARRAY\<close> (\<open>arr\<close>) by counting
  up; the class has no destructor that gives one back.
\<close>

definition MessageQueue_ctor_user ::
  "bool \<Rightarrow> addr list \<Rightarrow> ('k, 'm) msgq_api \<Rightarrow> u32 \<Rightarrow> u8 \<times> 'k \<Rightarrow> (addr \<times> u8 \<times> 'k) run" where
  "MessageQueue_ctor_user config_assert arr Q QueueSize = (\<lambda>(gMsgqInstanceCount, k).
     let i = unat gMsgqInstanceCount in
     bindR (ZPP_ASSERT config_assert (i < length arr)) (\<lambda>_.
     if length arr \<le> i then Inl Undef
     else Inr (arr ! i, gMsgqInstanceCount + 1, k_msgq_init Q (arr ! i) QueueSize k)))"

section \<open>The contract of a bounded queue\<close>

datatype 'm queue_op = Put int 'm | Get int 'm

text \<open>What a sequence of calls has accepted and delivered, in order.\<close>

fun run_queue ::
  "(int \<Rightarrow> 'm \<Rightarrow> 's \<Rightarrow> (zephyr_bool_result \<times> 's) run) \<Rightarrow> (int \<Rightarrow> 'm \<Rightarrow> 's \<Rightarrow> (zephyr_bool_result \<times> 'm \<times> 's) run) \<Rightarrow>
    'm queue_op list \<Rightarrow> 's \<Rightarrow> ('m list \<times> 'm list \<times> 's) run" where
  "run_queue put get [] s = Inr ([], [], s)"
| "run_queue put get (Put d m # ops) s =
     bindR (put d m s) (\<lambda>(res, s1).
     bindR (b_bool True res) (\<lambda>ok.
     bindR (run_queue put get ops s1) (\<lambda>(ins, outs, s2). Inr (if ok then m # ins else ins, outs, s2))))"
| "run_queue put get (Get d x # ops) s =
     bindR (get d x s) (\<lambda>(res, m, s1).
     bindR (b_bool True res) (\<lambda>ok.
     bindR (run_queue put get ops s1) (\<lambda>(ins, outs, s2). Inr (ins, if ok then m # outs else outs, s2))))"

locale bounded_fifo =
  fixes put :: "int \<Rightarrow> 'm \<Rightarrow> 's \<Rightarrow> (zephyr_bool_result \<times> 's) run"
    and get :: "int \<Rightarrow> 'm \<Rightarrow> 's \<Rightarrow> (zephyr_bool_result \<times> 'm \<times> 's) run"
    and queued :: "'s \<Rightarrow> 'm list"
    and room :: "'s \<Rightarrow> nat"
    and invar :: "'s \<Rightarrow> bool"
  assumes put_room: "invar s \<Longrightarrow> length (queued s) < room s \<Longrightarrow> \<exists>s'. put d m s = Inr (ZephyrBoolResult, s') \<and>
      queued s' = queued s @ [m] \<and> room s' = room s \<and> invar s'"
    and put_full: "invar s \<Longrightarrow> room s \<le> length (queued s) \<Longrightarrow>
      put d m s = Inr (b_assign_value False ZephyrBoolResult, s)"
    and get_some: "invar s \<Longrightarrow> queued s = m # ms \<Longrightarrow> \<exists>s'. get d x s = Inr (ZephyrBoolResult, m, s') \<and>
      queued s' = ms \<and> room s' = room s \<and> invar s'"
    and get_empty: "invar s \<Longrightarrow> queued s = [] \<Longrightarrow> get d x s = Inr (b_assign_value False ZephyrBoolResult, x, s)"
    and bounded: "invar s \<Longrightarrow> length (queued s) \<le> room s"
begin

lemma fifo:
  "invar s \<Longrightarrow> \<exists>ins outs s'. run_queue put get ops s = Inr (ins, outs, s') \<and> queued s @ ins = outs @ queued s' \<and>
    room s' = room s \<and> invar s'"
proof (induction ops arbitrary: s)
  case (Cons op ops)
  have ok: "b_bool True ZephyrBoolResult = Inr True"
    and no: "b_bool True (b_assign_value False ZephyrBoolResult) = Inr False"
    by (simp_all add: result_defs)
  show ?case
  proof (cases op)
    case (Put d m)
    show ?thesis
    proof (cases "length (queued s) < room s")
      case True
      then obtain s1 where s1: "put d m s = Inr (ZephyrBoolResult, s1)" "queued s1 = queued s @ [m]"
        "room s1 = room s" "invar s1"
        using put_room [OF Cons.prems] by blast
      show ?thesis using Cons.IH [OF s1(4)] s1(1-3) ok by (auto simp: Put)
    next
      case False
      then show ?thesis using put_full [OF Cons.prems] Cons.IH [OF Cons.prems] no by (auto simp: Put)
    qed
  next
    case (Get d x)
    show ?thesis
    proof (cases "queued s")
      case Nil
      then show ?thesis using get_empty [OF Cons.prems] Cons.IH [OF Cons.prems] no by (auto simp: Get)
    next
      case (Cons m ms)
      then obtain s1 where s1: "get d x s = Inr (ZephyrBoolResult, m, s1)" "queued s1 = ms"
        "room s1 = room s" "invar s1"
        using get_some [OF Cons.prems] by blast
      show ?thesis using Cons.IH [OF s1(4)] s1(1-3) ok Cons by (auto simp: Get)
    qed
  qed
qed simp

end

section \<open>The class keeps the contract\<close>

lemma K_TIMEOUT_EQ_iff: "K_TIMEOUT_EQ a b \<longleftrightarrow> a = b"
  by (cases a; cases b) (simp add: K_TIMEOUT_EQ_def)

lemma usec_not_forever: "clock_laws C \<Longrightarrow> microseconds_to_ticks C d \<noteq> K_FOREVER C"
  by (simp add: clock_laws_def microseconds_to_ticks_def)

lemma msgq_put_room:
  "msgq_laws E C Q mq \<Longrightarrow> mq k a = (ms, c) \<Longrightarrow> length ms < c \<Longrightarrow>
    \<exists>k'. k_msgq_put Q a m d k = Some (0, k') \<and> mq k' = (mq k)(a := (ms @ [m], c))"
  by (simp add: msgq_laws_def)

lemma msgq_put_full:
  "msgq_laws E C Q mq \<Longrightarrow> mq k a = (ms, c) \<Longrightarrow> c \<le> length ms \<Longrightarrow> d \<noteq> K_FOREVER C \<Longrightarrow>
    k_msgq_put Q a m d k = Some (neg_errno E (if d = K_NO_WAIT C then ''ENOMSG'' else ''EAGAIN''), k)"
  by (simp add: msgq_laws_def)

lemma msgq_get_some:
  "msgq_laws E C Q mq \<Longrightarrow> mq k a = (m # ms, c) \<Longrightarrow>
    \<exists>k'. k_msgq_get Q a d k = Some (0, Some m, k') \<and> mq k' = (mq k)(a := (ms, c))"
  by (simp add: msgq_laws_def)

lemma msgq_get_empty:
  "msgq_laws E C Q mq \<Longrightarrow> mq k a = ([], c) \<Longrightarrow> d \<noteq> K_FOREVER C \<Longrightarrow>
    k_msgq_get Q a d k = Some (neg_errno E (if d = K_NO_WAIT C then ''ENOMSG'' else ''EAGAIN''), None, k)"
  by (simp add: msgq_laws_def)

interpretation msgq: bounded_fifo
  "MessageQueue_try_put_for a E C Q p" "MessageQueue_try_get_for a E C Q p"
  "\<lambda>k. fst (mq k p)" "\<lambda>k. snd (mq k p)"
  "\<lambda>k. msgq_laws E C Q mq \<and> clock_laws C \<and> errno_laws E \<and> length (fst (mq k p)) \<le> snd (mq k p)"
  for a E C Q p mq
proof (unfold_locales, goal_cases)
  case (1 k d m)
  obtain ms c where q: "mq k p = (ms, c)" by (cases "mq k p")
  then obtain k' where "k_msgq_put Q p m (microseconds_to_ticks C d) k = Some (0, k')"
    "mq k' = (mq k)(p := (ms @ [m], c))"
    using 1 msgq_put_room [of E C Q mq k p ms c m "microseconds_to_ticks C d"] by auto
  then show ?case
    using 1 q neg_errno_nonzero [of E "''ENOMSG''"] neg_errno_nonzero [of E "''EAGAIN''"]
    by (auto simp: MessageQueue_try_put_for_def Let_def)
next
  case (2 k d m)
  obtain ms c where q: "mq k p = (ms, c)" by (cases "mq k p")
  then show ?case
    using 2 msgq_put_full [of E C Q mq k p ms c "microseconds_to_ticks C d" m] usec_not_forever [of C d]
    by (auto simp: MessageQueue_try_put_for_def Let_def K_TIMEOUT_EQ_iff)
next
  case (3 k m ms d x)
  then obtain c where q: "mq k p = (m # ms, c)" by (metis prod.collapse)
  then obtain k' where "k_msgq_get Q p (microseconds_to_ticks C d) k = Some (0, Some m, k')"
    "mq k' = (mq k)(p := (ms, c))"
    using 3 msgq_get_some [of E C Q mq k p m ms c "microseconds_to_ticks C d"] by auto
  then show ?case
    using 3 q neg_errno_nonzero [of E "''ENOMSG''"] neg_errno_nonzero [of E "''EAGAIN''"]
    by (auto simp: MessageQueue_try_get_for_def Let_def)
next
  case (4 k d x)
  then obtain c where q: "mq k p = ([], c)" by (metis prod.collapse)
  then show ?case
    using 4 msgq_get_empty [of E C Q mq k p c "microseconds_to_ticks C d"] usec_not_forever [of C d]
    by (auto simp: MessageQueue_try_get_for_def Let_def K_TIMEOUT_EQ_iff)
next
  case (5 k)
  then show ?case by simp
qed

section \<open>Properties\<close>

record 'm rq =
  rq_queues :: "addr \<Rightarrow> 'm list \<times> nat"

definition ref_msgq :: "('m rq, 'm) msgq_api" where
  "ref_msgq = \<lparr>
     k_msgq_init = (\<lambda>a n k. k\<lparr>rq_queues := (rq_queues k)(a := ([], unat n))\<rparr>),
     k_msgq_put = (\<lambda>a m d k. case rq_queues k a of (ms, c) \<Rightarrow>
        if length ms < c then Some (0, k\<lparr>rq_queues := (rq_queues k)(a := (ms @ [m], c))\<rparr>)
        else if ticks d = -1 then None
        else Some (neg_errno ref_errno (if ticks d = 0 then ''ENOMSG'' else ''EAGAIN''), k)),
     k_msgq_get = (\<lambda>a d k. case rq_queues k a of
        (m # ms, c) \<Rightarrow> Some (0, Some m, k\<lparr>rq_queues := (rq_queues k)(a := (ms, c))\<rparr>)
      | ([], c) \<Rightarrow> if ticks d = -1 then None
          else Some (neg_errno ref_errno (if ticks d = 0 then ''ENOMSG'' else ''EAGAIN''), None, k)),
     k_msgq_num_used_get = (\<lambda>a k. word_of_nat (length (fst (rq_queues k a))))\<rparr>"

lemma ref_msgq_laws: "msgq_laws ref_errno ref_clock ref_msgq rq_queues"
  by (auto simp: msgq_laws_def ref_msgq_def ref_clock_def)

text \<open>
  C12: a message queue is a bounded FIFO. A new queue is empty with the given capacity, and whatever
  sequence of calls of try_put_for and try_get_for is made on it, with whatever timeouts, no call
  fails or asserts: the messages delivered, followed by those still queued, are the messages accepted,
  in their order, and never more than the capacity is queued.
\<close>

theorem message_queue_is_fifo:
  assumes "msgq_laws E C Q mq" and "clock_laws C" and "errno_laws E"
  shows "\<exists>p k0 ins outs k'. MessageQueue_ctor Q QueueSize this_msgq k = (p, k0) \<and>
    run_queue (MessageQueue_try_put_for a E C Q p) (MessageQueue_try_get_for a E C Q p) ops k0 = Inr (ins, outs, k') \<and>
    ins = outs @ fst (mq k' p) \<and> length (fst (mq k' p)) \<le> unat QueueSize \<and>
    get_nbr_of_queued_messages Q p k' = word_of_nat (length ins - length outs)"
proof -
  let ?k0 = "k_msgq_init Q this_msgq QueueSize k"
  have init: "mq ?k0 = (mq k)(this_msgq := ([], unat QueueSize))" using assms(1) by (simp add: msgq_laws_def)
  then have "msgq_laws E C Q mq \<and> clock_laws C \<and> errno_laws E \<and> length (fst (mq ?k0 this_msgq)) \<le> snd (mq ?k0 this_msgq)"
    using assms by simp
  from msgq.fifo [OF this, of a ops] obtain ins outs k' where r:
    "run_queue (MessageQueue_try_put_for a E C Q this_msgq) (MessageQueue_try_get_for a E C Q this_msgq) ops ?k0
      = Inr (ins, outs, k')"
    "ins = outs @ fst (mq k' this_msgq)" "snd (mq k' this_msgq) = unat QueueSize"
    "length (fst (mq k' this_msgq)) \<le> snd (mq k' this_msgq)"
    using init by auto
  have "get_nbr_of_queued_messages Q this_msgq k' = word_of_nat (length (fst (mq k' this_msgq)))"
    using assms(1) by (cases "mq k' this_msgq") (simp add: msgq_laws_def get_nbr_of_queued_messages_def)
  then show ?thesis using r by (simp add: MessageQueue_ctor_def)
qed

theorem message_queue_is_fifo_witness:
  "\<exists>ins outs k'. run_queue (MessageQueue_try_put_for True ref_errno ref_clock ref_msgq 5)
      (MessageQueue_try_get_for True ref_errno ref_clock ref_msgq 5)
      [Put 0 (7 :: nat), Put 10 8, Put 0 9, Get 5 0] (k_msgq_init ref_msgq 5 2 \<lparr>rq_queues = (\<lambda>_. ([], 0))\<rparr>)
      = Inr (ins, outs, k') \<and> ins = outs @ fst (rq_queues k' 5) \<and> length (fst (rq_queues k' 5)) \<le> 2"
  using message_queue_is_fifo [OF ref_msgq_laws ref_clock_laws ref_errno_laws, of 2 5 "\<lparr>rq_queues = (\<lambda>_. ([], 0))\<rparr>"
    True "[Put 0 (7 :: nat), Put 10 8, Put 0 9, Get 5 0]"]
  by (auto simp: MessageQueue_ctor_def)

text \<open>
  The userspace build gives every queue of the pool its own kernel object, but it never takes one
  back: the number of queues that can be constructed over the life of the program, not the number
  alive, is bounded by the pool; the next construction asserts, or without assertions writes outside
  the array.
\<close>

theorem message_queue_pool_is_used_up:
  assumes "distinct arr" and "length arr < 256"
  shows "(n \<le> length arr \<longrightarrow> (\<exists>c k'. alloc_many (MessageQueue_ctor_user a arr Q QueueSize) n (0, k) = Inr (take n arr, c, k'))) \<and>
    (length arr < n \<longrightarrow> alloc_many (MessageQueue_ctor_user a arr Q QueueSize) n (0, k) = Inl (if a then Panic else Undef))"
proof -
  have room: "MessageQueue_ctor_user a arr Q QueueSize (c, k) =
      Inr (arr ! unat c, c + 1, k_msgq_init Q (arr ! unat c) QueueSize k)" if "unat c < length arr" for c k
    using that by (simp add: MessageQueue_ctor_user_def Let_def)
  have full: "MessageQueue_ctor_user a arr Q QueueSize (c, k) = Inl (if a then Panic else Undef)"
    if "\<not> unat c < length arr" for c k
    using that by (cases a) (simp_all add: MessageQueue_ctor_user_def Let_def)
  have step: "if n + unat c \<le> length arr
    then \<exists>c' k'. alloc_many (MessageQueue_ctor_user a arr Q QueueSize) n (c, k) = Inr (take n (drop (unat c) arr), c', k')
    else unat c \<le> length arr \<longrightarrow> alloc_many (MessageQueue_ctor_user a arr Q QueueSize) n (c, k) = Inl (if a then Panic else Undef)"
    for c
  proof (induction n arbitrary: c k)
    case (Suc n)
    show ?case
    proof (cases "unat c < length arr")
      case True
      then have c: "unat (c + 1) = Suc (unat c)" using assms(2) by (intro unat_u8_inc) simp
      have "take (Suc n) (drop (unat c) arr) = arr ! unat c # take n (drop (Suc (unat c)) arr)"
        using True by (simp flip: Cons_nth_drop_Suc)
      then show ?thesis
        using True Suc.IH [of "c + 1" "k_msgq_init Q (arr ! unat c) QueueSize k"]
        by (auto simp: room c split: if_splits)
    next
      case False
      then show ?thesis by (simp add: full)
    qed
  qed simp
  show ?thesis using step [of 0] by (auto split: if_splits)
qed

theorem message_queue_pool_is_used_up_witness:
  "alloc_many (MessageQueue_ctor_user True [10, 20] ref_msgq 4) 3 (0, \<lparr>rq_queues = (\<lambda>_. ([] :: nat list, 0))\<rparr>) = Inl Panic"
  using message_queue_pool_is_used_up [of "[10, 20]" 3 True ref_msgq 4 "\<lparr>rq_queues = (\<lambda>_. ([] :: nat list, 0))\<rparr>"] by simp

end
