(* ===== verification/Work_Queue.thy ===== *)
theory Work_Queue
  imports Thread_Class
begin

text \<open>
  src/zpp_include/work.hpp and work_queue.hpp: work items that capture an object, a method and
  arguments, and the queue whose thread runs them. The items live in a store by their address; the
  kernel's part of the queue is a parameter. The refinement shows that a running queue behaves as a
  list of jobs with the arguments they were submitted with.
\<close>

section \<open>The kernel calls\<close>

text \<open>
  \<open>k_work_queue_run\<close> does not return while the queue runs, so it is split: the call makes the queue
  run, and \<open>k_work_queue_next\<close> is its loop taking the next item, whose handler it then calls.
\<close>

record 'k work_api =
  k_work_queue_init :: "addr \<Rightarrow> 'k \<Rightarrow> 'k"
  k_work_queue_run :: "addr \<Rightarrow> string \<Rightarrow> bool \<Rightarrow> 'k \<Rightarrow> 'k"
  k_work_queue_next :: "addr \<Rightarrow> 'k \<Rightarrow> (addr \<times> 'k) option"
  k_work_queue_drain :: "addr \<Rightarrow> bool \<Rightarrow> 'k \<Rightarrow> (int \<times> 'k) option"
  k_work_queue_stop :: "addr \<Rightarrow> k_timeout_t \<Rightarrow> 'k \<Rightarrow> (int \<times> 'k) option"
  k_work_submit_to_queue :: "addr \<Rightarrow> addr \<Rightarrow> 'k \<Rightarrow> int \<times> 'k"
  k_work_init :: "addr \<Rightarrow> 'k \<Rightarrow> 'k"
  k_work_is_pending :: "addr \<Rightarrow> 'k \<Rightarrow> bool"

text \<open>
  The queue at \<open>q\<close>: whether it runs, and its items, next one first. Documented: submitting an item
  returns 1 when it is queued, 0 when it was queued already, \<open>-ENODEV\<close> when the queue does not run;
  draining waits until no item is left, with 0 when it did not have to wait; stopping a drained queue
  returns 0. The items are used with this queue only. An item is pending while it is queued; Zephyr also
  counts an item whose handler runs, which no step of this model sees, since serving an item takes it from
  the queue and runs its handler at once.
\<close>

type_synonym 'k queue_view = "'k \<Rightarrow> bool \<times> addr list"

definition work_laws ::
  "errno_values \<Rightarrow> clock_api \<Rightarrow> 'k work_api \<Rightarrow> 'k event_api \<Rightarrow> addr \<Rightarrow> 'k queue_view \<Rightarrow> bool" where
  "work_laws E C W A q st \<longleftrightarrow>
     (\<forall>k. st (k_work_queue_init W q k) = (False, [])) \<and>
     (\<forall>k ms n y. st k = (False, ms) \<longrightarrow> st (k_work_queue_run W q n y k) = (True, ms)) \<and>
     (\<forall>k a ms. st k = (True, a # ms) \<longrightarrow> (\<exists>k'. k_work_queue_next W q k = Some (a, k') \<and> st k' = (True, ms))) \<and>
     (\<forall>k. st k = (True, []) \<longrightarrow> k_work_queue_next W q k = None) \<and>
     (\<forall>k ms a. st k = (True, ms) \<and> a \<in> set ms \<longrightarrow> k_work_submit_to_queue W q a k = (0, k)) \<and>
     (\<forall>k ms a. st k = (True, ms) \<and> a \<notin> set ms \<longrightarrow>
        (\<exists>k'. k_work_submit_to_queue W q a k = (1, k') \<and> st k' = (True, ms @ [a]))) \<and>
     (\<forall>k ms a. st k = (False, ms) \<longrightarrow> k_work_submit_to_queue W q a k = (neg_errno E ''ENODEV'', k)) \<and>
     (\<forall>k p. st k = (True, []) \<longrightarrow> (\<exists>k'. k_work_queue_drain W q p k = Some (0, k') \<and> st k' = (True, []))) \<and>
     (\<forall>k p a ms. st k = (True, a # ms) \<longrightarrow> k_work_queue_drain W q p k = None) \<and>
     (\<forall>k. st k = (True, []) \<longrightarrow>
        (\<exists>k'. k_work_queue_stop W q (K_FOREVER C) k = Some (0, k') \<and> st k' = (False, []))) \<and>
     (\<forall>a k. st (k_work_init W a k) = st k) \<and>
     (\<forall>a k. k_work_is_pending W a k \<longleftrightarrow> a \<in> set (snd (st k))) \<and>
     (\<forall>a f k. st (k_event_set A a f k) = st k \<and> st (k_event_post A a f k) = st k \<and> st (k_event_clear A a f k) = st k)"

section \<open>Work\<close>

record ('o, 'm, 'x) work =
  work_obj :: 'o
  work_method :: 'm
  work_args :: 'x

definition Work_ctor :: "'k work_api \<Rightarrow> addr \<Rightarrow> 'o \<Rightarrow> 'm \<Rightarrow> 'x \<Rightarrow> 'k \<Rightarrow> ('o, 'm, 'x) work \<times> 'k" where
  "Work_ctor W this_work ob m args k =
     (\<lparr>work_obj = ob, work_method = m, work_args = args\<rparr>, k_work_init W this_work k)"

definition Work_set_params ::
  "'k work_api \<Rightarrow> addr \<Rightarrow> 'x \<Rightarrow> 'k \<Rightarrow> ('o, 'm, 'x) work \<Rightarrow> ('o, 'm, 'x) work" where
  "Work_set_params W this_work args k wk =
     (if k_work_is_pending W this_work k then wk else wk\<lparr>work_args := args\<rparr>)"

text \<open>The handler: \<open>item\<close> is the \<open>k_work\<close> that starts the object; \<open>invoke\<close> calls a method.\<close>

definition Work_s_thunk ::
  "('o \<Rightarrow> 'm \<Rightarrow> 'x \<Rightarrow> 'r) \<Rightarrow> (addr \<Rightarrow> ('o, 'm, 'x) work) \<Rightarrow> addr \<Rightarrow> 'r" where
  "Work_s_thunk invoke works item =
     (let p_work = works item in invoke (work_obj p_work) (work_method p_work) (work_args p_work))"

section \<open>WorkQueue\<close>

record work_queue =
  wq_queue :: addr
  wq_name :: string
  wq_event :: addr

record ('k, 'o, 'm, 'x) wq_world =
  wkern :: 'k
  works :: "addr \<Rightarrow> ('o, 'm, 'x) work"
  is_started :: bool

record 'k wq_env =
  wq_assert :: bool
  wq_qemu_userspace :: bool
  wq_errno :: errno_values
  wq_clock :: clock_api
  wq_events :: "'k event_api"
  wq_work :: "'k work_api"

text \<open>\<open>run\<close> up to the point where \<open>k_work_queue_run\<close> waits for items.\<close>

definition WorkQueue_run ::
  "'k wq_env \<Rightarrow> work_queue \<Rightarrow> ('k, 'o, 'm, 'x) wq_world \<Rightarrow> ('k, 'o, 'm, 'x) wq_world" where
  "WorkQueue_run env ob w =
     (if is_started w then w
      else
        let k1 = Event_set (wq_qemu_userspace env) (wq_events env) kStartedEvent (wq_event ob) (wkern w)
        in w\<lparr>is_started := True, wkern := k_work_queue_run (wq_work env) (wq_queue ob) (wq_name ob) True k1\<rparr>)"

definition WorkQueue_stop ::
  "'k wq_env \<Rightarrow> work_queue \<Rightarrow> ('k, 'o, 'm, 'x) wq_world \<Rightarrow> (zephyr_result \<times> ('k, 'o, 'm, 'x) wq_world) run" where
  "WorkQueue_stop env ob w =
     (let res = ZephyrResult; assert_false = ZPP_ASSERT (wq_assert env) False in
      if \<not> is_started w then Inr (res, w)
      else case k_work_queue_drain (wq_work env) (wq_queue ob) True (wkern w) of
        None \<Rightarrow> Inl Stuck
      | Some (ret, k1) \<Rightarrow>
          (if ret < 0 then bindR assert_false (\<lambda>_. Inr (r_assign_error (ret_code ret) res, w\<lparr>wkern := k1\<rparr>))
           else case k_work_queue_stop (wq_work env) (wq_queue ob) (K_FOREVER (wq_clock env)) k1 of
             None \<Rightarrow> Inl Stuck
           | Some (ret, k2) \<Rightarrow>
               (if ret \<noteq> 0 then bindR assert_false (\<lambda>_. Inr (r_assign_error (ret_code ret) res, w\<lparr>wkern := k2\<rparr>))
                else Inr (res, w\<lparr>wkern := k2, is_started := False\<rparr>))))"

definition WorkQueue_wait_started ::
  "'k wq_env \<Rightarrow> work_queue \<Rightarrow> ('k, 'o, 'm, 'x) wq_world \<Rightarrow> ('k, 'o, 'm, 'x) wq_world run" where
  "WorkQueue_wait_started env ob w =
     bindR (Event_wait_any (wq_clock env) (wq_events env) kStartedEvent (wq_event ob) (wkern w))
       (\<lambda>k. Inr (w\<lparr>wkern := k\<rparr>))"

definition WorkQueue_call ::
  "'k wq_env \<Rightarrow> work_queue \<Rightarrow> addr \<Rightarrow> ('k, 'o, 'm, 'x) wq_world \<Rightarrow> (zephyr_result \<times> ('k, 'o, 'm, 'x) wq_world) run" where
  "WorkQueue_call env ob work w =
     (let res = ZephyrResult; assert_false = ZPP_ASSERT (wq_assert env) False in
      if \<not> is_started w then
        bindR assert_false (\<lambda>_. Inr (r_assign_error (Nodev (wq_errno env)) res, w))
      else case k_work_submit_to_queue (wq_work env) (wq_queue ob) work (wkern w) of
        (ret, k') \<Rightarrow>
          (if ret \<noteq> 0 \<and> ret \<noteq> 1 \<and> ret \<noteq> 2 then
             bindR assert_false (\<lambda>_. Inr (r_assign_error (ret_code ret) res, w\<lparr>wkern := k'\<rparr>))
           else Inr (res, w\<lparr>wkern := k'\<rparr>)))"

text \<open>The constructor for a queue whose \<open>run\<close> some other thread will call.\<close>

definition WorkQueue_ctor :: "'k work_api \<Rightarrow> work_queue \<Rightarrow> 'k \<Rightarrow> 'k" where
  "WorkQueue_ctor W ob k = k_work_queue_init W (wq_queue ob) k"

text \<open>
  The constructor with a thread of its own: it starts the thread and waits for the thread's start
  event; \<open>others\<close> is what the other threads do meanwhile.
\<close>

definition WorkQueue_ctor_thread ::
  "'k thread_env \<Rightarrow> 'k work_api \<Rightarrow> tid \<Rightarrow> addr \<Rightarrow> 'f \<Rightarrow>
    (('k, 'f) thread_world \<times> bool \<Rightarrow> (('k, 'f) thread_world \<times> bool) run) \<Rightarrow> work_queue \<Rightarrow>
    ('k, 'f) thread_world \<Rightarrow> (('k, 'f) thread_world \<times> bool) run" where
  "WorkQueue_ctor_thread env W me thread run_task others ob tw =
     (let tw1 = tw\<lparr>tkern := k_work_queue_init W (wq_queue ob) (tkern tw)\<rparr> in
      bindR (Thread_start env me thread run_task tw1) (\<lambda>(res, tw2).
      bindR (if \<not> r_bool res then ZPP_ASSERT (config_assert env) False else Inr ()) (\<lambda>_.
      bindR (others (tw2, False)) (\<lambda>(tw3, started).
      bindR (Thread_wait_started env thread tw3) (\<lambda>tw4. Inr (tw4, started))))))"

section \<open>A running queue\<close>

definition wq_laws :: "'k wq_env \<Rightarrow> work_queue \<Rightarrow> 'k queue_view \<Rightarrow> bool" where
  "wq_laws env ob st \<longleftrightarrow> work_laws (wq_errno env) (wq_clock env) (wq_work env) (wq_events env) (wq_queue ob) st"

datatype 'x wq_op = Call addr | Set_params addr 'x | Serve

text \<open>One step of the program: a call of a client, or the queue's thread running the next item.\<close>

fun wq_step ::
  "'k wq_env \<Rightarrow> work_queue \<Rightarrow> 'x wq_op \<Rightarrow> ('k, 'o, 'm, 'x) wq_world \<Rightarrow>
    (('o \<times> 'm \<times> 'x) list \<times> ('k, 'o, 'm, 'x) wq_world) run" where
  "wq_step env ob (Call a) w = bindR (WorkQueue_call env ob a w) (\<lambda>(res, w').
     bindR (ZPP_ASSERT True (r_bool res)) (\<lambda>_. Inr ([], w')))"
| "wq_step env ob (Set_params a x) w =
     Inr ([], w\<lparr>works := (works w)(a := Work_set_params (wq_work env) a x (wkern w) (works w a))\<rparr>)"
| "wq_step env ob Serve w = (case k_work_queue_next (wq_work env) (wq_queue ob) (wkern w) of
     None \<Rightarrow> Inl Stuck
   | Some (item, k') \<Rightarrow> Inr ([Work_s_thunk (\<lambda>b m x. (b, m, x)) (works w) item], w\<lparr>wkern := k'\<rparr>))"

fun wq_steps ::
  "'k wq_env \<Rightarrow> work_queue \<Rightarrow> 'x wq_op list \<Rightarrow> ('k, 'o, 'm, 'x) wq_world \<Rightarrow>
    (('o \<times> 'm \<times> 'x) list \<times> ('k, 'o, 'm, 'x) wq_world) run" where
  "wq_steps env ob [] w = Inr ([], w)"
| "wq_steps env ob (op # ops) w =
     bindR (wq_step env ob op w) (\<lambda>(l, w1). bindR (wq_steps env ob ops w1) (\<lambda>(l', w2). Inr (l @ l', w2)))"

text \<open>
  The specification: jobs with the arguments they had when they were submitted, first in first out;
  submitting a waiting item changes nothing, nor does setting its parameters.
\<close>

record 'x jobs =
  job_queue :: "(addr \<times> 'x) list"
  job_args :: "addr \<Rightarrow> 'x"

fun spec_step :: "'x wq_op \<Rightarrow> 'x jobs \<Rightarrow> ((addr \<times> 'x) list \<times> 'x jobs) option" where
  "spec_step (Call a) s =
     (if a \<in> fst ` set (job_queue s) then Some ([], s)
      else Some ([], s\<lparr>job_queue := job_queue s @ [(a, job_args s a)]\<rparr>))"
| "spec_step (Set_params a x) s =
     (if a \<in> fst ` set (job_queue s) then Some ([], s) else Some ([], s\<lparr>job_args := (job_args s)(a := x)\<rparr>))"
| "spec_step Serve s = (case job_queue s of [] \<Rightarrow> None | j # js \<Rightarrow> Some ([j], s\<lparr>job_queue := js\<rparr>))"

fun spec_steps :: "'x wq_op list \<Rightarrow> 'x jobs \<Rightarrow> ((addr \<times> 'x) list \<times> 'x jobs) option" where
  "spec_steps [] s = Some ([], s)"
| "spec_steps (op # ops) s = (case spec_step op s of None \<Rightarrow> None
     | Some (l, s1) \<Rightarrow> (case spec_steps ops s1 of None \<Rightarrow> None | Some (l', s2) \<Rightarrow> Some (l @ l', s2)))"

text \<open>The relation between the two, and what a job of the specification calls.\<close>

definition wq_rel :: "'k queue_view \<Rightarrow> ('k, 'o, 'm, 'x) wq_world \<Rightarrow> 'x jobs \<Rightarrow> bool" where
  "wq_rel st w s \<longleftrightarrow> is_started w \<and> st (wkern w) = (True, map fst (job_queue s)) \<and>
     (\<forall>a. work_args (works w a) = job_args s a) \<and> (\<forall>(a, x)\<in>set (job_queue s). job_args s a = x)"

definition job_call :: "(addr \<Rightarrow> ('o, 'm, 'x) work) \<Rightarrow> addr \<times> 'x \<Rightarrow> 'o \<times> 'm \<times> 'x" where
  "job_call ws j = (work_obj (ws (fst j)), work_method (ws (fst j)), snd j)"

lemma wq_submit:
  assumes "wq_laws env ob st" and "st k = (True, ms)"
  shows "a \<in> set ms \<Longrightarrow> k_work_submit_to_queue (wq_work env) (wq_queue ob) a k = (0, k)"
    and "a \<notin> set ms \<Longrightarrow> \<exists>k'. k_work_submit_to_queue (wq_work env) (wq_queue ob) a k = (1, k') \<and> st k' = (True, ms @ [a])"
  using assms by (simp_all add: wq_laws_def work_laws_def)

lemma wq_next:
  assumes "wq_laws env ob st"
  shows "st k = (True, a # ms) \<Longrightarrow> \<exists>k'. k_work_queue_next (wq_work env) (wq_queue ob) k = Some (a, k') \<and> st k' = (True, ms)"
    and "st k = (True, []) \<Longrightarrow> k_work_queue_next (wq_work env) (wq_queue ob) k = None"
  using assms by (simp_all add: wq_laws_def work_laws_def)

lemma wq_pending:
  "wq_laws env ob st \<Longrightarrow> st k = (b, ms) \<Longrightarrow> k_work_is_pending (wq_work env) a k \<longleftrightarrow> a \<in> set ms"
  by (simp add: wq_laws_def work_laws_def)

lemma wq_started:
  assumes "wq_laws env ob st"
  shows "st k = (False, ms) \<Longrightarrow> st (k_work_queue_run (wq_work env) (wq_queue ob) n y k) = (True, ms)"
    and "st (k_work_queue_init (wq_work env) (wq_queue ob) k) = (False, [])"
    and "st (Event_set q (wq_events env) f p k) = st k"
  using assms by (simp_all add: wq_laws_def work_laws_def Event_set_def)

lemma wq_drained:
  assumes "wq_laws env ob st" and "st k = (True, ms)"
  shows "ms = [] \<Longrightarrow> \<exists>k'. k_work_queue_drain (wq_work env) (wq_queue ob) p k = Some (0, k') \<and> st k' = (True, [])"
    and "ms \<noteq> [] \<Longrightarrow> k_work_queue_drain (wq_work env) (wq_queue ob) p k = None"
    and "ms = [] \<Longrightarrow> \<exists>k'. k_work_queue_stop (wq_work env) (wq_queue ob) (K_FOREVER (wq_clock env)) k = Some (0, k') \<and>
      st k' = (False, [])"
  using assms by (auto simp: wq_laws_def work_laws_def neq_Nil_conv)

text \<open>One step of the program is one step of the specification.\<close>

lemma wq_step_refines:
  assumes laws: "wq_laws env ob st" and rel: "wq_rel st w s"
  shows "case spec_step op s of
      None \<Rightarrow> wq_step env ob op w = Inl Stuck
    | Some (l, s') \<Rightarrow> \<exists>w'. wq_step env ob op w = Inr (map (job_call (works w)) l, w') \<and> wq_rel st w' s' \<and>
        job_call (works w') = job_call (works w)"
proof -
  have q: "st (wkern w) = (True, map fst (job_queue s))" and started: "is_started w"
    and args: "\<And>a. work_args (works w a) = job_args s a"
    and jobs: "\<And>a x. (a, x) \<in> set (job_queue s) \<Longrightarrow> job_args s a = x"
    using rel by (auto simp: wq_rel_def)
  have mem: "a \<in> fst ` set (job_queue s) \<longleftrightarrow> a \<in> set (map fst (job_queue s))" for a by simp
  show ?thesis
  proof (cases op)
    case (Call a)
    show ?thesis
    proof (cases "a \<in> fst ` set (job_queue s)")
      case True
      then have "k_work_submit_to_queue (wq_work env) (wq_queue ob) a (wkern w) = (0, wkern w)"
        by (intro wq_submit(1) [OF laws q]) simp
      then show ?thesis using True Call started rel by (simp add: WorkQueue_call_def)
    next
      case False
      then obtain k' where "k_work_submit_to_queue (wq_work env) (wq_queue ob) a (wkern w) = (1, k')"
        "st k' = (True, map fst (job_queue s) @ [a])"
        using wq_submit(2) [OF laws q, of a] by auto
      then show ?thesis using False Call started args jobs by (auto simp: WorkQueue_call_def wq_rel_def)
    qed
  next
    case (Set_params a x)
    have pend: "k_work_is_pending (wq_work env) a (wkern w) \<longleftrightarrow> a \<in> fst ` set (job_queue s)"
      using wq_pending [OF laws q] by simp
    show ?thesis
    proof (cases "a \<in> fst ` set (job_queue s)")
      case True
      then show ?thesis using Set_params rel pend by (simp add: Work_set_params_def)
    next
      case False
      then have "c \<noteq> a" if "(c, y) \<in> set (job_queue s)" for c y using that by force
      then show ?thesis
        using False Set_params pend q started args jobs
        by (auto simp: Work_set_params_def wq_rel_def job_call_def fun_eq_iff)
    qed
  next
    case Serve
    show ?thesis
    proof (cases "job_queue s")
      case Nil
      then show ?thesis using wq_next(2) [OF laws] q Serve by simp
    next
      case (Cons j js)
      then obtain k' where "k_work_queue_next (wq_work env) (wq_queue ob) (wkern w) = Some (fst j, k')"
        "st k' = (True, map fst js)"
        using wq_next(1) [OF laws, of "wkern w" "fst j" "map fst js"] q by auto
      moreover have "job_args s (fst j) = snd j" using jobs [of "fst j" "snd j"] Cons by simp
      ultimately show ?thesis
        using Cons Serve started args jobs by (auto simp: Work_s_thunk_def job_call_def wq_rel_def Let_def)
    qed
  qed
qed

lemma wq_steps_refine:
  assumes laws: "wq_laws env ob st"
  shows "wq_rel st w s \<Longrightarrow> (case spec_steps ops s of
      None \<Rightarrow> wq_steps env ob ops w = Inl Stuck
    | Some (l, s') \<Rightarrow> \<exists>w'. wq_steps env ob ops w = Inr (map (job_call (works w)) l, w') \<and> wq_rel st w' s' \<and>
        job_call (works w') = job_call (works w))"
proof (induction ops arbitrary: w s)
  case (Cons op ops)
  show ?case
  proof (cases "spec_step op s")
    case None
    then show ?thesis using wq_step_refines [OF laws Cons.prems, of op] by simp
  next
    case (Some r)
    then obtain l s1 where r: "spec_step op s = Some (l, s1)" by (cases r) auto
    then obtain w1 where w1: "wq_step env ob op w = Inr (map (job_call (works w)) l, w1)" "wq_rel st w1 s1"
      "job_call (works w1) = job_call (works w)"
      using wq_step_refines [OF laws Cons.prems, of op] by auto
    show ?thesis using Cons.IH [OF w1(2)] r w1 by (auto split: option.splits)
  qed
qed simp

text \<open>The queue as \<open>run\<close> leaves it.\<close>

lemma run_starts:
  assumes "wq_laws env ob st" and "\<not> is_started w" and "st (wkern w) = (False, [])"
  shows "wq_rel st (WorkQueue_run env ob w) \<lparr>job_queue = [], job_args = (\<lambda>a. work_args (works w a))\<rparr>"
    and "works (WorkQueue_run env ob w) = works w"
  using assms wq_started [OF assms(1)] by (simp_all add: WorkQueue_run_def wq_rel_def Let_def)

section \<open>Properties\<close>

text \<open>
  C11: once run() has been entered the queue refines a first-in first-out list of jobs: for any sequence
  of call, set_params and items served, the methods invoked are those of the accepted submissions, in
  their order, with the arguments each had when it was submitted; no call fails, and the queue's thread
  waits exactly when the list is empty.
\<close>

theorem work_queue_refines_jobs:
  assumes "wq_laws env ob st" and "\<not> is_started w" and "st (wkern w) = (False, [])"
  shows "case spec_steps ops \<lparr>job_queue = [], job_args = (\<lambda>a. work_args (works w a))\<rparr> of
      None \<Rightarrow> wq_steps env ob ops (WorkQueue_run env ob w) = Inl Stuck
    | Some (l, s') \<Rightarrow> \<exists>w'. wq_steps env ob ops (WorkQueue_run env ob w) = Inr (map (job_call (works w)) l, w') \<and>
        st (wkern w') = (True, map fst (job_queue s'))"
  using wq_steps_refine [OF assms(1) run_starts(1) [OF assms], of ops] run_starts(2) [OF assms]
  by (auto simp: wq_rel_def split: option.splits)

text \<open>
  C32: stop waits until the queue is empty, and a stopped queue refuses work: the call asserts, or
  without assertions returns an error, until run() is entered again; stopping again, or stopping any
  queue that is not running (one that never ran among them), changes nothing and reports no error, and
  run() on a running queue does nothing.
\<close>

theorem work_queue_stop:
  fixes w :: "('k, 'o, 'm, 'x) wq_world"
  assumes "wq_laws env ob st" and "wq_rel st w s"
  shows "WorkQueue_run env ob w = w \<and>
    (job_queue s \<noteq> [] \<longrightarrow> WorkQueue_stop env ob w = Inl Stuck) \<and>
    (job_queue s = [] \<longrightarrow> (\<exists>w'. WorkQueue_stop env ob w = Inr (ZephyrResult, w') \<and> works w' = works w \<and>
       WorkQueue_stop env ob w' = Inr (ZephyrResult, w') \<and>
       (\<forall>a. WorkQueue_call env ob a w' = (if wq_assert env then Inl Panic
          else Inr (r_assign_error (Nodev (wq_errno env)) ZephyrResult, w'))) \<and>
       wq_rel st (WorkQueue_run env ob w') s)) \<and>
    (\<forall>w0 :: ('k, 'o, 'm, 'x) wq_world. \<not> is_started w0 \<longrightarrow> WorkQueue_stop env ob w0 = Inr (ZephyrResult, w0))"
proof -
  have q: "st (wkern w) = (True, map fst (job_queue s))" and started: "is_started w"
    using assms(2) by (auto simp: wq_rel_def)
  have "\<exists>w'. WorkQueue_stop env ob w = Inr (ZephyrResult, w') \<and> works w' = works w \<and>
       \<not> is_started w' \<and> st (wkern w') = (False, [])" if "job_queue s = []"
  proof -
    have e: "map fst (job_queue s) = []" using that by simp
    obtain k1 where k1: "k_work_queue_drain (wq_work env) (wq_queue ob) True (wkern w) = Some (0, k1)" "st k1 = (True, [])"
      using wq_drained(1) [OF assms(1) q e] by blast
    then obtain k2 where "k_work_queue_stop (wq_work env) (wq_queue ob) (K_FOREVER (wq_clock env)) k1 = Some (0, k2)"
      "st k2 = (False, [])"
      using wq_drained(3) [OF assms(1) k1(2)] by blast
    then show ?thesis using k1(1) started by (simp add: WorkQueue_stop_def)
  qed
  moreover have "WorkQueue_stop env ob w' = Inr (ZephyrResult, w') \<and>
      (\<forall>a. WorkQueue_call env ob a w' = (if wq_assert env then Inl Panic
          else Inr (r_assign_error (Nodev (wq_errno env)) ZephyrResult, w'))) \<and>
      wq_rel st (WorkQueue_run env ob w') s"
    if "\<not> is_started w'" "st (wkern w') = (False, [])" "works w' = works w" "job_queue s = []" for w'
    using that run_starts [OF assms(1) that(1,2)] assms(2)
    by (auto simp: WorkQueue_stop_def WorkQueue_call_def wq_rel_def)
  moreover have "WorkQueue_stop env ob w = Inl Stuck" if "job_queue s \<noteq> []"
    using wq_drained(2) [OF assms(1) q] that started by (simp add: WorkQueue_stop_def)
  moreover have "WorkQueue_stop env ob w0 = Inr (ZephyrResult, w0)" if "\<not> is_started w0" for w0 :: "('k, 'o, 'm, 'x) wq_world"
    using that by (simp add: WorkQueue_stop_def)
  ultimately show ?thesis using started by (fastforce simp: WorkQueue_run_def)
qed

text \<open>The queue calls leave mutexes, events and threads alone.\<close>

definition work_frame :: "'k work_api \<Rightarrow> addr \<Rightarrow> 'k view \<Rightarrow> 'k thread_view \<Rightarrow> bool" where
  "work_frame W q V TV \<longleftrightarrow>
     (\<forall>k. mx V (k_work_queue_init W q k) = mx V k \<and> ev V (k_work_queue_init W q k) = ev V k \<and>
        TV (k_work_queue_init W q k) = TV k) \<and>
     (\<forall>n y k. mx V (k_work_queue_run W q n y k) = mx V k \<and> ev V (k_work_queue_run W q n y k) = ev V k \<and>
        TV (k_work_queue_run W q n y k) = TV k)"

text \<open>
  How far the new thread has come while the constructor waits: it has executed the first statement of
  \<open>s_thunk\<close> and not yet the task.
\<close>

definition thread_signals ::
  "'k thread_env \<Rightarrow> addr \<Rightarrow> ('k, 'f) thread_world \<times> bool \<Rightarrow> (('k, 'f) thread_world \<times> bool) run" where
  "thread_signals env t = (\<lambda>(tw, started).
     Inr (tw\<lparr>tkern := Event_set (qemu_userspace env) (env_event env) kStartedEvent (th_event (objs tw t)) (tkern tw)\<rparr>, started))"

definition wq_env_of :: "'k thread_env \<Rightarrow> 'k work_api \<Rightarrow> 'k wq_env" where
  "wq_env_of env W = \<lparr>wq_assert = config_assert env, wq_qemu_userspace = qemu_userspace env, wq_errno = env_errno env,
     wq_clock = env_clock env, wq_events = env_event env, wq_work = W\<rparr>"

lemma wq_env_of_sel [simp]:
  "wq_assert (wq_env_of env W) = config_assert env" "wq_qemu_userspace (wq_env_of env W) = qemu_userspace env"
  "wq_errno (wq_env_of env W) = env_errno env" "wq_clock (wq_env_of env W) = env_clock env"
  "wq_events (wq_env_of env W) = env_event env" "wq_work (wq_env_of env W) = W"
  by (simp_all add: wq_env_of_def)

text \<open>The constructor up to its wait.\<close>

lemma ctor_thread:
  assumes "env_laws env True V TV" and "work_frame W (wq_queue ob) V TV"
    and "th_tid (objs tw t) = None" and "mx V (tkern tw) (th_mutex (objs tw t)) = None"
    and "unat (s_thread_instance_count tw) < length (thread_data env)"
    and "\<forall>b n. TV (tkern tw) (thread_data env ! unat (s_thread_instance_count tw)) \<noteq> Running b n"
  shows "\<exists>tw2. (\<forall>others. WorkQueue_ctor_thread env W me t task others ob tw =
      bindR (others (tw2, False)) (\<lambda>(tw3, started). bindR (Thread_wait_started env t tw3) (\<lambda>tw4. Inr (tw4, started)))) \<and>
    th_event (objs tw2 t) = th_event (objs tw t) \<and> ev V (tkern tw2) = ev V (tkern tw)"
proof -
  let ?tw1 = "tw\<lparr>tkern := k_work_queue_init W (wq_queue ob) (tkern tw)\<rparr>"
  let ?i = "unat (s_thread_instance_count ?tw1)"
  have frame: "mx V (tkern ?tw1) = mx V (tkern tw)" "TV (tkern ?tw1) = TV (tkern tw)" "ev V (tkern ?tw1) = ev V (tkern tw)"
    using assms(2) by (simp_all add: work_frame_def)
  have "\<exists>tw2. Thread_start env me t task ?tw1 = Inr (ZephyrResult, tw2) \<and> ev V (tkern tw2) = ev V (tkern ?tw1) \<and>
      objs tw2 = (objs ?tw1)(t := (objs ?tw1 t)\<lparr>th_task := Some task, th_tid := Some (thread_data env ! ?i)\<rparr>)"
    using Thread_start_ok [OF assms(1), of ?tw1 t "thread_data env ! ?i" me task] assms(3-6) frame by auto
  then show ?thesis using frame(3) by (auto simp: WorkQueue_ctor_thread_def ZephyrResult_def r_bool_def)
qed

text \<open>
  C33: the constructor that makes its own thread waits for the thread's start event, which precedes
  run(), and not for the queue's own event. When the new thread has only signalled its start, the
  constructor returns and the first call is refused, by an assertion or an error; wait_started(),
  which the caller would have to use, still waits at that point.
\<close>

theorem constructed_queue_refuses_work:
  assumes "env_laws env True V TV" and "work_frame W (wq_queue ob) V TV"
    and "th_tid (objs tw t) = None" and "mx V (tkern tw) (th_mutex (objs tw t)) = None"
    and "unat (s_thread_instance_count tw) < length (thread_data env)"
    and "\<forall>b n. TV (tkern tw) (thread_data env ! unat (s_thread_instance_count tw)) \<noteq> Running b n"
    and "wq_event ob \<noteq> th_event (objs tw t)" and "ev V (tkern tw) (wq_event ob) AND kStartedEvent = 0"
  shows "\<exists>tw'. WorkQueue_ctor_thread env W me t task (thread_signals env t) ob tw = Inr (tw', False) \<and>
    (\<forall>w. wkern w = tkern tw' \<and> \<not> is_started w \<longrightarrow>
       WorkQueue_call (wq_env_of env W) ob item w = (if config_assert env then Inl Panic
         else Inr (r_assign_error (Nodev (env_errno env)) ZephyrResult, w)) \<and>
       WorkQueue_wait_started (wq_env_of env W) ob w = Inl Stuck)"
proof -
  let ?C = "env_clock env" and ?A = "env_event env" and ?p = "th_event (objs tw t)"
  have EL: "event_laws ?C ?A V \<and> kStartedEvent \<noteq> 0" using assms(1) by (simp add: env_laws_def kStartedEvent_def)
  obtain tw2 where tw2: "\<And>others. WorkQueue_ctor_thread env W me t task others ob tw =
      bindR (others (tw2, False)) (\<lambda>(tw3, started). bindR (Thread_wait_started env t tw3) (\<lambda>tw4. Inr (tw4, started)))"
    "th_event (objs tw2 t) = ?p" "ev V (tkern tw2) = ev V (tkern tw)"
    using ctor_thread [OF assms(1-6)] by blast
  obtain k where k: "Event_wait_any ?C ?A kStartedEvent ?p (Event_set (qemu_userspace env) ?A kStartedEvent ?p (tkern tw2)) = Inr k"
    "(ev V k)(?p := 0) = (ev V (tkern tw2))(?p := 0)"
    using started.signal_wait [OF EL, where s = "tkern tw2" and p = ?p] by auto
  define tw' where "tw' = tw2\<lparr>tkern := k\<rparr>"
  have "WorkQueue_ctor_thread env W me t task (thread_signals env t) ob tw = Inr (tw', False)"
    using tw2(2) k(1) by (simp add: tw2(1) thread_signals_def Thread_wait_started_def tw'_def)
  moreover have "ev V (tkern tw') (wq_event ob) = ev V (tkern tw) (wq_event ob)"
    using fun_cong [OF k(2), of "wq_event ob"] assms(7) tw2(3) by (simp add: tw'_def)
  then have "Event_wait_any ?C ?A kStartedEvent (wq_event ob) (tkern tw') = Inl Stuck"
    using started.wait_blocks [OF EL] assms(8) by simp
  ultimately show ?thesis by (auto simp: WorkQueue_call_def WorkQueue_wait_started_def)
qed

section \<open>A queue for the witnesses\<close>

definition ref_work :: "rk work_api" where
  "ref_work = \<lparr>
     k_work_queue_init = (\<lambda>q k. k\<lparr>rk_wq := (False, [])\<rparr>),
     k_work_queue_run = (\<lambda>q n y k. k\<lparr>rk_wq := (True, snd (rk_wq k))\<rparr>),
     k_work_queue_next = (\<lambda>q k. case snd (rk_wq k) of [] \<Rightarrow> None | a # ms \<Rightarrow> Some (a, k\<lparr>rk_wq := (fst (rk_wq k), ms)\<rparr>)),
     k_work_queue_drain = (\<lambda>q p k. case snd (rk_wq k) of [] \<Rightarrow> Some (0, k) | a # ms \<Rightarrow> None),
     k_work_queue_stop = (\<lambda>q d k. Some (0, k\<lparr>rk_wq := (False, snd (rk_wq k))\<rparr>)),
     k_work_submit_to_queue = (\<lambda>q a k. if \<not> fst (rk_wq k) then (neg_errno ref_errno ''ENODEV'', k)
        else if a \<in> set (snd (rk_wq k)) then (0, k) else (1, k\<lparr>rk_wq := (True, snd (rk_wq k) @ [a])\<rparr>)),
     k_work_init = (\<lambda>a k. k),
     k_work_is_pending = (\<lambda>a k. a \<in> set (snd (rk_wq k)))\<rparr>"

definition demo_queue :: work_queue where
  "demo_queue = \<lparr>wq_queue = 60, wq_name = ''wq'', wq_event = 62\<rparr>"

definition demo_works :: "(rk, nat, nat, nat) wq_world" where
  "demo_works = \<lparr>wkern = rk0, works = (\<lambda>a. \<lparr>work_obj = 1, work_method = a, work_args = 0\<rparr>), is_started = False\<rparr>"

lemma demo_queue_laws: "wq_laws (wq_env_of (demo_env a True) ref_work) demo_queue rk_wq"
  by (auto simp: wq_laws_def work_laws_def ref_work_def demo_env_def ref_event_def)

lemma demo_work_frame: "work_frame ref_work q ref_view rk_th"
  by (simp add: work_frame_def ref_work_def)

theorem work_queue_refines_jobs_witness:
  "\<exists>w'. wq_steps (wq_env_of (demo_env True True) ref_work) demo_queue
      [Set_params 7 5, Call 7, Set_params 7 6, Call 8, Call 7, Serve, Serve]
      (WorkQueue_run (wq_env_of (demo_env True True) ref_work) demo_queue demo_works) = Inr ([(1, 7, 5), (1, 8, 0)], w') \<and>
    rk_wq (wkern w') = (True, [])"
  using work_queue_refines_jobs [OF demo_queue_laws [of True], of demo_works
      "[Set_params 7 5, Call 7, Set_params 7 6, Call 8, Call 7, Serve, Serve]"]
  by (simp add: demo_works_def rk0_def job_call_def)

theorem work_queue_stop_witness:
  "WorkQueue_stop (wq_env_of (demo_env True True) ref_work) demo_queue
      (demo_works\<lparr>is_started := True, wkern := rk0\<lparr>rk_wq := (True, [7])\<rparr>\<rparr>) = Inl Stuck \<and>
    WorkQueue_stop (wq_env_of (demo_env True True) ref_work) demo_queue demo_works = Inr (ZephyrResult, demo_works)"
proof -
  have "\<not> is_started demo_works" by (simp add: demo_works_def)
  then show ?thesis
    using work_queue_stop [OF demo_queue_laws [of True], of "demo_works\<lparr>is_started := True, wkern := rk0\<lparr>rk_wq := (True, [7])\<rparr>\<rparr>"
        "\<lparr>job_queue = [(7, 0)], job_args = (\<lambda>_. 0)\<rparr>"]
    by (simp add: wq_rel_def) (simp add: demo_works_def)
qed

theorem constructed_queue_refuses_work_witness:
  "\<exists>tw'. WorkQueue_ctor_thread (demo_env True True) ref_work 1 10 5 (thread_signals (demo_env True True) 10) demo_queue demo_world
      = Inr (tw', False) \<and>
    WorkQueue_call (wq_env_of (demo_env True True) ref_work) demo_queue 7 (demo_works\<lparr>wkern := tkern tw'\<rparr>) = Inl Panic"
proof -
  have "\<exists>tw'. WorkQueue_ctor_thread (demo_env True True) ref_work 1 10 5 (thread_signals (demo_env True True) 10) demo_queue demo_world
      = Inr (tw', False) \<and>
    (\<forall>w :: (rk, nat, nat, nat) wq_world. wkern w = tkern tw' \<and> \<not> is_started w \<longrightarrow>
       WorkQueue_call (wq_env_of (demo_env True True) ref_work) demo_queue 7 w = (if config_assert (demo_env True True) then Inl Panic
         else Inr (r_assign_error (Nodev (env_errno (demo_env True True))) ZephyrResult, w)) \<and>
       WorkQueue_wait_started (wq_env_of (demo_env True True) ref_work) demo_queue w = Inl Stuck)"
    by (rule constructed_queue_refuses_work [OF demo_env_laws demo_work_frame])
      (simp_all add: demo_world_def rk0_def demo_queue_def)
  then obtain tw' where tw': "WorkQueue_ctor_thread (demo_env True True) ref_work 1 10 5
      (thread_signals (demo_env True True) 10) demo_queue demo_world = Inr (tw', False)"
    "\<And>w :: (rk, nat, nat, nat) wq_world. wkern w = tkern tw' \<and> \<not> is_started w \<Longrightarrow>
       WorkQueue_call (wq_env_of (demo_env True True) ref_work) demo_queue 7 w = (if config_assert (demo_env True True) then Inl Panic
         else Inr (r_assign_error (Nodev (env_errno (demo_env True True))) ZephyrResult, w))"
    by blast
  have "config_assert (demo_env True True)" by (simp add: demo_env_def)
  then show ?thesis using tw'(1) tw'(2) [of "demo_works\<lparr>wkern := tkern tw'\<rparr>"] by (auto simp: demo_works_def)
qed

end
