(* ===== verification/Ticker_Class.thy ===== *)
theory Ticker_Class
  imports Error_Result Clock_Time Kernel_Instance
begin

text \<open>
  src/zpp_include/ticker.hpp: a periodic task run by a kernel timer. The \<open>k_timer\<close> is a member, so
  one address names the timer and the object; \<open>user_data\<close> is the pointer the timer callback gets the
  object from. The class has no operation that stops the timer and the default destructor.
\<close>

section \<open>The kernel calls\<close>

record 'k timer_api =
  k_timer_init :: "addr \<Rightarrow> 'k \<Rightarrow> 'k"
  k_timer_start :: "addr \<Rightarrow> k_timeout_t \<Rightarrow> k_timeout_t \<Rightarrow> 'k \<Rightarrow> 'k"

text \<open>
  The timer at an address is stopped (\<open>None\<close>) or runs with a first delay and a period. Documented:
  \<open>k_timer_init\<close> makes a stopped timer, \<open>k_timer_start\<close> starts it, and a running timer calls its expiry
  function when the delay has passed and then once in each period.
\<close>

type_synonym 'k timer_view = "'k \<Rightarrow> addr \<Rightarrow> (k_timeout_t \<times> k_timeout_t) option"

definition timer_laws :: "'k timer_api \<Rightarrow> 'k timer_view \<Rightarrow> bool" where
  "timer_laws T tv \<longleftrightarrow>
     (\<forall>a k. tv (k_timer_init T a k) = (tv k)(a := None)) \<and>
     (\<forall>a d p k. tv (k_timer_start T a d p k) = (tv k)(a \<mapsto> (d, p)))"

section \<open>The class\<close>

record 'f ticker =
  user_data :: "addr option"
  is_attached :: bool
  tick_task :: "'f option"

record ('k, 'f) ticker_world =
  tk_kern :: 'k
  tickers :: "addr \<Rightarrow> 'f ticker option"

definition Ticker_ctor :: "addr \<Rightarrow> ('k, 'f) ticker_world \<Rightarrow> ('k, 'f) ticker_world" where
  "Ticker_ctor a w = w\<lparr>tickers := (tickers w)(a \<mapsto> \<lparr>user_data = None, is_attached = False, tick_task = None\<rparr>)\<rparr>"

definition Ticker_dtor :: "addr \<Rightarrow> ('k, 'f) ticker_world \<Rightarrow> ('k, 'f) ticker_world" where
  "Ticker_dtor a w = w\<lparr>tickers := (tickers w)(a := None)\<rparr>"

definition Ticker_attach ::
  "errno_values \<Rightarrow> clock_api \<Rightarrow> 'k timer_api \<Rightarrow> addr \<Rightarrow> 'f \<Rightarrow> int \<Rightarrow> ('k, 'f) ticker_world \<Rightarrow>
    (zephyr_result \<times> ('k, 'f) ticker_world) run" where
  "Ticker_attach E C T a f period w =
     (let res = ZephyrResult in
      case tickers w a of
        None \<Rightarrow> Inl Undef
      | Some t \<Rightarrow>
          if is_attached t then Inr (r_assign_error (Already E) res, w)
          else
            let k1 = k_timer_init T a (tk_kern w);
                timeout_period = milliseconds_to_ticks C period;
                k2 = k_timer_start T a timeout_period timeout_period k1
            in Inr (res, w\<lparr>tk_kern := k2, tickers := (tickers w)(a \<mapsto>
                 \<lparr>user_data = Some a, is_attached = True, tick_task = Some f\<rparr>)\<rparr>))"

text \<open>
  The expiry function, called with the timer's address. A freed object and a null \<open>user_data\<close> are
  undefined; an empty task, when \<open>F\<close> is a \<open>std::function\<close>, cannot be attached here.
\<close>

definition Ticker_thunk ::
  "('f \<Rightarrow> ('k, 'f) ticker_world \<Rightarrow> ('k, 'f) ticker_world run) \<Rightarrow> addr option \<Rightarrow> ('k, 'f) ticker_world \<Rightarrow>
    ('k, 'f) ticker_world run" where
  "Ticker_thunk invoke timer_id w =
     (case timer_id of
        None \<Rightarrow> Inr w
      | Some a \<Rightarrow> (case tickers w a of
          None \<Rightarrow> Inl Undef
        | Some timer \<Rightarrow> (case user_data timer of
            None \<Rightarrow> Inl Undef
          | Some p \<Rightarrow> (case tickers w p of
              None \<Rightarrow> Inl Undef
            | Some t \<Rightarrow> (case tick_task t of None \<Rightarrow> Inl Undef | Some f \<Rightarrow> invoke f w)))))"

section \<open>Properties\<close>

text \<open>\<open>n\<close> expiries of the timer at \<open>a\<close>, and the task run \<open>n\<close> times.\<close>

fun expiries ::
  "('f \<Rightarrow> ('k, 'f) ticker_world \<Rightarrow> ('k, 'f) ticker_world run) \<Rightarrow> addr \<Rightarrow> nat \<Rightarrow> ('k, 'f) ticker_world \<Rightarrow>
    ('k, 'f) ticker_world run" where
  "expiries invoke a 0 w = Inr w"
| "expiries invoke a (Suc n) w = bindR (Ticker_thunk invoke (Some a) w) (expiries invoke a n)"

fun task_runs ::
  "('f \<Rightarrow> ('k, 'f) ticker_world \<Rightarrow> ('k, 'f) ticker_world run) \<Rightarrow> 'f \<Rightarrow> nat \<Rightarrow> ('k, 'f) ticker_world \<Rightarrow>
    ('k, 'f) ticker_world run" where
  "task_runs invoke f 0 w = Inr w"
| "task_runs invoke f (Suc n) w = bindR (invoke f w) (task_runs invoke f n)"

definition keeps_ticker :: "('f \<Rightarrow> ('k, 'f) ticker_world \<Rightarrow> ('k, 'f) ticker_world run) \<Rightarrow> addr \<Rightarrow> bool" where
  "keeps_ticker invoke a \<longleftrightarrow> (\<forall>f w w'. invoke f w = Inr w' \<longrightarrow> tickers w' a = tickers w a)"

lemma expiries_run_task:
  assumes "keeps_ticker invoke a"
  shows "tickers w a = Some \<lparr>user_data = Some a, is_attached = True, tick_task = Some f\<rparr> \<Longrightarrow>
    expiries invoke a n w = task_runs invoke f n w"
proof (induction n arbitrary: w)
  case (Suc n)
  have thunk: "Ticker_thunk invoke (Some a) w = invoke f w" using Suc.prems by (simp add: Ticker_thunk_def)
  show ?case
  proof (cases "invoke f w")
    case (Inr w1)
    then have "tickers w1 a = tickers w a" using assms by (simp add: keeps_ticker_def)
    then show ?thesis using Suc Inr thunk by simp
  qed (simp add: thunk)
qed simp

text \<open>
  C19: attaching a task to a fresh ticker starts its timer with the given period, and each expiry runs
  exactly that task; a second attach is refused and changes nothing, so the first task keeps running.
\<close>

theorem ticker_runs_its_task:
  assumes "timer_laws T tv" and "keeps_ticker invoke a"
  shows "\<exists>w1. Ticker_attach E C T a f period (Ticker_ctor a w) = Inr (ZephyrResult, w1) \<and>
    tv (tk_kern w1) = (tv (tk_kern w))(a \<mapsto> (milliseconds_to_ticks C period, milliseconds_to_ticks C period)) \<and>
    expiries invoke a n w1 = task_runs invoke f n w1 \<and>
    (\<forall>g period'. Ticker_attach E C T a g period' w1 = Inr (r_assign_error (Already E) ZephyrResult, w1))"
  using expiries_run_task [OF assms(2)] assms(1)
  by (simp add: Ticker_attach_def Ticker_ctor_def timer_laws_def Let_def)

text \<open>
  Destroying a ticker does not stop its timer: the timer goes on running, and its next expiry
  reads the freed object.
\<close>

theorem ticker_outlived_by_timer:
  assumes "timer_laws T tv" and "Ticker_attach E C T a f period (Ticker_ctor a w) = Inr (res, w1)"
  shows "tv (tk_kern (Ticker_dtor a w1)) a = Some (milliseconds_to_ticks C period, milliseconds_to_ticks C period) \<and>
    expiries invoke a (Suc n) (Ticker_dtor a w1) = Inl Undef"
  using assms
  by (auto simp: Ticker_attach_def Ticker_ctor_def Ticker_dtor_def Ticker_thunk_def timer_laws_def Let_def)

record rt =
  rt_timers :: "addr \<Rightarrow> (k_timeout_t \<times> k_timeout_t) option"
  rt_count :: nat

definition ref_timer :: "rt timer_api" where
  "ref_timer = \<lparr>k_timer_init = (\<lambda>a k. k\<lparr>rt_timers := (rt_timers k)(a := None)\<rparr>),
     k_timer_start = (\<lambda>a d p k. k\<lparr>rt_timers := (rt_timers k)(a \<mapsto> (d, p))\<rparr>)\<rparr>"

definition count_task :: "nat \<Rightarrow> (rt, nat) ticker_world \<Rightarrow> (rt, nat) ticker_world run" where
  "count_task f w = Inr (w\<lparr>tk_kern := (tk_kern w)\<lparr>rt_count := rt_count (tk_kern w) + f\<rparr>\<rparr>)"

definition no_tickers :: "(rt, nat) ticker_world" where
  "no_tickers = \<lparr>tk_kern = \<lparr>rt_timers = (\<lambda>_. None), rt_count = 0\<rparr>, tickers = (\<lambda>_. None)\<rparr>"

lemma ref_timer_laws: "timer_laws ref_timer rt_timers" "keeps_ticker count_task a"
  by (simp_all add: timer_laws_def ref_timer_def keeps_ticker_def count_task_def)

theorem ticker_runs_its_task_witness:
  "\<exists>w1 w2. Ticker_attach ref_errno ref_clock ref_timer 3 4 100 (Ticker_ctor 3 no_tickers) = Inr (ZephyrResult, w1) \<and>
    expiries count_task 3 2 w1 = Inr w2 \<and> rt_count (tk_kern w2) = rt_count (tk_kern w1) + 8"
  using ticker_runs_its_task [OF ref_timer_laws, of ref_errno ref_clock 3 4 100 no_tickers 2]
  by (auto simp: numeral_2_eq_2 count_task_def)

theorem ticker_outlived_by_timer_witness:
  "\<exists>w1. Ticker_attach ref_errno ref_clock ref_timer 3 4 100 (Ticker_ctor 3 no_tickers) = Inr (ZephyrResult, w1) \<and>
    expiries count_task 3 1 (Ticker_dtor 3 w1) = Inl Undef"
proof -
  obtain w1 where w1: "Ticker_attach ref_errno ref_clock ref_timer 3 4 100 (Ticker_ctor 3 no_tickers) = Inr (ZephyrResult, w1)"
    by (simp add: Ticker_attach_def Ticker_ctor_def Let_def)
  then show ?thesis using ticker_outlived_by_timer [OF ref_timer_laws(1) w1, of count_task 0] by auto
qed

end
