(* ===== verification/Thread_Race.thy ===== *)
theory Thread_Race
  imports Thread_Class
begin

text \<open>
  \<open>Thread::start\<close> of two different objects in two threads at the same time. Each call holds the
  mutex of its own object, while \<open>s_thread_instance_count\<close> is static: the lock does not order the
  accesses to the counter. \<open>start_create\<close> and \<open>start_finish\<close> cut the body between creating the
  thread and naming, starting and counting it.
\<close>

section \<open>The body of start in two parts\<close>

definition start_create ::
  "'k thread_env \<Rightarrow> addr \<Rightarrow> 'f \<Rightarrow> ('k, 'f) thread_world \<Rightarrow> (zephyr_result option \<times> ('k, 'f) thread_world) run" where
  "start_create env o1 task w =
     (let ob = objs w o1; T = env_thread env; i = unat (s_thread_instance_count w) in
      if th_tid ob \<noteq> None then Inr (Some (r_assign_error (Already (env_errno env)) ZephyrResult), w)
      else bindR (ZPP_ASSERT (config_assert env) (i < length (thread_data env))) (\<lambda>_.
        if length (thread_data env) \<le> i then Inl Undef
        else
          let (new_tid, k1) = k_thread_create T (thread_data env ! i) i o1
                (preemptable_thread_priority_to_zephyr_prio (th_priority ob)) 0 (K_FOREVER (env_clock env)) (tkern w)
          in Inr (None, set_obj o1 (ob\<lparr>th_task := Some task, th_tid := new_tid\<rparr>) (w\<lparr>tkern := k1\<rparr>))))"

definition start_finish ::
  "'k thread_env \<Rightarrow> addr \<Rightarrow> ('k, 'f) thread_world \<Rightarrow> (zephyr_result \<times> ('k, 'f) thread_world) run" where
  "start_finish env o1 w =
     (let res = ZephyrResult; ob = objs w o1; T = env_thread env in
      case th_tid ob of
        None \<Rightarrow> bindR (ZPP_ASSERT (config_assert env) False) (\<lambda>_. Inr (r_assign_error (Nomem (env_errno env)) res, w))
      | Some t \<Rightarrow>
          let (ret, k2) = k_thread_name_set T t (th_name ob) (tkern w); w2 = w\<lparr>tkern := k2\<rparr> in
          if ret \<noteq> 0 then bindR (ZPP_ASSERT (config_assert env) False) (\<lambda>_. Inr (r_assign_error (ret_code ret) res, w2))
          else Inr (res, w2\<lparr>tkern := k_thread_start T t k2, s_thread_instance_count := s_thread_instance_count w2 + 1\<rparr>))"

lemma start_body_split:
  "start_body env o1 task w = bindR (start_create env o1 task w) (\<lambda>(early, w1).
     case early of Some res \<Rightarrow> Inr (res, w1) | None \<Rightarrow> start_finish env o1 w1)"
proof -
  obtain new_tid k1 where c: "k_thread_create (env_thread env) (thread_data env ! unat (s_thread_instance_count w))
    (unat (s_thread_instance_count w)) o1 (preemptable_thread_priority_to_zephyr_prio (th_priority (objs w o1))) 0
    (K_FOREVER (env_clock env)) (tkern w) = (new_tid, k1)" by fastforce
  show ?thesis
  proof (cases new_tid)
    case None
    with c show ?thesis by (simp add: start_body_def start_create_def start_finish_def set_obj_def Let_def bindR_assoc)
  next
    case (Some t)
    with c show ?thesis by (simp add: start_body_def start_create_def start_finish_def set_obj_def Let_def bindR_assoc)
  qed
qed

section \<open>Interleaved calls\<close>

text \<open>
  The statements of a call on the object at \<open>o1\<close> with mutex \<open>p\<close>; the second component of the
  state holds the result of each call once it is known.
\<close>

datatype 'f race_stmt = Lock tid addr | Create addr 'f | Name_and_start addr | Unlock tid addr

fun start_stmt ::
  "'k thread_env \<Rightarrow> 'f race_stmt \<Rightarrow> ('k, 'f) thread_world \<times> (addr \<Rightarrow> zephyr_result option) \<Rightarrow>
    (('k, 'f) thread_world \<times> (addr \<Rightarrow> zephyr_result option)) run" where
  "start_stmt env (Lock me p) (w, ret) = bindR (obj_lock env me p w) (\<lambda>(_, w'). Inr (w', ret))"
| "start_stmt env (Create o1 f) (w, ret) = bindR (start_create env o1 f w) (\<lambda>(early, w'). Inr (w', ret(o1 := early)))"
| "start_stmt env (Name_and_start o1) (w, ret) = (case ret o1 of
     Some _ \<Rightarrow> Inr (w, ret) | None \<Rightarrow> bindR (start_finish env o1 w) (\<lambda>(res, w'). Inr (w', ret(o1 \<mapsto> res))))"
| "start_stmt env (Unlock me p) (w, ret) = bindR (obj_unlock env me p w) (\<lambda>(_, w'). Inr (w', ret))"

fun start_stmts ::
  "'k thread_env \<Rightarrow> 'f race_stmt list \<Rightarrow> ('k, 'f) thread_world \<times> (addr \<Rightarrow> zephyr_result option) \<Rightarrow>
    (('k, 'f) thread_world \<times> (addr \<Rightarrow> zephyr_result option)) run" where
  "start_stmts env [] s = Inr s"
| "start_stmts env (x # xs) s = bindR (start_stmt env x s) (start_stmts env xs)"

definition start_code :: "tid \<Rightarrow> addr \<Rightarrow> addr \<Rightarrow> 'f \<Rightarrow> 'f race_stmt list" where
  "start_code me p o1 f = [Lock me p, Create o1 f, Name_and_start o1, Unlock me p]"

text \<open>A call that is not interrupted is \<open>Thread_start\<close>.\<close>

lemma start_code_alone:
  "start_stmts env (start_code me (th_mutex (objs w o1)) o1 f) (w, ret) =
    bindR (Thread_start env me o1 f w) (\<lambda>(res, w'). Inr (w', ret(o1 \<mapsto> res)))"
proof -
  let ?p = "th_mutex (objs w o1)"
  have body: "start_stmts env [Create o1 f, Name_and_start o1, Unlock me ?p] (w1, ret) =
      bindR (start_body env o1 f w1) (\<lambda>(res, w2). bindR (obj_unlock env me ?p w2) (\<lambda>(_, w3). Inr (w3, ret(o1 \<mapsto> res))))" for w1
  proof (cases "start_create env o1 f w1")
    case (Inl e)
    then show ?thesis by (simp add: start_body_split)
  next
    case (Inr x)
    obtain early w2 where x: "x = (early, w2)" by (cases x)
    show ?thesis
    proof (cases early)
      case None
      show ?thesis
      proof (cases "start_finish env o1 w2")
        case (Inl e)
        with Inr x None show ?thesis by (simp add: start_body_split)
      next
        case (Inr y)
        with \<open>start_create env o1 f w1 = Inr x\<close> x None show ?thesis
          by (cases y; cases "obj_unlock env me ?p (snd y)") (simp_all add: start_body_split split: prod.splits)
      qed
    next
      case (Some res)
      with Inr x show ?thesis by (cases "obj_unlock env me ?p w2") (simp_all add: start_body_split split: prod.splits)
    qed
  qed
  have lock: "start_stmts env (Lock me ?p # xs) (w, ret) = bindR (obj_lock env me ?p w) (\<lambda>(_, w1). start_stmts env xs (w1, ret))"
    for xs by (cases "obj_lock env me ?p w") auto
  have "bindR (Thread_start env me o1 f w) (\<lambda>(res, w'). Inr (w', ret(o1 \<mapsto> res))) =
    bindR (obj_lock env me ?p w) (\<lambda>(_, w1). bindR (start_body env o1 f w1) (\<lambda>(res, w2).
      bindR (obj_unlock env me ?p w2) (\<lambda>(_, w3). Inr (w3, ret(o1 \<mapsto> res)))))"
    by (simp add: Thread_start_def scoped_lock_def bindR_assoc split_def)
  then show ?thesis unfolding start_code_def lock body by simp
qed

section \<open>The race\<close>

lemma start_create_ok:
  assumes "env_laws env named V TV" and "th_tid (objs w o1) = None"
    and "unat (s_thread_instance_count w) < length (thread_data env)"
    and t: "t = thread_data env ! unat (s_thread_instance_count w)" and "\<forall>b n. TV (tkern w) t \<noteq> Running b n"
  shows "\<exists>w'. start_create env o1 f w = Inr (None, w') \<and>
    objs w' = (objs w)(o1 := (objs w o1)\<lparr>th_task := Some f, th_tid := Some t\<rparr>) \<and>
    s_thread_instance_count w' = s_thread_instance_count w \<and>
    TV (tkern w') = (TV (tkern w))(t := Created o1 (unat (s_thread_instance_count w))) \<and> mx V (tkern w') = mx V (tkern w)"
proof -
  have "thread_laws (env_errno env) (env_clock env) (env_thread env) named V TV" using assms(1) by (simp add: env_laws_def)
  from thread_create_law [OF this assms(5)] obtain k where
    "k_thread_create (env_thread env) t (unat (s_thread_instance_count w)) o1
      (preemptable_thread_priority_to_zephyr_prio (th_priority (objs w o1))) 0 (K_FOREVER (env_clock env)) (tkern w) = (Some t, k)"
    "TV k = (TV (tkern w))(t := Created o1 (unat (s_thread_instance_count w)))" "mx V k = mx V (tkern w)" by blast
  then show ?thesis using assms(2,3) by (simp add: start_create_def set_obj_def flip: t)
qed

lemma start_finish_ok:
  assumes "env_laws env True V TV" and tid: "th_tid (objs w o1) = Some t" and c: "TV (tkern w) t = Created a s"
  shows "\<exists>w'. start_finish env o1 w = Inr (ZephyrResult, w') \<and> objs w' = objs w \<and>
    s_thread_instance_count w' = s_thread_instance_count w + 1 \<and>
    TV (tkern w') = (TV (tkern w))(t := Running a s) \<and> mx V (tkern w') = mx V (tkern w)"
proof -
  have TL: "thread_laws (env_errno env) (env_clock env) (env_thread env) True V TV" using assms(1) by (simp add: env_laws_def)
  obtain k where k: "k_thread_name_set (env_thread env) t (th_name (objs w o1)) (tkern w) = (0, k)"
    "TV k = TV (tkern w)" "mx V k = mx V (tkern w)"
    using thread_name_law [OF TL] by fastforce
  show ?thesis using k c tid thread_start_law(1) [OF TL, of k t a s] thread_start_law(2) [OF TL]
    by (simp add: start_finish_def)
qed

text \<open>
  C21: two threads that start different Thread objects at the same time can be given the same
  thread structure and stack. In the interleaving below both calls hold their lock, which is that of their
  own object, and both read the counter before either counts its thread; the first call then returns ok
  although the structure it has set up runs the task of the other object.
\<close>

theorem concurrent_starts_share_slot:
  assumes "env_laws env True V TV" and "o1 \<noteq> o2" and "p1 \<noteq> p2"
    and "th_tid (objs w o1) = None" and "th_tid (objs w o2) = None"
    and "mx V (tkern w) p1 = None" and "mx V (tkern w) p2 = None"
    and "unat (s_thread_instance_count w) < length (thread_data env)"
    and "t = thread_data env ! unat (s_thread_instance_count w)" and "\<forall>b n. TV (tkern w) t \<noteq> Running b n"
    and "sched = [Lock a p1, Lock b p2, Create o1 f, Create o2 g, Name_and_start o1, Unlock a p1]"
  shows "sched @ [Name_and_start o2, Unlock b p2] \<in> shuffles (start_code a p1 o1 f) (start_code b p2 o2 g) \<and>
    (\<exists>w' ret'. start_stmts env sched (w, \<lambda>_. None) = Inr (w', ret') \<and> ret' o1 = Some ZephyrResult \<and>
      th_tid (objs w' o1) = Some t \<and> th_tid (objs w' o2) = Some t \<and>
      (\<exists>s. TV (tkern w') t = Running o2 s))"
proof
  show "sched @ [Name_and_start o2, Unlock b p2] \<in> shuffles (start_code a p1 o1 f) (start_code b p2 o2 g)"
    by (simp add: assms(11) start_code_def Cons_in_shuffles_iff)
  let ?c = "s_thread_instance_count w"
  obtain w1 where w1: "obj_lock env a p1 w = Inr (ZephyrResult, w1)" "mx V (tkern w1) p1 = Some (a, 1)"
    "world_rest V TV p1 w1 = world_rest V TV p1 w" using obj_lock_free [OF assms(1,6)] by blast
  have D1: "objs w1 = objs w" "s_thread_instance_count w1 = ?c" "TV (tkern w1) = TV (tkern w)"
    "(mx V (tkern w1))(p1 := None) = (mx V (tkern w))(p1 := None)" using w1(3) by (simp_all add: world_rest_def)
  have "mx V (tkern w1) p2 = None" using fun_cong [OF D1(4), of p2] assms(3,7) by simp
  then obtain w2 where w2: "obj_lock env b p2 w1 = Inr (ZephyrResult, w2)" "world_rest V TV p2 w2 = world_rest V TV p2 w1"
    using obj_lock_free [OF assms(1)] by blast
  have D2: "objs w2 = objs w" "s_thread_instance_count w2 = ?c" "TV (tkern w2) = TV (tkern w)"
    "(mx V (tkern w2))(p2 := None) = (mx V (tkern w1))(p2 := None)" using w2(2) D1 by (simp_all add: world_rest_def)
  obtain w3 where w3: "start_create env o1 f w2 = Inr (None, w3)"
    "objs w3 = (objs w)(o1 := (objs w o1)\<lparr>th_task := Some f, th_tid := Some t\<rparr>)" "s_thread_instance_count w3 = ?c"
    "TV (tkern w3) = (TV (tkern w))(t := Created o1 (unat ?c))" "mx V (tkern w3) = mx V (tkern w2)"
    using start_create_ok [OF assms(1), of w2 o1 t f] D2 assms(4,8-10) by auto
  obtain w4 where w4: "start_create env o2 g w3 = Inr (None, w4)"
    "objs w4 = (objs w3)(o2 := (objs w3 o2)\<lparr>th_task := Some g, th_tid := Some t\<rparr>)" "s_thread_instance_count w4 = ?c"
    "TV (tkern w4) = (TV (tkern w3))(t := Created o2 (unat ?c))" "mx V (tkern w4) = mx V (tkern w2)"
    using start_create_ok [OF assms(1), of w3 o2 t g] w3 assms(2,5,8-10) by auto
  have tid: "th_tid (objs w4 o1) = Some t" "th_tid (objs w4 o2) = Some t" using w3(2) w4(2) assms(2) by auto
  obtain w5 where w5: "start_finish env o1 w4 = Inr (ZephyrResult, w5)" "objs w5 = objs w4"
    "TV (tkern w5) = (TV (tkern w4))(t := Running o2 (unat ?c))" "mx V (tkern w5) = mx V (tkern w4)"
    using start_finish_ok [OF assms(1) tid(1), of o2 "unat ?c"] w4(4) by auto
  have "mx V (tkern w5) p1 = Some (a, 1)" using w5(4) w4(5) fun_cong [OF D2(4), of p1] assms(3) w1(2) by simp
  then obtain w6 where w6: "obj_unlock env a p1 w5 = Inr (ZephyrResult, w6)" "world_rest V TV p1 w6 = world_rest V TV p1 w5"
    using obj_unlock_held [OF assms(1)] by blast
  have "start_stmts env sched (w, \<lambda>_. None) = Inr (w6, [o1 \<mapsto> ZephyrResult])"
    using w1(1) w2(1) w3(1) w4(1) w5(1) w6(1) assms(2) by (auto simp: assms(11))
  moreover have "objs w6 = objs w5" "TV (tkern w6) = TV (tkern w5)" using w6(2) by (simp_all add: world_rest_def)
  ultimately show "\<exists>w' ret'. start_stmts env sched (w, \<lambda>_. None) = Inr (w', ret') \<and> ret' o1 = Some ZephyrResult \<and>
      th_tid (objs w' o1) = Some t \<and> th_tid (objs w' o2) = Some t \<and> (\<exists>s. TV (tkern w') t = Running o2 s)"
    using tid w5(2,3) by auto
qed

theorem concurrent_starts_share_slot_witness:
  "\<exists>w' ret'. start_stmts (demo_env True True)
      [Lock 1 20, Lock 2 22, Create 10 5, Create 11 6, Name_and_start 10, Unlock 1 20] (demo_world, \<lambda>_. None) = Inr (w', ret') \<and>
    th_tid (objs w' 10) = th_tid (objs w' 11) \<and> (\<exists>s. rk_th (tkern w') 100 = Running 11 s)"
proof -
  have demo: "th_tid (objs demo_world o1) = None" "mx ref_view (tkern demo_world) p = None"
    "unat (s_thread_instance_count demo_world) < length (thread_data (demo_env True True))"
    "100 = thread_data (demo_env True True) ! unat (s_thread_instance_count demo_world)"
    "\<forall>b n. rk_th (tkern demo_world) 100 \<noteq> Running b n" for o1 p
    by (simp_all add: demo_world_def rk0_def)
  have "(10 :: addr) \<noteq> 11" "(20 :: addr) \<noteq> 22" by simp_all
  note concurrent_starts_share_slot [OF demo_env_laws this demo(1,1,2,2,3-5) refl, where f = 5 and g = 6 and a = 1 and b = 2]
  then show ?thesis by fastforce
qed

end
