(* ===== verification/Test_Programs.thy ===== *)
theory Test_Programs
  imports Thread_Class Semaphore_Class
begin

text \<open>
  The test programs src/zpp_rtos/tests/mutex and src/zpp_rtos/tests/semaphore: clients that use a
  \<open>Mutex\<close> or a \<open>Semaphore\<close> from two threads. They compose the models of the classes; their
  properties say that the programs pass their own assertions on every kernel that keeps its
  documented behaviour. \<open>returns\<close> is a total-correctness judgement for sequenced calls.
\<close>

section \<open>Calls that return\<close>

definition returns :: "'a run \<Rightarrow> ('a \<Rightarrow> bool) \<Rightarrow> bool" where
  "returns m Q \<longleftrightarrow> (\<exists>a. m = Inr a \<and> Q a)"

lemma returns_Inr: "Q a \<Longrightarrow> returns (Inr a) Q"
  by (simp add: returns_def)

lemma returns_bind: "returns m P \<Longrightarrow> (\<And>a. P a \<Longrightarrow> returns (f a) Q) \<Longrightarrow> returns (bindR m f) Q"
  by (auto simp: returns_def)

lemma returns_weaken: "returns m P \<Longrightarrow> (\<And>a. P a \<Longrightarrow> Q a) \<Longrightarrow> returns m Q"
  by (auto simp: returns_def)

text \<open>\<open>zpp_zassert_true\<close>: a false condition fails the test.\<close>

definition zpp_zassert_true :: "bool \<Rightarrow> unit run" where
  "zpp_zassert_true cond = (if cond then Inr () else Inl Panic)"

text \<open>\<open>zpp_zassert_true(x.f())\<close> for a call that gives a \<open>ZephyrResult\<close>.\<close>

definition expect :: "('s \<Rightarrow> (zephyr_result \<times> 's) run) \<Rightarrow> 's \<Rightarrow> 's run" where
  "expect f w = bindR (f w) (\<lambda>(ret, w). bindR (zpp_zassert_true (r_bool ret)) (\<lambda>_. Inr w))"

lemma expect_ok: "f w = Inr (ZephyrResult, w') \<Longrightarrow> Q w' \<Longrightarrow> returns (expect f w) Q"
  by (simp add: expect_def zpp_zassert_true_def returns_def)

section \<open>The programs\<close>

definition test_try_lock_unlock ::
  "'k thread_env \<Rightarrow> tid \<Rightarrow> addr \<Rightarrow> ('k, 'f) thread_world \<Rightarrow> ('k, 'f) thread_world run" where
  "test_try_lock_unlock env me mutex w =
     bindR (on_kern (Mutex_try_lock (config_assert env) (env_errno env) (env_clock env) (env_mutex env) me mutex) w)
       (\<lambda>(bool_ret, w).
     bindR (zpp_zassert_true (\<not> b_has_error bool_ret)) (\<lambda>_.
     bindR (b_bool (config_assert env) bool_ret) (\<lambda>b.
     bindR (zpp_zassert_true b) (\<lambda>_.
     expect (obj_unlock env me mutex) w))))"

text \<open>
  Construct a thread, start it with the lambda \<open>task\<close>, and join it. The new thread \<open>t\<close> runs
  while the main thread \<open>me\<close> waits in \<open>join\<close>, so its run comes before the step that ends the wait.
\<close>

definition test_in_thread ::
  "'k thread_env \<Rightarrow> int \<Rightarrow> tid \<Rightarrow> addr \<times> addr \<times> addr \<Rightarrow> string \<Rightarrow>
    (tid \<Rightarrow> ('k, unit) thread_world \<Rightarrow> ('k, unit) thread_world run) \<Rightarrow> ('k, unit) thread_world \<Rightarrow> ('k, unit) thread_world run" where
  "test_in_thread env N me = (\<lambda>(this, this_mutex, this_event) kThreadName task w.
     let (ob, k) = Thread_ctor (env_mutex env) (env_event env) this_mutex this_event
           (priority_value N PriorityNormal) (Some kThreadName) (tkern w);
         w1 = set_obj this ob (w\<lparr>tkern := k\<rparr>);
         lambda = (\<lambda>_ w. case th_tid (objs w this) of None \<Rightarrow> Inl Undef | Some t \<Rightarrow> task t w) in
     bindR (expect (Thread_start env me this ()) w1) (\<lambda>w2.
     bindR (thread_runs env lambda this w2) (\<lambda>w3.
     expect (Thread_join env me this) w3)))"

definition test_mutex_lock_unlock ::
  "'k thread_env \<Rightarrow> int \<Rightarrow> tid \<Rightarrow> addr \<Rightarrow> addr \<times> addr \<times> addr \<Rightarrow> ('k, unit) thread_world \<Rightarrow> ('k, unit) thread_world run" where
  "test_mutex_lock_unlock env N me this_mutex thread w =
     (let (mutex, k) = Mutex_ctor (env_mutex env) this_mutex (tkern w) in
      bindR (test_try_lock_unlock env me mutex (w\<lparr>tkern := k\<rparr>)) (\<lambda>w.
      bindR (test_try_lock_unlock env me mutex w) (\<lambda>w.
      bindR (test_in_thread env N me thread ''test_mutex_thread'' (\<lambda>t. test_try_lock_unlock env t mutex) w) (\<lambda>w.
      Thread_dtor env (fst thread) w))))"

definition test_semaphore_release_acquire ::
  "'k thread_env \<Rightarrow> 'k sem_api \<Rightarrow> int \<Rightarrow> tid \<Rightarrow> addr \<Rightarrow> addr \<times> addr \<times> addr \<Rightarrow> ('k, unit) thread_world \<Rightarrow> ('k, unit) thread_world run" where
  "test_semaphore_release_acquire env S N me this_sem thread w =
     (let kInitialCount = 0; kMaxCount = 1; C = env_clock env in
      bindR (on_kern (Semaphore_ctor (config_assert env) S this_sem kInitialCount kMaxCount) w) (\<lambda>(sem, w).
      bindR (expect (on_kern (Semaphore_release S sem)) w) (\<lambda>w.
      bindR (expect (on_kern (Semaphore_acquire C S sem)) w) (\<lambda>w.
      bindR (expect (on_kern (Semaphore_release S sem)) w) (\<lambda>w.
      bindR (expect (on_kern (Semaphore_acquire C S sem)) w) (\<lambda>w.
      bindR (on_kern (Semaphore_try_acquire (env_errno env) C S sem) w) (\<lambda>(bool_ret, w).
      bindR (zpp_zassert_true (\<not> b_has_error bool_ret)) (\<lambda>_.
      bindR (b_bool (config_assert env) bool_ret) (\<lambda>b.
      bindR (zpp_zassert_true (\<not> b)) (\<lambda>_.
      bindR (test_in_thread env N me thread ''test_semaphore_thread''
        (\<lambda>_. expect (on_kern (Semaphore_release S sem))) w) (\<lambda>w.
      bindR (expect (on_kern (Semaphore_acquire C S sem)) w) (\<lambda>w.
      Thread_dtor env (fst thread) w))))))))))))"

section \<open>What the parts do\<close>

text \<open>
  Initialising a mutex or an event, and every call on a semaphore, leaves the threads alone.
\<close>

definition init_frame :: "'k mutex_api \<Rightarrow> 'k event_api \<Rightarrow> 'k thread_view \<Rightarrow> bool" where
  "init_frame M A TV \<longleftrightarrow> (\<forall>a k. TV (k_mutex_init M a k) = TV k \<and> TV (k_event_init A a k) = TV k)"

definition sem_frame :: "'k sem_api \<Rightarrow> 'k thread_view \<Rightarrow> bool" where
  "sem_frame S TV \<longleftrightarrow> (\<forall>a k. TV (k_sem_give S a k) = TV k) \<and>
     (\<forall>a d k r k'. k_sem_take S a d k = Some (r, k') \<longrightarrow> TV k' = TV k) \<and>
     (\<forall>a i l k. TV (snd (k_sem_init S a i l k)) = TV k)"

text \<open>Everything but the semaphores and the kernel's internals.\<close>

definition outside where
  "outside V TV w = (objs w, s_thread_instance_count w, mx V (tkern w), TV (tkern w))"

lemma outside_eq:
  "outside V TV w' = outside V TV w \<longleftrightarrow> objs w' = objs w \<and> s_thread_instance_count w' = s_thread_instance_count w \<and>
    mx V (tkern w') = mx V (tkern w) \<and> TV (tkern w') = TV (tkern w)"
  by (simp add: outside_def)

lemma test_try_lock_unlock_ok:
  assumes laws: "env_laws env named V TV" and free: "mx V (tkern w) p = None"
  shows "returns (test_try_lock_unlock env me p w)
    (\<lambda>w'. outside V TV w' = outside V TV w \<and> sm V (tkern w') = sm V (tkern w))"
proof -
  have MU: "mutex_laws (env_errno env) (env_clock env) (env_mutex env) V" and E: "errno_laws (env_errno env)"
    and FR: "thread_frame (env_mutex env) (env_event env) TV" using laws by (simp_all add: env_laws_def)
  obtain k1 where k1: "k_mutex_lock (env_mutex env) me p (K_MSEC (env_clock env) 0) (tkern w) = Some (0, k1)"
    "mx V k1 = (mx V (tkern w))(p := Some (me, 1))" "sm V k1 = sm V (tkern w)"
    using mutex_lock_free [OF MU free] by blast
  let ?w1 = "w\<lparr>tkern := k1\<rparr>"
  have lock: "on_kern (Mutex_try_lock (config_assert env) (env_errno env) (env_clock env) (env_mutex env) me p) w
      = Inr (ZephyrBoolResult, ?w1)"
    using k1(1) neg_errno_nonzero [OF E, of "''EAGAIN''"]
    by (auto simp: on_kern_def Mutex_try_lock_def Mutex_try_lock_for_def)
  have "TV k1 = TV (tkern w)" using FR k1(1) unfolding thread_frame_def by blast
  moreover obtain w2 where w2: "obj_unlock env me p ?w1 = Inr (ZephyrResult, w2)" "mx V (tkern w2) p = None"
    "world_rest V TV p w2 = world_rest V TV p ?w1"
    using obj_unlock_held [OF laws, of ?w1 p me] k1(2) by auto
  moreover from w2(2,3) k1(2) free have "mx V (tkern w2) = mx V (tkern w)"
    by (simp add: world_rest_def fun_upd_None_same)
  ultimately have "outside V TV w2 = outside V TV w \<and> sm V (tkern w2) = sm V (tkern w)"
    using k1(3) by (simp add: world_rest_def outside_def)
  then show ?thesis
    using lock w2(1)
    by (simp add: test_try_lock_unlock_def expect_ok returns_def expect_def zpp_zassert_true_def result_defs)
qed

lemma Thread_ctor_view:
  assumes laws: "env_laws env named V TV" and "init_frame (env_mutex env) (env_event env) TV"
  shows "\<exists>k. Thread_ctor (env_mutex env) (env_event env) m e prio (Some n) k0 =
      (\<lparr>th_mutex = m, th_event = e, th_task = None, th_priority = prio, th_name = n, th_tid = None\<rparr>, k) \<and>
    mx V k = (mx V k0)(m := None) \<and> sm V k = sm V k0 \<and> TV k = TV k0"
  using assms mutex_init_view [of "env_errno env" "env_clock env" "env_mutex env" V]
  by (simp add: Thread_ctor_def Mutex_ctor_def Event_ctor_def env_laws_def event_laws_def init_frame_def)

text \<open>
  A thread made by \<open>test_in_thread\<close>: there is one world in which its task is called; the test ends with
  the fault of that call, or it goes on with what the call leaves behind.
\<close>

definition called_in where
  "called_in V TV t this m w w1 \<longleftrightarrow>
     mx V (tkern w1) = (mx V (tkern w))(m := None) \<and> sm V (tkern w1) = sm V (tkern w) \<and>
     TV (tkern w1) = (TV (tkern w))(t := Running this (unat (s_thread_instance_count w))) \<and>
     (\<forall>a. a \<noteq> this \<longrightarrow> objs w1 a = objs w a)"

lemma test_in_thread_task:
  fixes w :: "('k, unit) thread_world"
  assumes laws: "env_laws env True V TV" and init: "init_frame (env_mutex env) (env_event env) TV"
    and i: "unat (s_thread_instance_count w) < length (thread_data env)"
    and slot: "t = thread_data env ! unat (s_thread_instance_count w)" "\<forall>b n. TV (tkern w) t \<noteq> Running b n"
  shows "\<exists>w1. called_in V TV t this m w w1 \<and>
    (\<forall>f. task t w1 = Inl f \<longrightarrow> test_in_thread env N me (this, m, e) n task w = Inl f) \<and>
    (\<forall>w2. task t w1 = Inr w2 \<and> outside V TV w2 = outside V TV w1 \<longrightarrow>
      (\<exists>w'. test_in_thread env N me (this, m, e) n task w = Inr w' \<and>
        th_tid (objs w' this) = None \<and> (\<forall>a. a \<noteq> this \<longrightarrow> objs w' a = objs w a) \<and>
        s_thread_instance_count w' = s_thread_instance_count w \<and> mx V (tkern w') = (mx V (tkern w))(m := None) \<and>
        TV (tkern w') = (TV (tkern w))(t := Dead) \<and> sm V (tkern w') = sm V (tkern w2)))"
proof -
  let ?c = "s_thread_instance_count w"
  define ob :: "unit thread_obj" where
    "ob = \<lparr>th_mutex = m, th_event = e, th_task = None, th_priority = priority_value N PriorityNormal, th_name = n, th_tid = None\<rparr>"
  obtain k where k: "Thread_ctor (env_mutex env) (env_event env) m e (priority_value N PriorityNormal) (Some n) (tkern w) = (ob, k)"
    "mx V k = (mx V (tkern w))(m := None)" "sm V k = sm V (tkern w)" "TV k = TV (tkern w)"
    using Thread_ctor_view [OF laws init, of m e "priority_value N PriorityNormal" n "tkern w"] unfolding ob_def by blast
  have ob: "th_mutex ob = m" "th_tid ob = None" by (simp_all add: ob_def)
  define w1 where "w1 = set_obj this ob (w\<lparr>tkern := k\<rparr>)"
  have w1: "objs w1 = (objs w)(this := ob)" "s_thread_instance_count w1 = ?c" "tkern w1 = k"
    by (simp_all add: w1_def set_obj_def)
  define lambda where "lambda = (\<lambda>(_ :: unit) w. case th_tid (objs w this) of None \<Rightarrow> Inl Undef | Some t \<Rightarrow> task t w)"
  obtain w2 where w2: "Thread_start env me this () w1 = Inr (ZephyrResult, w2)"
    "objs w2 = (objs w1)(this := ob\<lparr>th_task := Some (), th_tid := Some t\<rparr>)" "s_thread_instance_count w2 = ?c + 1"
    "TV (tkern w2) = (TV (tkern w))(t := Running this (unat ?c))" "mx V (tkern w2) = (mx V (tkern w))(m := None)"
    "sm V (tkern w2) = sm V (tkern w)"
    using Thread_start_ok [OF laws, of w1 this t me "()"] w1 k ob i slot by auto
  have tid: "th_tid (objs w2 this) = Some t" "th_task (objs w2 this) = Some ()" "th_mutex (objs w2 this) = m"
    using w2(2) ob by simp_all
  let ?w = "task_world env this w2"
  note V = task_world_view [OF laws, of this w2]
  have call: "lambda () ?w = task t ?w" using V(1) tid(1) by (simp add: lambda_def)
  have test: "test_in_thread env N me (this, m, e) n task w =
      bindR (thread_runs env lambda this w2) (\<lambda>w3. expect (Thread_join env me this) w3)"
    using k(1) w2(1)
    by (simp add: test_in_thread_def expect_def zpp_zassert_true_def w1_def [symmetric] lambda_def [symmetric])
  have fault: "test_in_thread env N me (this, m, e) n task w = Inl f" if "task t ?w = Inl f" for f
    using thread_runs_fault [OF tid(1,2), of lambda env f] call that test by simp
  have goes_on: "\<exists>w'. test_in_thread env N me (this, m, e) n task w = Inr w' \<and>
      th_tid (objs w' this) = None \<and> (\<forall>a. a \<noteq> this \<longrightarrow> objs w' a = objs w a) \<and>
      s_thread_instance_count w' = ?c \<and> mx V (tkern w') = (mx V (tkern w))(m := None) \<and>
      TV (tkern w') = (TV (tkern w))(t := Dead) \<and> sm V (tkern w') = sm V (tkern w5)"
    if "task t ?w = Inr w5" "outside V TV w5 = outside V TV ?w" for w5
  proof -
    have w5: "lambda () ?w = Inr w5" "objs w5 = objs w2" "s_thread_instance_count w5 = s_thread_instance_count w2"
      "mx V (tkern w5) = mx V (tkern w2)" "TV (tkern w5) = TV (tkern w2)"
      using that V call unfolding outside_eq by simp_all
    have alive: "TV (tkern w2) t = Running this (unat ?c)" and free: "mx V (tkern w2) (th_mutex (objs w2 this)) = None"
      using w2(4,5) tid(3) by simp_all
    obtain w3 where w3: "thread_runs env lambda this w2 = Inr w3" "objs w3 = objs w2"
      "s_thread_instance_count w3 = s_thread_instance_count w2 - 1" "TV (tkern w3) = (TV (tkern w2))(t := Dead)"
      "mx V (tkern w3) = mx V (tkern w2)" "sm V (tkern w3) = sm V (tkern w5)"
      using thread_runs_returns [OF laws tid(1,2) alive free, of lambda w5] w5 by blast
    obtain w4 where "Thread_join env me this w3 = Inr (ZephyrResult, w4)"
      "objs w4 = (objs w3)(this := (objs w3 this)\<lparr>th_tid := None\<rparr>)" "s_thread_instance_count w4 = s_thread_instance_count w3"
      "TV (tkern w4) = TV (tkern w3)" "mx V (tkern w4) = mx V (tkern w3)" "sm V (tkern w4) = sm V (tkern w3)"
      using Thread_join_dead [OF laws, of w3 this t me] tid w2(5) w3(2,4,5) by auto
    with w1(1) w2 w3 show ?thesis by (simp add: test expect_def zpp_zassert_true_def)
  qed
  have "called_in V TV t this m w ?w" using V w1(1) w2 by (simp add: called_in_def)
  with fault goes_on show ?thesis by blast
qed

lemma test_in_thread_ok:
  fixes w :: "('k, unit) thread_world"
  assumes "env_laws env True V TV" and "init_frame (env_mutex env) (env_event env) TV"
    and "unat (s_thread_instance_count w) < length (thread_data env)"
    and "t = thread_data env ! unat (s_thread_instance_count w)" and "\<forall>b n. TV (tkern w) t \<noteq> Running b n"
    and task: "\<And>w1. mx V (tkern w1) = (mx V (tkern w))(m := None) \<Longrightarrow> sm V (tkern w1) = sm V (tkern w) \<Longrightarrow>
      returns (task t w1) (\<lambda>w2. outside V TV w2 = outside V TV w1 \<and> P (sm V (tkern w2)))"
  shows "returns (test_in_thread env N me (this, m, e) n task w)
    (\<lambda>w'. th_tid (objs w' this) = None \<and> (\<forall>a. a \<noteq> this \<longrightarrow> objs w' a = objs w a) \<and>
      s_thread_instance_count w' = s_thread_instance_count w \<and> mx V (tkern w') = (mx V (tkern w))(m := None) \<and>
      TV (tkern w') = (TV (tkern w))(t := Dead) \<and> P (sm V (tkern w')))"
proof -
  from test_in_thread_task [OF assms(1-5), of this m task N me e n] obtain w1 where w1: "called_in V TV t this m w w1"
    "\<And>w2. task t w1 = Inr w2 \<Longrightarrow> outside V TV w2 = outside V TV w1 \<Longrightarrow>
      \<exists>w'. test_in_thread env N me (this, m, e) n task w = Inr w' \<and>
        th_tid (objs w' this) = None \<and> (\<forall>a. a \<noteq> this \<longrightarrow> objs w' a = objs w a) \<and>
        s_thread_instance_count w' = s_thread_instance_count w \<and> mx V (tkern w') = (mx V (tkern w))(m := None) \<and>
        TV (tkern w') = (TV (tkern w))(t := Dead) \<and> sm V (tkern w') = sm V (tkern w2)" by blast
  with task [of w1] show ?thesis by (fastforce simp: returns_def called_in_def)
qed

text \<open>The calls on a semaphore with limit 1.\<close>

lemma test_release_ok:
  assumes "sem_laws E C S V" and "sem_frame S TV" and "sm V (tkern w) p = (0, 1)"
    and "\<And>w'. outside V TV w' = outside V TV w \<Longrightarrow> sm V (tkern w') = (sm V (tkern w))(p := (1, 1)) \<Longrightarrow> Q w'"
  shows "returns (expect (on_kern (Semaphore_release S p)) w) Q"
  using sem_give [OF assms(1,3)] assms(2)
  by (intro expect_ok [of _ _ "w\<lparr>tkern := k_sem_give S p (tkern w)\<rparr>"] assms(4))
    (simp_all add: on_kern_def Semaphore_release_def outside_def sem_frame_def)

lemma test_acquire_ok:
  assumes "sem_laws E C S V" and "sem_frame S TV" and "sm V (tkern w) p = (1, 1)"
    and "\<And>w'. outside V TV w' = outside V TV w \<Longrightarrow> sm V (tkern w') = (sm V (tkern w))(p := (0, 1)) \<Longrightarrow> Q w'"
  shows "returns (expect (on_kern (Semaphore_acquire C S p)) w) Q"
proof -
  have token: "sm V (tkern w) p = (Suc 0, 1)" using assms(3) by simp
  obtain k where k: "k_sem_take S p (K_FOREVER C) (tkern w) = Some (0, k)"
    "sm V k = (sm V (tkern w))(p := (0, 1))" "mx V k = mx V (tkern w)"
    using sem_take_token [OF assms(1) token] by blast
  have "TV k = TV (tkern w)" using assms(2) k(1) unfolding sem_frame_def by blast
  with k show ?thesis
    by (intro expect_ok [of _ _ "w\<lparr>tkern := k\<rparr>"] assms(4)) (simp_all add: on_kern_def Semaphore_acquire_def outside_def)
qed

text \<open>The state of the semaphore test: \<open>c\<close> tokens while the first thread runs alone, and after the second has ended.\<close>

definition sem_at where
  "sem_at V TV p w (c :: nat) w' \<longleftrightarrow> outside V TV w' = outside V TV w \<and> sm V (tkern w') = (sm V (tkern w))(p := (c, 1 :: nat))"

definition sem_joined where
  "sem_joined V TV t this p w (c :: nat) w' \<longleftrightarrow> th_tid (objs w' this) = None \<and>
     s_thread_instance_count w' = s_thread_instance_count w \<and> TV (tkern w') = (TV (tkern w))(t := Dead) \<and>
     sm V (tkern w') = (sm V (tkern w))(p := (c, 1 :: nat))"

lemma test_sem_ctor_ok:
  assumes "sem_laws E C S V" and "sem_frame S TV"
  shows "returns (on_kern (Semaphore_ctor a S p 0 1) w) (\<lambda>(sem, w'). sem = p \<and> sem_at V TV p w 0 w')"
proof -
  obtain k where k: "k_sem_init S p 0 1 (tkern w) = (0, k)" "sm V k = (sm V (tkern w))(p := (0, 1))" "mx V k = mx V (tkern w)"
    using sem_init_ok [OF assms(1), of 1 0 p "tkern w"] by auto
  moreover have "TV k = TV (tkern w)" using assms(2) k(1) unfolding sem_frame_def by (metis snd_conv)
  ultimately show ?thesis
    by (simp add: on_kern_def Semaphore_ctor_def returns_def sem_at_def outside_def)
qed

lemma test_sem_thread_ok:
  fixes w :: "('k, unit) thread_world"
  assumes laws: "env_laws env True V TV" "init_frame (env_mutex env) (env_event env) TV"
    and sem: "sem_laws E C S V" "sem_frame S TV"
    and slot: "unat (s_thread_instance_count w) < length (thread_data env)"
      "t = thread_data env ! unat (s_thread_instance_count w)" "\<forall>b n. TV (tkern w) t \<noteq> Running b n"
    and w1: "sem_at V TV p w 0 w1"
  shows "returns (test_in_thread env N me (this, m, e) n (\<lambda>_. expect (on_kern (Semaphore_release S p))) w1)
    (sem_joined V TV t this p w 1)"
proof (rule returns_weaken [OF test_in_thread_ok [OF laws, where t = t and P = "\<lambda>s. s = (sm V (tkern w))(p := (1, 1))"]])
  show "returns (expect (on_kern (Semaphore_release S p)) w2)
      (\<lambda>w3. outside V TV w3 = outside V TV w2 \<and> sm V (tkern w3) = (sm V (tkern w))(p := (1, 1)))"
    if "sm V (tkern w2) = sm V (tkern w1)" for w2
    using that w1 by (intro test_release_ok [OF sem]) (simp_all add: sem_at_def)
qed (use slot w1 in \<open>simp_all add: sem_at_def sem_joined_def outside_eq\<close>)

section \<open>Properties\<close>

definition test_world :: "(rk, unit) thread_world" where
  "test_world = \<lparr>tkern = rk0, objs = (\<lambda>_. \<lparr>th_mutex = 0, th_event = 0, th_task = None, th_priority = 0,
     th_name = [], th_tid = None\<rparr>), s_thread_instance_count = 0\<rparr>"

lemma test_frames: "init_frame ref_mutex ref_event rk_th" "sem_frame ref_sem rk_th"
  by (auto simp: init_frame_def sem_frame_def ref_mutex_def ref_event_def ref_sem_def split: if_splits prod.splits)

lemma demo_test:
  "init_frame (env_mutex (demo_env True True)) (env_event (demo_env True True)) rk_th"
  "sem_laws (env_errno (demo_env True True)) (env_clock (demo_env True True)) ref_sem ref_view"
  "unat (s_thread_instance_count test_world) < length (thread_data (demo_env True True))"
  "100 = thread_data (demo_env True True) ! unat (s_thread_instance_count test_world)"
  "\<forall>b n. rk_th (tkern test_world) 100 \<noteq> Running b n"
  by (simp_all add: demo_env_def test_frames test_world_def rk0_def)

text \<open>
  C23: the test program of the mutex passes: whatever the kernel, if it keeps its documented
  behaviour and a thread slot is free, no assertion of the program or of the library fails and no call
  waits forever; at the end the mutex is free, the thread has ended and its slot is counted as free.
\<close>

theorem test_mutex_passes:
  fixes w :: "('k, unit) thread_world"
  assumes "env_laws env True V TV" and "init_frame (env_mutex env) (env_event env) TV"
    and "unat (s_thread_instance_count w) < length (thread_data env)"
    and "t = thread_data env ! unat (s_thread_instance_count w)" and "\<forall>b n. TV (tkern w) t \<noteq> Running b n"
  shows "\<exists>w'. test_mutex_lock_unlock env N me this_mutex (this, m, e) w = Inr w' \<and>
    mx V (tkern w') = (mx V (tkern w))(this_mutex := None, m := None) \<and> TV (tkern w') = (TV (tkern w))(t := Dead) \<and>
    s_thread_instance_count w' = s_thread_instance_count w \<and> th_tid (objs w' this) = None"
proof -
  let ?w0 = "w\<lparr>tkern := k_mutex_init (env_mutex env) this_mutex (tkern w)\<rparr>"
  define ends where "ends = (\<lambda>w2 :: ('k, unit) thread_world.
    th_tid (objs w2 this) = None \<and> s_thread_instance_count w2 = s_thread_instance_count w \<and>
    mx V (tkern w2) = (mx V (tkern w))(this_mutex := None, m := None) \<and> TV (tkern w2) = (TV (tkern w))(t := Dead))"
  have w0: "mx V (tkern ?w0) = (mx V (tkern w))(this_mutex := None)" "TV (tkern ?w0) = TV (tkern w)"
    using mutex_init_view [of "env_errno env" "env_clock env" "env_mutex env" V] assms(1,2)
    by (simp_all add: env_laws_def init_frame_def)
  have again: "returns (test_try_lock_unlock env me this_mutex w1) (\<lambda>w2. outside V TV w2 = outside V TV ?w0)"
    if "outside V TV w1 = outside V TV ?w0" for w1
    using test_try_lock_unlock_ok [OF assms(1), of w1 this_mutex me] that w0(1)
    by (auto simp: outside_eq elim: returns_weaken)
  have "returns (test_in_thread env N me (this, m, e) ''test_mutex_thread'' (\<lambda>t. test_try_lock_unlock env t this_mutex) w1)
      ends"
    if w1: "outside V TV w1 = outside V TV ?w0" for w1
  proof (rule returns_weaken [OF test_in_thread_ok [OF assms(1,2), where t = t and P = "\<lambda>_. True"]])
    show "returns (test_try_lock_unlock env t this_mutex w2) (\<lambda>w3. outside V TV w3 = outside V TV w2 \<and> True)"
      if "mx V (tkern w2) = (mx V (tkern w1))(m := None)" for w2
    proof -
      have "mx V (tkern w2) this_mutex = None" using that w1 w0(1) by (simp add: outside_eq)
      from test_try_lock_unlock_ok [OF assms(1) this] show ?thesis by (rule returns_weaken) simp
    qed
  qed (use assms(3-5) w1 w0 in \<open>simp_all add: outside_eq ends_def\<close>)
  note thread = this
  have dtor: "returns (Thread_dtor env this w1) ends" if "ends w1" for w1
    using that by (simp add: Thread_dtor_def ends_def returns_def)
  have "returns (test_mutex_lock_unlock env N me this_mutex (this, m, e) w) ends"
    unfolding test_mutex_lock_unlock_def Mutex_ctor_def Let_def prod.case fst_conv
    apply (rule returns_bind [OF again], rule refl)
    apply (rule returns_bind [OF again], assumption)
    apply (rule returns_bind [OF thread], assumption)
    apply (rule dtor, assumption)
    done
  then show ?thesis by (auto simp: returns_def ends_def)
qed

theorem test_mutex_passes_witness:
  "\<exists>w'. test_mutex_lock_unlock (demo_env True True) 15 1 7 (10, 20, 21) test_world = Inr w' \<and>
    th_tid (objs w' 10) = None"
proof -
  note test_mutex_passes [OF demo_env_laws demo_test(1,3-5), of 15 1 7 10 20 21]
  then show ?thesis by blast
qed

text \<open>
  C24: the test program of the semaphore passes: releasing and acquiring alternate without waiting,
  a further try_acquire answers false without an error, and the token the other thread releases is the one
  the main thread acquires after joining it; at the end the semaphore is empty again.
\<close>

theorem test_semaphore_passes:
  fixes w :: "('k, unit) thread_world"
  assumes "env_laws env True V TV" and "init_frame (env_mutex env) (env_event env) TV"
    and "sem_laws (env_errno env) (env_clock env) S V" and "sem_frame S TV"
    and "unat (s_thread_instance_count w) < length (thread_data env)"
    and "t = thread_data env ! unat (s_thread_instance_count w)" and "\<forall>b n. TV (tkern w) t \<noteq> Running b n"
  shows "\<exists>w'. test_semaphore_release_acquire env S N me this_sem (this, m, e) w = Inr w' \<and>
    sm V (tkern w') = (sm V (tkern w))(this_sem := (0, 1)) \<and> TV (tkern w') = (TV (tkern w))(t := Dead) \<and>
    s_thread_instance_count w' = s_thread_instance_count w \<and> th_tid (objs w' this) = None"
proof -
  let ?C = "env_clock env" and ?E = "env_errno env" and ?p = this_sem
  let ?has = "sem_at V TV ?p w" and ?ends = "sem_joined V TV t this ?p w"
  note ctor = test_sem_ctor_ok [OF assms(3,4), of "config_assert env" ?p w]
  have release: "returns (expect (on_kern (Semaphore_release S ?p)) w1) (?has 1)" if "?has 0 w1" for w1
    using that by (intro test_release_ok [OF assms(3,4)]) (simp_all add: sem_at_def)
  have acquire: "returns (expect (on_kern (Semaphore_acquire ?C S ?p)) w1) (?has 0)" if "?has 1 w1" for w1
    using that by (intro test_acquire_ok [OF assms(3,4)]) (simp_all add: sem_at_def)
  have tried: "returns (on_kern (Semaphore_try_acquire ?E ?C S ?p) w1)
      (\<lambda>(res, w'). res = b_assign_value False ZephyrBoolResult \<and> ?has 0 w')" if "?has 0 w1" for w1
    using that sem_take_empty(2) [OF assms(3), of "tkern w1" ?p 1]
    by (simp add: on_kern_def Semaphore_try_acquire_def returns_def sem_at_def outside_def)
  note thread = test_sem_thread_ok [OF assms]
  have last: "returns (expect (on_kern (Semaphore_acquire ?C S ?p)) w1) (?ends 0)" if "?ends 1 w1" for w1
    using that by (intro test_acquire_ok [OF assms(3,4)]) (simp_all add: sem_joined_def outside_eq)
  have no: "zpp_zassert_true (\<not> b_has_error (b_assign_value False ZephyrBoolResult)) = Inr ()"
    "b_bool a (b_assign_value False ZephyrBoolResult) = Inr False" "zpp_zassert_true (\<not> False) = Inr ()" for a
    by (simp_all add: zpp_zassert_true_def result_defs)
  have dtor: "returns (Thread_dtor env this w1) (?ends c)" if "?ends c w1" for c w1
    using that by (simp add: Thread_dtor_def sem_joined_def returns_def)
  have "returns (test_semaphore_release_acquire env S N me ?p (this, m, e) w) (?ends 0)"
    unfolding test_semaphore_release_acquire_def Let_def fst_conv
    apply (rule returns_bind [OF ctor], clarify)
    apply (rule returns_bind [OF release], assumption)
    apply (rule returns_bind [OF acquire], assumption)
    apply (rule returns_bind [OF release], assumption)
    apply (rule returns_bind [OF acquire], assumption)
    apply (rule returns_bind [OF tried], assumption)
    apply (clarsimp simp only: prod.case no bindR_Inr)
    apply (rule returns_bind [OF thread], assumption)
    apply (rule returns_bind [OF last], assumption)
    apply (rule dtor, assumption)
    done
  then show ?thesis by (auto simp: returns_def sem_joined_def)
qed

theorem test_semaphore_passes_witness:
  "\<exists>w'. test_semaphore_release_acquire (demo_env True True) ref_sem 15 1 7 (10, 20, 21) test_world = Inr w' \<and>
    th_tid (objs w' 10) = None"
proof -
  note test_semaphore_passes [OF demo_env_laws demo_test(1,2) test_frames(2) demo_test(3-5), of 15 1 7 10 20 21]
  then show ?thesis by blast
qed

end
