(* ===== verification/Utils_Stats.thy ===== *)
theory Utils_Stats
  imports Zephyr_API "HOL-Library.Signed_Division"
begin

text \<open>
  src/zpp_rtos/utils.cpp: what the functions of \<open>Utils\<close> log about threads and the CPU load. A log
  line is the list of values its format prints, and for the CPU load the text itself. The kernel's
  answers about a thread are the fields of \<open>thread_info\<close>; \<open>k_thread_foreach\<close> visits the list of
  threads.
\<close>

section \<open>Threads\<close>

record thread_info =
  ti_id :: tid
  ti_name :: "string option"
  ti_prio :: int
  ti_state :: string
  ti_stack_start :: size_t
  ti_stack_size :: size_t
  ti_stack_space :: "int \<times> size_t"
  ti_runtime_stats :: int

text \<open>\<open>ThreadStatistics\<close>; the \<open>state_str\<close> buffer holds 31 characters and the terminator.\<close>

record thread_statistics =
  st_thread_id :: tid
  st_name :: "string option"
  st_prio :: int
  st_state_str :: string
  st_stack_size :: size_t
  st_used_stack_size :: size_t

definition getThreadStatistics :: "bool \<Rightarrow> bool \<Rightarrow> int \<Rightarrow> thread_info \<Rightarrow> thread_statistics run" where
  "getThreadStatistics config_assert config_stack_info K_IDLE_PRIO thread =
     bindR (ZPP_ASSERT config_assert (ti_runtime_stats thread = 0)) (\<lambda>_.
     let is_idle =
           (if (case ti_name thread of None \<Rightarrow> False | Some n \<Rightarrow> take 4 n = ''idle'') then True
            else if ti_prio thread = K_IDLE_PRIO then True else False);
         st = \<lparr>st_thread_id = ti_id thread, st_name = ti_name thread, st_prio = ti_prio thread,
           st_state_str = (if is_idle then ''ready'' else take 31 (ti_state thread)),
           st_stack_size = 0, st_used_stack_size = 0\<rparr> in
     if config_stack_info then
       (case ti_stack_space thread of (rc, unused_stack_size) \<Rightarrow>
         bindR (ZPP_ASSERT config_assert (rc = 0)) (\<lambda>_.
         Inr (st\<lparr>st_stack_size := ti_stack_size thread, st_used_stack_size := ti_stack_size thread - unused_stack_size\<rparr>)))
     else Inr st)"

type_synonym summary_row = "u32 \<times> tid \<times> string \<times> string \<times> int \<times> size_t \<times> size_t"

definition log_thread_statistics ::
  "bool \<Rightarrow> bool \<Rightarrow> int \<Rightarrow> thread_info \<Rightarrow> u32 \<times> summary_row list \<Rightarrow> (u32 \<times> summary_row list) run" where
  "log_thread_statistics a c K thread = (\<lambda>(threadIdx, rows).
     bindR (getThreadStatistics a c K thread) (\<lambda>st.
     Inr (threadIdx + 1, rows @ [(threadIdx, st_thread_id st,
       case st_name st of None \<Rightarrow> ''Unnamed'' | Some n \<Rightarrow> n, st_state_str st, st_prio st,
       st_used_stack_size st, st_stack_size st)])))"

fun k_thread_foreach :: "(thread_info \<Rightarrow> 's \<Rightarrow> 's run) \<Rightarrow> thread_info list \<Rightarrow> 's \<Rightarrow> 's run" where
  "k_thread_foreach f [] s = Inr s"
| "k_thread_foreach f (t # ts) s = bindR (f t s) (k_thread_foreach f ts)"

definition log_threads_summary :: "bool \<Rightarrow> bool \<Rightarrow> int \<Rightarrow> thread_info list \<Rightarrow> summary_row list run" where
  "log_threads_summary a c K threads =
     bindR (k_thread_foreach (log_thread_statistics a c K) threads (0, [])) (\<lambda>(_, rows). Inr rows)"

type_synonym stack_row = "u32 \<times> tid \<times> string \<times> size_t \<times> size_t \<times> size_t"

definition log_thread_stack_info ::
  "bool \<Rightarrow> thread_info \<Rightarrow> u32 \<times> stack_row list \<Rightarrow> (u32 \<times> stack_row list) run" where
  "log_thread_stack_info config_assert thread = (\<lambda>(threadIdx, rows).
     (case ti_stack_space thread of (rc, unused_stack_size) \<Rightarrow>
       bindR (if rc \<noteq> 0 then ZPP_ASSERT config_assert False else Inr ()) (\<lambda>_.
       Inr (threadIdx + 1, rows @ [(threadIdx, ti_id thread,
         case ti_name thread of None \<Rightarrow> ''Unnamed'' | Some n \<Rightarrow> n, ti_stack_start thread,
         ti_stack_size thread - unused_stack_size, ti_stack_size thread)]))))"

definition log_threads_stack_info :: "bool \<Rightarrow> thread_info list \<Rightarrow> stack_row list run" where
  "log_threads_stack_info a threads =
     bindR (k_thread_foreach (log_thread_stack_info a) threads (0, [])) (\<lambda>(_, rows). Inr rows)"

section \<open>The CPU load\<close>

text \<open>The conversions \<open>%d\<close> and \<open>%03d\<close> of \<open>printf\<close>.\<close>

fun decimal :: "nat \<Rightarrow> string" where
  "decimal n = (if n < 10 then [char_of (48 + n)] else decimal (n div 10) @ [char_of (48 + n mod 10)])"

declare decimal.simps [simp del]

definition format_d :: "int \<Rightarrow> string" where
  "format_d i = (if i < 0 then ''-'' @ decimal (nat (- i)) else decimal (nat i))"

definition format_03d :: "int \<Rightarrow> string" where
  "format_03d i =
     (let sign = (if i < 0 then ''-'' else []); digits = decimal (nat \<bar>i\<bar>)
      in sign @ replicate (3 - length sign - length digits) (CHR ''0'') @ digits)"

text \<open>\<open>load\<close> is what \<open>cpu_load_get\<close> returns, in tenths of a percent.\<close>

definition log_cpu_load :: "int \<Rightarrow> string" where
  "log_cpu_load load =
     (let percent = word_of_int (load sdiv 10) :: u32; fraction = load smod 10
      in ''CPU Load: '' @ format_d (sint percent) @ ''.'' @ format_03d fraction @ ''%'')"

section \<open>The heap\<close>

text \<open>
  The summary of the system heap, a line for each call of the logger; \<open>%u\<close> prints 32 bits. The replaced
  operators \<open>new\<close> and \<open>delete\<close> hand the kernel's answer on, a null pointer included.
\<close>

record sys_memory_stats =
  free_bytes :: size_t
  allocated_bytes :: size_t
  max_allocated_bytes :: size_t

definition format_u :: "u32 \<Rightarrow> string" where
  "format_u x = decimal (unat x)"

definition log_heap_summary :: "sys_memory_stats \<Rightarrow> string list" where
  "log_heap_summary stats =
     [''=== Heap Summary ==='',
      CHR 0x09 # ''Allocated: '' @ format_u (allocated_bytes stats) @ '' bytes'',
      CHR 0x09 # ''Free:      '' @ format_u (free_bytes stats) @ '' bytes'',
      CHR 0x09 # ''Max Alloc: '' @ format_u (max_allocated_bytes stats) @ '' bytes'' @ [CHR 0x0A]]"

record 'k heap_api =
  k_malloc :: "size_t \<Rightarrow> 'k \<Rightarrow> addr option \<times> 'k"
  k_free :: "addr option \<Rightarrow> 'k \<Rightarrow> 'k"

definition operator_new :: "'k heap_api \<Rightarrow> size_t \<Rightarrow> 'k \<Rightarrow> addr option \<times> 'k" where
  "operator_new H bytes k = k_malloc H bytes k"

definition operator_delete :: "'k heap_api \<Rightarrow> addr option \<Rightarrow> 'k \<Rightarrow> 'k" where
  "operator_delete H ptr k = k_free H ptr k"

section \<open>Properties\<close>

lemma foreach_rows:
  assumes "\<And>t i rows. t \<in> set ts \<Longrightarrow> f t (i, rows) = Inr (i + 1, rows @ [row i t])"
  shows "k_thread_foreach f ts (i, rows) =
    Inr (i + word_of_nat (length ts), rows @ map (\<lambda>(j, t). row (i + word_of_nat j) t) (enumerate 0 ts))"
  using assms
proof (induction ts arbitrary: i rows)
  case (Cons t ts)
  have "k_thread_foreach f ts (i + 1, rows @ [row i t]) = Inr (i + 1 + word_of_nat (length ts),
      (rows @ [row i t]) @ map (\<lambda>(j, t). row (i + 1 + word_of_nat j) t) (enumerate 0 ts))"
    using Cons.prems by (intro Cons.IH) simp
  moreover have "map (\<lambda>(j, t). row (i + word_of_nat j) t) (enumerate (Suc 0) ts) =
      map (\<lambda>(j, t). row (i + 1 + word_of_nat j) t) (enumerate 0 ts)"
    by (simp add: enumerate_Suc_eq split_def algebra_simps)
  ultimately show ?case using Cons.prems by (simp add: algebra_simps)
qed simp

definition summary_row :: "int \<Rightarrow> u32 \<Rightarrow> thread_info \<Rightarrow> summary_row" where
  "summary_row K i t =
     (i, ti_id t, case ti_name t of None \<Rightarrow> ''Unnamed'' | Some n \<Rightarrow> n,
      if ti_prio t = K \<or> (\<exists>n. ti_name t = Some n \<and> take 4 n = ''idle'') then ''ready'' else take 31 (ti_state t),
      ti_prio t, ti_stack_size t - snd (ti_stack_space t), ti_stack_size t)"

definition stack_row :: "u32 \<Rightarrow> thread_info \<Rightarrow> stack_row" where
  "stack_row i t =
     (i, ti_id t, case ti_name t of None \<Rightarrow> ''Unnamed'' | Some n \<Rightarrow> n, ti_stack_start t,
      ti_stack_size t - snd (ti_stack_space t), ti_stack_size t)"

lemma statistics_row:
  assumes "ti_runtime_stats t = 0" and "fst (ti_stack_space t) = 0"
  shows "log_thread_statistics a True K t (i, rows) = Inr (i + 1, rows @ [summary_row K i t])"
proof -
  obtain u where "ti_stack_space t = (0, u)" using assms(2) by (cases "ti_stack_space t") auto
  with assms(1) show ?thesis
    by (cases "ti_name t") (simp_all add: log_thread_statistics_def getThreadStatistics_def summary_row_def)
qed

lemma stack_info_row:
  assumes "fst (ti_stack_space t) = 0"
  shows "log_thread_stack_info a t (i, rows) = Inr (i + 1, rows @ [stack_row i t])"
proof -
  obtain u where "ti_stack_space t = (0, u)" using assms by (cases "ti_stack_space t") auto
  then show ?thesis by (simp add: log_thread_stack_info_def stack_row_def)
qed

text \<open>
  When the kernel answers, the summary has one line for every thread, in order, numbered
  from 0, and the two reports agree: they give each thread the same number, name, stack size and stack
  use, the use and the unused part making up the size.
\<close>

theorem thread_reports_agree:
  assumes "\<forall>t\<in>set threads. ti_runtime_stats t = 0 \<and> fst (ti_stack_space t) = 0 \<and> snd (ti_stack_space t) \<le> ti_stack_size t"
  shows "\<exists>rows rows'. log_threads_summary a True K threads = Inr rows \<and> log_threads_stack_info a threads = Inr rows' \<and>
    map (\<lambda>(i, thread, name, state, prio, used, sz). (i, thread, name, used, sz)) rows =
      map (\<lambda>(i, thread, name, start, used, sz). (i, thread, name, used, sz)) rows' \<and>
    length rows = length threads \<and>
    (\<forall>n<length threads. (case rows ! n of (i, thread, name, state, prio, used, sz) \<Rightarrow>
       i = word_of_nat n \<and> thread = ti_id (threads ! n) \<and>
       unat used + unat (snd (ti_stack_space (threads ! n))) = unat sz))"
proof -
  let ?rows = "map (\<lambda>(j, t). summary_row K (word_of_nat j) t) (enumerate 0 threads)"
  let ?rows' = "map (\<lambda>(j, t). stack_row (word_of_nat j) t) (enumerate 0 threads)"
  have "log_threads_summary a True K threads = Inr ?rows"
    using assms foreach_rows [of threads "log_thread_statistics a True K" "summary_row K" 0 "[]"]
    by (simp add: log_threads_summary_def statistics_row)
  moreover have "log_threads_stack_info a threads = Inr ?rows'"
    using assms foreach_rows [of threads "log_thread_stack_info a" stack_row 0 "[]"]
    by (simp add: log_threads_stack_info_def stack_info_row)
  moreover have "unat (s - u) + unat u = unat s" if "u \<le> s" for u s :: size_t
    using that by (simp add: unat_sub word_le_nat_alt)
  then have "case ?rows ! n of (i, thread, name, state, prio, used, sz) \<Rightarrow>
      i = word_of_nat n \<and> thread = ti_id (threads ! n) \<and>
      unat used + unat (snd (ti_stack_space (threads ! n))) = unat sz" if "n < length threads" for n
    using that assms by (simp add: nth_enumerate_eq summary_row_def)
  ultimately show ?thesis
    by (intro exI [of _ ?rows] exI [of _ ?rows']) (simp add: summary_row_def stack_row_def split_def)
qed

definition demo_thread_info :: thread_info where
  "demo_thread_info = \<lparr>ti_id = 5, ti_name = Some ''idle 00'', ti_prio = 15, ti_state = [], ti_stack_start = 4096,
     ti_stack_size = 512, ti_stack_space = (0, 100), ti_runtime_stats = 0\<rparr>"

theorem thread_reports_agree_witness:
  "\<exists>rows. log_threads_summary True True 15 [demo_thread_info] = Inr rows \<and> length rows = 1 \<and> fst (rows ! 0) = 0"
  using thread_reports_agree [of "[demo_thread_info]" True 15] by (fastforce simp: demo_thread_info_def)

text \<open>Reading a number back from its decimal digits, and the load in thousandths of a percent.\<close>

definition read_decimal :: "string \<Rightarrow> nat" where
  "read_decimal = foldl (\<lambda>v c. 10 * v + (of_char c - 48)) 0"

definition read_thousandths :: "string \<Rightarrow> nat" where
  "read_thousandths text =
     (let body = drop (length ''CPU Load: '') text; whole = takeWhile (\<lambda>c. c \<noteq> CHR ''.'') body
      in 1000 * read_decimal whole + read_decimal (take 3 (drop (length whole + 1) body)))"

lemma of_char_digit: "n < 10 \<Longrightarrow> (of_char (char_of (48 + n :: nat)) :: nat) = 48 + n"
  by simp

lemma read_decimal_decimal: "read_decimal (decimal n) = n"
proof (induction n rule: decimal.induct)
  case (1 n)
  then show ?case
    by (subst decimal.simps) (simp add: read_decimal_def of_char_digit)
qed

lemma decimal_digits: "c \<in> set (decimal n) \<Longrightarrow> \<exists>d<10. c = char_of (48 + d :: nat)"
proof (induction n rule: decimal.induct)
  case (1 n)
  show ?case
  proof (cases "n < 10")
    case True
    with "1.prems" show ?thesis by (subst (asm) decimal.simps) auto
  next
    case False
    with "1.prems" have "c \<in> set (decimal (n div 10)) \<or> c = char_of (48 + n mod 10)"
      by (subst (asm) decimal.simps) auto
    with "1.IH" False show ?thesis by (metis mod_less_divisor zero_less_numeral)
  qed
qed

lemma no_point: "c \<in> set (decimal n) \<Longrightarrow> c \<noteq> CHR ''.''"
proof -
  assume "c \<in> set (decimal n)"
  then obtain d :: nat where d: "d < 10" "c = char_of (48 + d)" using decimal_digits by blast
  then have "(of_char c :: nat) = 48 + d" using of_char_digit by blast
  moreover have "(of_char (CHR ''.'') :: nat) = 46" by simp
  ultimately show ?thesis by auto
qed

lemma format_03d_digit: "0 \<le> f \<Longrightarrow> f < 10 \<Longrightarrow> format_03d f = ''00'' @ decimal (nat f)"
  by (simp add: format_03d_def decimal.simps [of "nat f"] nat_less_iff numeral_2_eq_2)

lemma log_cpu_load_text:
  assumes "0 \<le> load" and "load \<le> 1000"
  shows "log_cpu_load load = ''CPU Load: '' @ decimal (nat (load div 10)) @ ''.00'' @ decimal (nat (load mod 10)) @ ''%''"
proof -
  have "load sdiv 10 = load div 10" "load smod 10 = load mod 10"
    using assms by (cases "load = 0"; simp add: signed_divide_int_def signed_modulo_int_def)+
  moreover have "sint (word_of_int (load div 10) :: u32) = load div 10"
    using assms by (simp add: int_word_sint)
  moreover have "format_03d (load mod 10) = ''00'' @ decimal (nat (load mod 10))"
    by (rule format_03d_digit) simp_all
  ultimately show ?thesis using assms by (simp add: log_cpu_load_def format_d_def Let_def)
qed

text \<open>
  The logged CPU load denotes the load only when its tenths of a percent are zero: the single
  digit of the remainder is printed as three decimals, so that 5.5% reads 5.005%.
\<close>

theorem cpu_load_misprinted:
  assumes "0 \<le> load" and "load \<le> 1000"
  shows "read_thousandths (log_cpu_load load) = 1000 * nat (load div 10) + nat (load mod 10) \<and>
    (read_thousandths (log_cpu_load load) = 100 * nat load \<longleftrightarrow> load mod 10 = 0)"
proof -
  let ?w = "decimal (nat (load div 10))" and ?f = "decimal (nat (load mod 10))"
  have whole: "takeWhile (\<lambda>c. c \<noteq> CHR ''.'') (?w @ ''.00'' @ ?f @ ''%'') = ?w"
    using no_point by (subst takeWhile_append2) auto
  have "nat (load mod 10) < 10" by (simp add: nat_less_iff)
  then have f: "?f = [char_of (48 + nat (load mod 10))]" by (simp add: decimal.simps)
  have "read_decimal (''00'' @ ?f) = read_decimal ?f" by (simp add: read_decimal_def)
  moreover have "take 3 (''00'' @ ?f @ ''%'') = ''00'' @ ?f" by (simp add: f)
  ultimately have "read_thousandths (log_cpu_load load) = 1000 * nat (load div 10) + nat (load mod 10)"
    unfolding log_cpu_load_text [OF assms] read_thousandths_def Let_def
    using whole by (simp add: read_decimal_decimal)
  moreover have "1000 * nat (load div 10) + nat (load mod 10) = 100 * nat load \<longleftrightarrow> load mod 10 = 0"
  proof -
    have "load = 10 * (load div 10) + load mod 10" by simp
    then have "nat load = 10 * nat (load div 10) + nat (load mod 10)" using assms(1) by linarith
    moreover have "nat (load mod 10) = 0 \<longleftrightarrow> load mod 10 = 0" by (simp add: order_antisym_conv)
    ultimately show ?thesis by linarith
  qed
  ultimately show ?thesis by simp
qed

theorem cpu_load_misprinted_witness:
  "read_thousandths (log_cpu_load 55) = 5005 \<and> read_thousandths (log_cpu_load 50) = 5000"
  using cpu_load_misprinted [of 55] cpu_load_misprinted [of 50] by simp

text \<open>
  The heap summary can be read back: the digits of each of its three lines give the number of bytes the
  kernel reported, whatever its size.
\<close>

definition is_digit :: "char \<Rightarrow> bool" where
  "is_digit c \<longleftrightarrow> (48 :: nat) \<le> of_char c \<and> of_char c \<le> (57 :: nat)"

lemma decimal_is_digit: "c \<in> set (decimal n) \<Longrightarrow> is_digit c"
proof -
  assume "c \<in> set (decimal n)"
  then obtain d :: nat where d: "d < 10" "c = char_of (48 + d)" using decimal_digits by blast
  then have "(of_char c :: nat) = 48 + d" using of_char_digit by blast
  with d(1) show ?thesis by (simp add: is_digit_def)
qed

lemma filter_line:
  "filter is_digit label = [] \<Longrightarrow> filter is_digit rest = [] \<Longrightarrow>
    read_decimal (filter is_digit (label @ format_u x @ rest)) = unat x"
  using decimal_is_digit by (simp add: format_u_def read_decimal_decimal filter_id_conv)

theorem heap_summary_readable:
  "map (\<lambda>line. read_decimal (filter is_digit line)) (tl (log_heap_summary stats)) =
    [unat (allocated_bytes stats), unat (free_bytes stats), unat (max_allocated_bytes stats)]"
proof -
  have "filter is_digit (CHR 0x09 # ''Allocated: '') = []" "filter is_digit (CHR 0x09 # ''Free:      '') = []"
    "filter is_digit (CHR 0x09 # ''Max Alloc: '') = []" "filter is_digit '' bytes'' = []"
    "filter is_digit ('' bytes'' @ [CHR 0x0A]) = []"
    by (simp_all add: is_digit_def)
  note line = filter_line [OF this(1,4)] filter_line [OF this(2,4)] filter_line [OF this(3,5)]
  show ?thesis unfolding log_heap_summary_def list.sel list.map append_Cons [symmetric] line ..
qed

end
