(* ===== verification/Ordered_Map.thy ===== *)
theory Ordered_Map
  imports Prelude
begin

text \<open>
  What the library uses of \<open>std::map\<close>: an association list sorted by its keys. \<open>insert\<close> does not
  replace the value of a key that is present; iterators walk the keys upwards and stay valid until
  their own element is erased. The locale \<open>ordered_map\<close> states what the callers rely on.
\<close>

fun map_insert :: "'k :: linorder \<Rightarrow> 'v \<Rightarrow> ('k \<times> 'v) list \<Rightarrow> ('k \<times> 'v) list" where
  "map_insert k v [] = [(k, v)]"
| "map_insert k v ((k', v') # m) =
     (if k < k' then (k, v) # (k', v') # m else if k = k' then (k', v') # m else (k', v') # map_insert k v m)"

definition map_erase :: "'k :: linorder \<Rightarrow> ('k \<times> 'v) list \<Rightarrow> ('k \<times> 'v) list" where
  "map_erase k m = filter (\<lambda>e. fst e \<noteq> k) m"

text \<open>The keys after \<open>k\<close>, in the order an iterator visits them.\<close>

definition keys_after :: "'k :: linorder \<Rightarrow> ('k \<times> 'v) list \<Rightarrow> 'k list" where
  "keys_after k m = filter (\<lambda>x. k < x) (map fst m)"

definition map_wf :: "('k :: linorder \<times> 'v) list \<Rightarrow> bool" where
  "map_wf m \<longleftrightarrow> sorted (map fst m) \<and> distinct (map fst m)"

lemma map_wf_Cons: "map_wf ((k, v) # m) \<longleftrightarrow> (\<forall>x\<in>fst ` set m. k < x) \<and> map_wf m"
  by (auto simp: map_wf_def less_le image_iff)

lemma map_wf_Nil [simp]: "map_wf []"
  by (simp add: map_wf_def)

lemma keys_insert: "fst ` set (map_insert k v m) = insert k (fst ` set m)"
proof (induction m)
  case (Cons e m)
  obtain k' v' where e: "e = (k', v')" by (cases e)
  consider "k < k'" | "k = k'" | "k' < k" by fastforce
  then show ?case using Cons.IH by cases (auto simp: e)
qed simp

lemma map_wf_insert: "map_wf m \<Longrightarrow> map_wf (map_insert k v m)"
proof (induction m)
  case (Cons e m)
  obtain k' v' where e: "e = (k', v')" by (cases e)
  consider "k < k'" | "k = k'" | "k' < k" by fastforce
  then show ?case using Cons
  proof cases
    case 1
    then show ?thesis using Cons.prems by (auto simp: e map_wf_Cons)
  next
    case 3
    then have "map_insert k v (e # m) = (k', v') # map_insert k v m" by (auto simp: e)
    moreover have "map_wf (map_insert k v m)" "\<forall>x\<in>fst ` set m. k' < x"
      using Cons by (auto simp: e map_wf_Cons)
    ultimately show ?thesis using 3 by (simp add: map_wf_Cons keys_insert)
  qed (simp add: e)
qed (simp add: map_wf_Cons)

lemma map_of_insert:
  "map_wf m \<Longrightarrow> map_of (map_insert k v m) = (if map_of m k = None then (map_of m)(k \<mapsto> v) else map_of m)"
proof (induction m)
  case (Cons e m)
  obtain k' v' where e: "e = (k', v')" by (cases e)
  have "map_of m k = None" if "k < k'"
    using Cons.prems that by (fastforce simp: e map_wf_Cons map_of_eq_None_iff)
  with Cons show ?case by (auto simp: e map_wf_Cons fun_eq_iff)
qed auto

lemma map_wf_erase: "map_wf m \<Longrightarrow> map_wf (map_erase k m)"
  unfolding map_erase_def by (induction m) (auto simp: map_wf_Cons)

lemma map_of_erase: "map_of (map_erase k m) = (map_of m)(k := None)"
  by (induction m) (auto simp: map_erase_def fun_eq_iff)

lemma map_erase_absent: "map_of m k = None \<Longrightarrow> map_erase k m = m"
  unfolding map_erase_def by (induction m) (auto split: if_splits)

lemma map_insert_last: "(\<forall>x\<in>fst ` set m. x < k) \<Longrightarrow> map_insert k v m = m @ [(k, v)]"
  by (induction m) auto

section \<open>The contract\<close>

locale ordered_map =
  fixes empty :: 'm
    and ins :: "'k :: linorder \<Rightarrow> 'v \<Rightarrow> 'm \<Rightarrow> 'm"
    and erase :: "'k \<Rightarrow> 'm \<Rightarrow> 'm"
    and lookup :: "'m \<Rightarrow> 'k \<Rightarrow> 'v option"
    and keys :: "'m \<Rightarrow> 'k list"
    and wf :: "'m \<Rightarrow> bool"
  assumes wf_empty: "wf empty"
    and lookup_empty: "lookup empty = (\<lambda>_. None)"
    and wf_ins: "wf m \<Longrightarrow> wf (ins k v m)"
    and lookup_ins: "wf m \<Longrightarrow> lookup (ins k v m) = (if lookup m k = None then (lookup m)(k \<mapsto> v) else lookup m)"
    and wf_erase: "wf m \<Longrightarrow> wf (erase k m)"
    and lookup_erase: "wf m \<Longrightarrow> lookup (erase k m) = (lookup m)(k := None)"
    and keys_sorted: "wf m \<Longrightarrow> sorted_wrt (<) (keys m)"
    and keys_dom: "wf m \<Longrightarrow> set (keys m) = dom (lookup m)"
begin

lemma ins_new: "wf m \<Longrightarrow> k \<notin> set (keys m) \<Longrightarrow> lookup (ins k v m) = (lookup m)(k \<mapsto> v)"
  by (simp add: lookup_ins keys_dom domIff)

lemma ins_erase: "wf m \<Longrightarrow> k \<notin> set (keys m) \<Longrightarrow> lookup (erase k (ins k v m)) = lookup m"
  using ins_new [of m k v] by (auto simp: lookup_erase wf_ins keys_dom domIff)

lemma keys_unique: "wf m \<Longrightarrow> wf m' \<Longrightarrow> dom (lookup m) = dom (lookup m') \<Longrightarrow> keys m = keys m'"
  by (metis keys_dom keys_sorted strict_sorted_equal)

lemma keys_erase: "wf m \<Longrightarrow> set (keys (erase k m)) = set (keys m) - {k}"
  by (auto simp: keys_dom wf_erase lookup_erase)

lemma empty_iff: "wf m \<Longrightarrow> keys m = [] \<longleftrightarrow> lookup m = (\<lambda>_. None)"
  by (metis dom_empty dom_eq_empty_conv keys_dom set_empty)

end

interpretation stdmap: ordered_map "[]" map_insert map_erase map_of "map fst" map_wf
proof (unfold_locales, goal_cases)
  case (7 m)
  then show ?case by (simp add: map_wf_def strict_sorted_iff)
next
  case (8 m)
  then show ?case by (simp add: dom_map_of_conv_image_fst)
qed (simp_all add: map_wf_insert map_of_insert map_wf_erase map_of_erase fun_eq_iff)

end
