(* ===== verification/Callback_Register.thy ===== *)
theory Callback_Register
  imports GPIO_API Ordered_Map
begin

text \<open>
  src/zpp_rtos/callback_register.cpp and registration_token.cpp, with the class declarations of
  their headers and of zpp_include/interrupt_in.hpp.

  An \<open>InterruptIn\<close> holds its \<open>CallbackRegister\<close> as a member, so one address names both (the
  register's \<open>_owner\<close> reference is its enclosing object). The \<open>RegistrationRecord\<close>s live in the
  nodes of the map \<open>_registrations\<close>, to which tokens point: they are an explicit heap \<open>recs\<close>, whose
  addresses the allocator \<open>alloc\<close> (a parameter) chooses, and dereferencing a freed node is
  \<open>Undef\<close>. A callback is a \<open>std::function\<close>, \<open>None\<close> when empty; \<open>call\<close> runs one and may change
  the whole world, the register it runs from included.
\<close>

section \<open>State\<close>

record registration_record =
  rec_owner :: "addr option"
  rec_id :: size_t

type_synonym registration_token = "addr option"

record 'f callback_register =
  unique_id :: size_t
  callbacks :: "(size_t \<times> 'f option) list"
  registrations :: "(size_t \<times> addr) list"

record 'f interrupt_in =
  pin_name :: nat
  in_gpio :: "gpio_dt_spec option"
  cb_instance :: "addr option"
  register :: "'f callback_register"

record ('f, 'k) world =
  ins :: "addr \<Rightarrow> 'f interrupt_in option"
  recs :: "(addr \<times> registration_record) list"
  s_value :: "bool list"
  kern :: 'k

text \<open>
  What the code is built with: assertions and emulation switched on or not, the devicetree aliases
  \<open>sw0\<close> to \<open>sw3\<close> by button number, the GPIO driver, the allocator and the callbacks' bodies.
\<close>

record ('f, 'k) in_env =
  assert_on :: bool
  emul :: bool
  buttons :: "nat \<Rightarrow> gpio_dt_spec option"
  gpio :: "'k gpio_api"
  alloc :: "(addr \<times> registration_record) list \<Rightarrow> addr"
  call :: "'f \<Rightarrow> ('f, 'k) world \<Rightarrow> ('f, 'k) world run"

definition NUM_BUTTONS :: "('f, 'k) in_env \<Rightarrow> nat" where
  "NUM_BUTTONS env = length (filter (\<lambda>b. buttons env b \<noteq> None) [1, 2, 3, 4])"

definition alloc_law :: "('f, 'k) in_env \<Rightarrow> bool" where
  "alloc_law env \<longleftrightarrow> (\<forall>h. map_of h (alloc env h) = None)"

section \<open>Objects and nodes\<close>

definition with_in ::
  "addr \<Rightarrow> ('f, 'k) world \<Rightarrow> ('f interrupt_in \<Rightarrow> 'a run) \<Rightarrow> 'a run" where
  "with_in a w f = (case ins w a of None \<Rightarrow> Inl Undef | Some i \<Rightarrow> f i)"

definition put_in :: "addr \<Rightarrow> 'f interrupt_in \<Rightarrow> ('f, 'k) world \<Rightarrow> ('f, 'k) world" where
  "put_in a i w = w\<lparr>ins := (ins w)(a \<mapsto> i)\<rparr>"

definition free_nodes :: "addr list \<Rightarrow> ('f, 'k) world \<Rightarrow> ('f, 'k) world" where
  "free_nodes ps w = w\<lparr>recs := filter (\<lambda>e. fst e \<notin> set ps) (recs w)\<rparr>"

text \<open>The node of a key, as a list of at most one address.\<close>

definition node_of :: "size_t \<Rightarrow> (size_t \<times> addr) list \<Rightarrow> addr list" where
  "node_of key m = map snd (filter (\<lambda>e. fst e = key) m)"

section \<open>InterruptIn::remove_gpio_callback\<close>

definition remove_gpio_callback :: "('f, 'k) in_env \<Rightarrow> addr \<Rightarrow> ('f, 'k) world \<Rightarrow> ('f, 'k) world run" where
  "remove_gpio_callback env a w = with_in a w (\<lambda>i.
     if emul env then Inr w
     else case in_gpio i of
       None \<Rightarrow> Inl Undef
     | Some g \<Rightarrow>
         (let (ret, k') = gpio_remove_callback (gpio env) (port g) a (kern w); w' = w\<lparr>kern := k'\<rparr>
          in if ret \<noteq> 0 then bindR (ZPP_ASSERT (assert_on env) False) (\<lambda>_. Inr w') else Inr w'))"

section \<open>CallbackRegister\<close>

definition CallbackRegister_ctor :: "'f callback_register" where
  "CallbackRegister_ctor = \<lparr>unique_id = 0, callbacks = [], registrations = []\<rparr>"

text \<open>The destructor's body clears the owners; then the members are destroyed, nodes included.\<close>

definition CallbackRegister_dtor :: "addr \<Rightarrow> ('f, 'k) world \<Rightarrow> ('f, 'k) world run" where
  "CallbackRegister_dtor a w = with_in a w (\<lambda>i.
     let nodes = map snd (registrations (register i));
         w1 = w\<lparr>recs := map (\<lambda>(p, r). (p, if p \<in> set nodes then r\<lparr>rec_owner := None\<rparr> else r)) (recs w)\<rparr>
     in Inr (free_nodes nodes (put_in a (i\<lparr>register := CallbackRegister_ctor\<rparr>) w1)))"

definition has_callbacks :: "'f callback_register \<Rightarrow> bool" where
  "has_callbacks r = (callbacks r \<noteq> [])"

definition register_callback ::
  "('f, 'k) in_env \<Rightarrow> addr \<Rightarrow> 'f option \<Rightarrow> ('f, 'k) world \<Rightarrow> (registration_token \<times> ('f, 'k) world) run" where
  "register_callback env a cb w = with_in a w (\<lambda>i.
     let r = register i; key = unique_id r;
         r1 = r\<lparr>unique_id := key + 1, callbacks := map_insert key cb (callbacks r)\<rparr>
     in case map_of (registrations r) key of
          Some p \<Rightarrow> Inr (Some p, put_in a (i\<lparr>register := r1\<rparr>) w)
        | None \<Rightarrow>
            (let p = alloc env (recs w);
                 r2 = r1\<lparr>registrations := map_insert key p (registrations r)\<rparr>;
                 w1 = w\<lparr>recs := (p, \<lparr>rec_owner = Some a, rec_id = key\<rparr>) # recs w\<rparr>
             in Inr (Some p, put_in a (i\<lparr>register := r2\<rparr>) w1)))"

definition unregister_callback ::
  "('f, 'k) in_env \<Rightarrow> addr \<Rightarrow> size_t \<Rightarrow> ('f, 'k) world \<Rightarrow> ('f, 'k) world run" where
  "unregister_callback env a key w = with_in a w (\<lambda>i.
     let r1 = (register i)\<lparr>callbacks := map_erase key (callbacks (register i))\<rparr>;
         w1 = put_in a (i\<lparr>register := r1\<rparr>) w
     in bindR (if \<not> has_callbacks r1 then remove_gpio_callback env a w1 else Inr w1) (\<lambda>w2.
        with_in a w2 (\<lambda>i2.
          let r2 = register i2; m = registrations r2 in
          Inr (free_nodes (node_of key m)
                 (put_in a (i2\<lparr>register := r2\<lparr>registrations := map_erase key m\<rparr>\<rparr>) w2)))))"

definition unregister_all_callbacks :: "('f, 'k) in_env \<Rightarrow> addr \<Rightarrow> ('f, 'k) world \<Rightarrow> ('f, 'k) world run" where
  "unregister_all_callbacks env a w = with_in a w (\<lambda>i.
     let r = register i; had_callbacks = has_callbacks r;
         w1 = free_nodes (map snd (registrations r))
                (put_in a (i\<lparr>register := r\<lparr>callbacks := [], registrations := []\<rparr>\<rparr>) w)
     in if had_callbacks then remove_gpio_callback env a w1 else Inr w1)"

text \<open>
  The range-based loop of \<open>execute_callbacks\<close>: the iterator \<open>it\<close> is the key it stands on, \<open>None\<close>
  at the end. Advancing an iterator whose element is gone is undefined; a callback added meanwhile
  is visited, so the loop has fuel, and \<open>None\<close> is a loop that has not ended.
\<close>

definition next_key :: "size_t \<Rightarrow> (size_t \<times> 'v) list \<Rightarrow> size_t option" where
  "next_key key m = (case keys_after key m of [] \<Rightarrow> None | x # _ \<Rightarrow> Some x)"

definition first_key :: "(size_t \<times> 'v) list \<Rightarrow> size_t option" where
  "first_key m = (case m of [] \<Rightarrow> None | e # _ \<Rightarrow> Some (fst e))"

definition run_cb :: "('f, 'k) in_env \<Rightarrow> 'f option \<Rightarrow> ('f, 'k) world \<Rightarrow> ('f, 'k) world run" where
  "run_cb env cb w = (case cb of None \<Rightarrow> Inl Panic | Some f \<Rightarrow> call env f w)"

definition visit :: "('f, 'k) in_env \<Rightarrow> addr \<Rightarrow> size_t \<Rightarrow> ('f, 'k) world \<Rightarrow> (size_t option \<times> ('f, 'k) world) run" where
  "visit env a key w = with_in a w (\<lambda>i.
     case map_of (callbacks (register i)) key of
       None \<Rightarrow> Inl Undef
     | Some cb \<Rightarrow> bindR (run_cb env cb w) (\<lambda>w1. with_in a w1 (\<lambda>i1.
         let m = callbacks (register i1) in
         if map_of m key = None then Inl Undef else Inr (next_key key m, w1))))"

fun exec_loop ::
  "nat \<Rightarrow> ('f, 'k) in_env \<Rightarrow> addr \<Rightarrow> size_t option \<Rightarrow> ('f, 'k) world \<Rightarrow> ('f, 'k) world run option" where
  "exec_loop n env a None w = Some (Inr w)"
| "exec_loop 0 env a (Some key) w = None"
| "exec_loop (Suc n) env a (Some key) w =
     (case visit env a key w of
        Inl e \<Rightarrow> Some (Inl e)
      | Inr (it, w1) \<Rightarrow> exec_loop n env a it w1)"

definition execute_callbacks ::
  "nat \<Rightarrow> ('f, 'k) in_env \<Rightarrow> addr \<Rightarrow> ('f, 'k) world \<Rightarrow> ('f, 'k) world run option" where
  "execute_callbacks fuel env a w = (case ins w a of
     None \<Rightarrow> Some (Inl Undef)
   | Some i \<Rightarrow> exec_loop fuel env a (first_key (callbacks (register i))) w)"

section \<open>RegistrationToken\<close>

definition token_reset ::
  "('f, 'k) in_env \<Rightarrow> registration_token \<Rightarrow> ('f, 'k) world \<Rightarrow> (registration_token \<times> ('f, 'k) world) run" where
  "token_reset env t w = (case t of
     None \<Rightarrow> Inr (None, w)
   | Some p \<Rightarrow> (case map_of (recs w) p of
       None \<Rightarrow> Inl Undef
     | Some rec \<Rightarrow> (case rec_owner rec of
         None \<Rightarrow> Inr (None, w)
       | Some a \<Rightarrow> bindR (unregister_callback env a (rec_id rec) w) (\<lambda>w'. Inr (None, w')))))"

definition token_dtor :: "('f, 'k) in_env \<Rightarrow> registration_token \<Rightarrow> ('f, 'k) world \<Rightarrow> ('f, 'k) world run" where
  "token_dtor env t w = bindR (token_reset env t w) (\<lambda>(_, w'). Inr w')"

text \<open>\<open>RegistrationToken(RegistrationToken&& other)\<close>: the new token and what is left of the other.\<close>

definition token_move_ctor :: "registration_token \<Rightarrow> registration_token \<times> registration_token" where
  "token_move_ctor other = (other, None)"

definition token_move_assign ::
  "('f, 'k) in_env \<Rightarrow> bool \<Rightarrow> registration_token \<Rightarrow> registration_token \<Rightarrow> ('f, 'k) world \<Rightarrow>
     (registration_token \<times> registration_token \<times> ('f, 'k) world) run" where
  "token_move_assign env same this other w = (if same then Inr (this, other, w)
     else bindR (token_reset env this w) (\<lambda>(_, w'). Inr (other, None, w')))"

end
