(* ===== verification/Interrupt_In.thy ===== *)
theory Interrupt_In
  imports Callback_Register
begin

text \<open>
  src/zpp_drivers/interrupt_in.cpp: a button pin and the callbacks of its falling edge. The lemma
  \<open>exec_loop_run_all\<close> shows that the loop over the callbacks is \<open>run_all\<close> when they leave the
  register alone.
\<close>

section \<open>The operations\<close>

definition kPolarityPressed :: bool where
  "kPolarityPressed = True"

definition PinName_valid :: "('f, 'k) in_env \<Rightarrow> nat \<Rightarrow> bool" where
  "PinName_valid env p \<longleftrightarrow> 1 \<le> p \<and> p \<le> NUM_BUTTONS env"

definition InterruptIn_ctor ::
  "('f, 'k) in_env \<Rightarrow> addr \<Rightarrow> nat \<Rightarrow> ('f, 'k) world \<Rightarrow> ('f, 'k) world run" where
  "InterruptIn_ctor env a p w =
     (let i = \<lparr>pin_name = p, in_gpio = None, cb_instance = None, register = CallbackRegister_ctor\<rparr>;
          G = gpio env; assert_false = ZPP_ASSERT (assert_on env) False
      in if emul env then Inr (put_in a i w)
         else case (if p \<in> {1, 2, 3, 4} then buttons env p else None) of
           None \<Rightarrow> bindR assert_false (\<lambda>_. Inl Undef)
         | Some g \<Rightarrow>
             (let w0 = put_in a (i\<lparr>in_gpio := Some g\<rparr>) w in
              if \<not> gpio_is_ready_dt G g (kern w0) then bindR assert_false (\<lambda>_. Inr w0)
              else case gpio_pin_configure_dt G g [GPIO_INPUT] (kern w0) of
                (ret, k1) \<Rightarrow> (let w1 = w0\<lparr>kern := k1\<rparr> in
                 if ret < 0 then bindR assert_false (\<lambda>_. Inr w1)
                 else case gpio_pin_interrupt_configure_dt G g GPIO_INT_EDGE_FALLING k1 of
                   (ret2, k2) \<Rightarrow> (let w2 = w1\<lparr>kern := k2\<rparr> in
                    if ret2 \<noteq> 0 then bindR assert_false (\<lambda>_. Inr w2) else Inr w2))))"

definition InterruptIn_dtor :: "('f, 'k) in_env \<Rightarrow> addr \<Rightarrow> ('f, 'k) world \<Rightarrow> ('f, 'k) world run" where
  "InterruptIn_dtor env a w =
     bindR (if NUM_BUTTONS env > 0 then unregister_all_callbacks env a w else Inr w) (\<lambda>w1.
     bindR (CallbackRegister_dtor a w1) (\<lambda>w2. Inr (w2\<lparr>ins := (ins w2)(a := None)\<rparr>)))"

definition button_index :: "'f interrupt_in \<Rightarrow> size_t" where
  "button_index i = word_of_nat (pin_name i) - 1"

definition read_in :: "('f, 'k) in_env \<Rightarrow> addr \<Rightarrow> ('f, 'k) world \<Rightarrow> bool run" where
  "read_in env a w = with_in a w (\<lambda>i.
     if emul env then
       (if unat (button_index i) < length (s_value w) then Inr (s_value w ! unat (button_index i)) else Inl Undef)
     else case in_gpio i of
       None \<Rightarrow> Inl Undef
     | Some g \<Rightarrow> Inr (gpio_pin_get_dt (gpio env) g (kern w) \<noteq> 0))"

definition write_in ::
  "nat \<Rightarrow> ('f, 'k) in_env \<Rightarrow> addr \<Rightarrow> bool \<Rightarrow> ('f, 'k) world \<Rightarrow> ('f, 'k) world run option" where
  "write_in fuel env a v w = (case ins w a of
     None \<Rightarrow> Some (Inl Undef)
   | Some i \<Rightarrow>
      (let n = unat (button_index i) in
       if length (s_value w) \<le> n then Some (Inl Undef)
       else let edge_falling = (s_value w ! n = (\<not> kPolarityPressed) \<and> v = kPolarityPressed);
                w1 = w\<lparr>s_value := (s_value w)[n := v]\<rparr>
            in if edge_falling then execute_callbacks fuel env a w1 else Some (Inr w1)))"

definition add_callback ::
  "('f, 'k) in_env \<Rightarrow> addr \<Rightarrow> 'f option \<Rightarrow> ('f, 'k) world \<Rightarrow> (registration_token \<times> ('f, 'k) world) run" where
  "add_callback env a cb w = with_in a w (\<lambda>i.
     if cb = None then Inr (None, w)
     else if \<not> emul env \<and> \<not> has_callbacks (register i) then
       (case in_gpio i of
          None \<Rightarrow> Inl Undef
        | Some g \<Rightarrow>
            (let k1 = gpio_init_callback (gpio env) a (pin g) (kern w);
                 k2 = snd (gpio_add_callback (gpio env) (port g) a k1)
             in register_callback env a cb (put_in a (i\<lparr>cb_instance := Some a\<rparr>) (w\<lparr>kern := k2\<rparr>))))
     else register_callback env a cb w)"

text \<open>
  The static handler: \<open>cb\<close> points to the \<open>_gpio_cb\<close> that starts \<open>_cb_data\<close>, whose address names
  the object too.
\<close>

definition callback ::
  "nat \<Rightarrow> ('f, 'k) in_env \<Rightarrow> addr \<Rightarrow> ('f, 'k) world \<Rightarrow> ('f, 'k) world run option" where
  "callback fuel env cb w = (case ins w cb of
     None \<Rightarrow> Some (Inl Undef)
   | Some i \<Rightarrow> (case cb_instance i of
       None \<Rightarrow> Some (Inl Undef)
     | Some p \<Rightarrow> execute_callbacks fuel env p w))"

section \<open>Running the callbacks\<close>

text \<open>The reference: every callback once, in the order of registration, stopping at a fault.\<close>

fun run_all :: "('f, 'k) in_env \<Rightarrow> 'f option list \<Rightarrow> ('f, 'k) world \<Rightarrow> ('f, 'k) world run" where
  "run_all env [] w = Inr w"
| "run_all env (cb # cbs) w = bindR (run_cb env cb w) (run_all env cbs)"

text \<open>Callbacks that leave the object at \<open>a\<close> as it is.\<close>

definition keeps_in :: "('f, 'k) in_env \<Rightarrow> addr \<Rightarrow> bool" where
  "keeps_in env a \<longleftrightarrow> (\<forall>f w w'. call env f w = Inr w' \<longrightarrow> ins w' a = ins w a)"

lemma run_cb_keeps: "keeps_in env a \<Longrightarrow> run_cb env cb w = Inr w' \<Longrightarrow> ins w' a = ins w a"
  by (auto simp: run_cb_def keeps_in_def split: option.splits)

lemma keys_after_split:
  assumes "map_wf (xs @ (n, c) # ys)"
  shows "keys_after n (xs @ (n, c) # ys) = map fst ys"
proof -
  have "\<forall>x\<in>fst ` set xs. x < n" "\<forall>y\<in>fst ` set ys. n < y"
    using assms by (auto simp: map_wf_def sorted_append order.order_iff_strict image_iff)
  then show ?thesis
    by (auto simp: keys_after_def filter_empty_conv filter_id_conv)
qed

lemma map_of_split: "map_wf (xs @ (n, c) # ys) \<Longrightarrow> map_of (xs @ (n, c) # ys) n = Some c"
  by (auto simp: map_wf_def map_add_Some_iff map_of_eq_None_iff)

lemma visit_returns:
  assumes "run_cb env c w = Inr w1" and "ins w1 a = Some i" and "ins w a = Some i"
    and "callbacks (register i) = xs @ (n, c) # ys" and "map_wf (callbacks (register i))"
  shows "visit env a n w = Inr (first_key ys, w1)"
  using assms map_of_split [of xs n c ys] keys_after_split [of xs n c ys]
  by (auto simp: visit_def with_in_def next_key_def first_key_def split: list.splits)

lemma visit_split:
  assumes "keeps_in env a" and "ins w a = Some i" and "callbacks (register i) = xs @ (n, c) # ys"
    and "map_wf (callbacks (register i))"
  shows "visit env a n w = bindR (run_cb env c w) (\<lambda>w1. Inr (first_key ys, w1))"
proof (cases "run_cb env c w")
  case (Inr w1)
  then have "ins w1 a = Some i" using assms(1,2) run_cb_keeps by metis
  with Inr show ?thesis using visit_returns [OF Inr _ assms(2-4)] by simp
qed (use assms map_of_split [of xs n c ys] in \<open>simp add: visit_def with_in_def\<close>)

lemma exec_loop_run_all:
  assumes "keeps_in env a" and "map_wf m"
  shows "ins w a = Some i \<Longrightarrow> callbacks (register i) = m \<Longrightarrow> m = xs @ ys \<Longrightarrow> length ys \<le> n \<Longrightarrow>
    exec_loop n env a (first_key ys) w = Some (run_all env (map snd ys) w)"
proof (induction ys arbitrary: w n xs)
  case (Cons e ys)
  obtain k c where e: "e = (k, c)" by (cases e)
  obtain n' where n: "n = Suc n'" using Cons.prems(4) by (cases n) auto
  have v: "visit env a k w = bindR (run_cb env c w) (\<lambda>w1. Inr (first_key ys, w1))"
    using visit_split [OF assms(1) Cons.prems(1), of xs k c ys] Cons.prems assms(2) e by simp
  show ?case
  proof (cases "run_cb env c w")
    case (Inr w1)
    have "exec_loop n' env a (first_key ys) w1 = Some (run_all env (map snd ys) w1)"
      by (rule Cons.IH [of w1 "xs @ [e]"])
        (use Cons.prems run_cb_keeps [OF assms(1) Inr] in \<open>simp_all add: n\<close>)
    then show ?thesis using v Inr by (simp add: e n first_key_def)
  qed (use v in \<open>simp add: e n first_key_def\<close>)
qed (simp add: first_key_def)

end
