(* ===== verification/Token_Life.thy ===== *)
theory Token_Life
  imports Interrupt_In "HOL-Library.Multiset"
begin

text \<open>
  How applications use pins and tokens: any sequence of creating pins, registering callbacks, moving,
  dropping and destroying is a run of \<open>app_step\<close>; \<open>app_reach\<close> collects the states of the runs that
  respect \<open>op_ok\<close>, and \<open>app_inv\<close> is what they keep. The properties say when a token is safe to drop,
  which callbacks an edge runs, and what goes wrong when a token outlives its pin or a callback drops
  its own token.
\<close>

section \<open>The runs of an application\<close>

text \<open>
  The application holds tokens in variables (a list of tokens; \<open>None\<close> is a moved-from token or the
  one a null callback gets) and creates and destroys pins.
\<close>

type_synonym ('f, 'k) app = "('f, 'k) world \<times> registration_token list"

datatype 'f app_op =
    Create addr nat
  | Add addr "'f option"
  | Drop nat
  | Assign nat nat
  | Destroy addr

fun app_step :: "('f, 'k) in_env \<Rightarrow> 'f app_op \<Rightarrow> ('f, 'k) app \<Rightarrow> ('f, 'k) app run" where
  "app_step env (Create a p) (w, ts) = bindR (InterruptIn_ctor env a p w) (\<lambda>w'. Inr (w', ts))"
| "app_step env (Add a cb) (w, ts) = bindR (add_callback env a cb w) (\<lambda>(t, w'). Inr (w', ts @ [t]))"
| "app_step env (Drop n) (w, ts) = bindR (token_dtor env (ts ! n) w) (\<lambda>w'. Inr (w', take n ts @ drop (Suc n) ts))"
| "app_step env (Assign m n) (w, ts) =
     bindR (token_move_assign env (m = n) (ts ! m) (ts ! n) w) (\<lambda>(tm, tn, w'). Inr (w', (ts[n := tn])[m := tm]))"
| "app_step env (Destroy a) (w, ts) = bindR (InterruptIn_dtor env a w) (\<lambda>w'. Inr (w', ts))"

text \<open>What the register of the pin at \<open>a\<close> looks like, given the nodes of the heap.\<close>

definition register_ok :: "(addr \<times> registration_record) list \<Rightarrow> addr \<Rightarrow> 'f callback_register \<Rightarrow> bool" where
  "register_ok h a r \<longleftrightarrow> map_wf (callbacks r) \<and> map_wf (registrations r) \<and>
     map fst (registrations r) = map fst (callbacks r) \<and>
     (\<forall>k\<in>set (map fst (callbacks r)). k < unique_id r) \<and>
     (\<forall>(k, c)\<in>set (callbacks r). c \<noteq> None) \<and>
     (\<forall>(k, p)\<in>set (registrations r). map_of h p = Some \<lparr>rec_owner = Some a, rec_id = k\<rparr>)"

text \<open>
  The nodes of a pin are those of its registrations, and its handler is installed, on its port only,
  exactly while it has callbacks; at an address that holds no pin there is neither node nor handler.
\<close>

definition nodes_of_owner :: "('f, 'k) world \<Rightarrow> addr \<Rightarrow> 'f callback_register \<Rightarrow> bool" where
  "nodes_of_owner w a r \<longleftrightarrow> (\<forall>p rec. map_of (recs w) p = Some rec \<and> rec_owner rec = Some a \<longrightarrow>
     map_of (registrations r) (rec_id rec) = Some p)"

definition armed :: "('f, 'k) in_env \<Rightarrow> 'k gpio_view \<Rightarrow> 'k \<Rightarrow> addr \<Rightarrow> 'f interrupt_in \<Rightarrow> bool" where
  "armed env V k a i \<longleftrightarrow> (if emul env then \<forall>d. a \<notin> handlers V k d
     else \<exists>g. in_gpio i = Some g \<and> (\<forall>d. a \<in> handlers V k d \<longleftrightarrow> d = port g \<and> has_callbacks (register i)) \<and>
       (has_callbacks (register i) \<longrightarrow> cb_instance i = Some a))"

definition pin_inv :: "('f, 'k) in_env \<Rightarrow> 'k gpio_view \<Rightarrow> ('f, 'k) world \<Rightarrow> addr \<Rightarrow> bool" where
  "pin_inv env V w a \<longleftrightarrow> (case ins w a of
     None \<Rightarrow> (\<forall>p rec. map_of (recs w) p = Some rec \<longrightarrow> rec_owner rec \<noteq> Some a) \<and>
       (\<forall>d. a \<notin> handlers V (kern w) d)
   | Some i \<Rightarrow> register_ok (recs w) a (register i) \<and> nodes_of_owner w a (register i) \<and> armed env V (kern w) a i)"

definition world_inv :: "('f, 'k) in_env \<Rightarrow> 'k gpio_view \<Rightarrow> ('f, 'k) world \<Rightarrow> bool" where
  "world_inv env V w \<longleftrightarrow> (\<forall>a. pin_inv env V w a) \<and>
     (\<forall>p rec. map_of (recs w) p = Some rec \<longrightarrow> rec_owner rec \<noteq> None)"

text \<open>The non-null tokens of the application are the nodes of the heap, one for each.\<close>

definition app_inv :: "('f, 'k) in_env \<Rightarrow> 'k gpio_view \<Rightarrow> ('f, 'k) app \<Rightarrow> bool" where
  "app_inv env V s \<longleftrightarrow> world_inv env V (fst s) \<and>
     (\<forall>p. count (mset (snd s)) (Some p) = of_bool (map_of (recs (fst s)) p \<noteq> None))"

lemma pin_inv_frame:
  assumes "pin_inv env V w b" and "ins w' b = ins w b"
    and "\<And>p rec. rec_owner rec = Some b \<Longrightarrow> map_of (recs w') p = Some rec \<longleftrightarrow> map_of (recs w) p = Some rec"
    and "\<And>d. b \<in> handlers V (kern w') d \<longleftrightarrow> b \<in> handlers V (kern w) d"
  shows "pin_inv env V w' b"
proof (cases "ins w b")
  case (Some i)
  then have "register_ok (recs w) b (register i)" "nodes_of_owner w b (register i)" "armed env V (kern w) b i"
    using assms(1) by (simp_all add: pin_inv_def)
  then have "register_ok (recs w') b (register i)" "nodes_of_owner w' b (register i)" "armed env V (kern w') b i"
    using assms(3,4) by (auto simp: register_ok_def nodes_of_owner_def armed_def)
  then show ?thesis using Some assms(2) by (simp add: pin_inv_def)
qed (use assms in \<open>auto simp: pin_inv_def\<close>)

lemma node_of_Some: "map_wf m \<Longrightarrow> map_of m k = Some p \<Longrightarrow> node_of k m = [p]"
proof (induction m)
  case (Cons e m)
  then show ?case
    by (cases e) (auto simp: node_of_def map_wf_Cons filter_empty_conv image_iff split: if_splits)
qed (simp add: node_of_def)

lemma map_of_free: "map_of (recs (free_nodes ps w)) q = (if q \<in> set ps then None else map_of (recs w) q)"
proof -
  have "map_of (filter (\<lambda>e. fst e \<notin> set ps) h) q = (if q \<in> set ps then None else map_of h q)"
    for h :: "(addr \<times> registration_record) list"
    by (induction h) auto
  then show ?thesis by (simp add: free_nodes_def)
qed

lemma free_nodes_sel [simp]:
  "ins (free_nodes ps w) = ins w" "kern (free_nodes ps w) = kern w" "s_value (free_nodes ps w) = s_value w"
  by (simp_all add: free_nodes_def)

lemma put_in_sel [simp]:
  "ins (put_in a i w) = (ins w)(a \<mapsto> i)" "kern (put_in a i w) = kern w" "recs (put_in a i w) = recs w"
  "s_value (put_in a i w) = s_value w"
  by (simp_all add: put_in_def)

lemma remove_gpio_armed:
  assumes "gpio_irq_laws (gpio env) V" and "armed env V (kern w) a i" and "has_callbacks (register i)"
    and "ins w a = Some i'" and "in_gpio i' = in_gpio i"
  shows "\<exists>k'. remove_gpio_callback env a w = Inr (w\<lparr>kern := k'\<rparr>) \<and>
    (\<forall>d. handlers V k' d = handlers V (kern w) d - {a})"
proof (cases "emul env")
  case True
  then have "\<forall>d. handlers V (kern w) d = handlers V (kern w) d - {a}"
    using assms(2) by (auto simp: armed_def)
  then show ?thesis
    using True assms(4) by (intro exI [of _ "kern w"]) (simp add: remove_gpio_callback_def with_in_def)
next
  case False
  then obtain g where g: "in_gpio i = Some g" "\<forall>d. a \<in> handlers V (kern w) d \<longleftrightarrow> d = port g"
    using assms(2,3) by (auto simp: armed_def)
  then obtain k' where k': "gpio_remove_callback (gpio env) (port g) a (kern w) = (0, k')"
    "handlers V k' = (handlers V (kern w))(port g := handlers V (kern w) (port g) - {a})"
    using assms(1) unfolding gpio_irq_laws_def by blast
  have "handlers V k' d = handlers V (kern w) d - {a}" for d
    using g(2) k'(2) by auto
  moreover have "remove_gpio_callback env a w = Inr (w\<lparr>kern := k'\<rparr>)"
    using False g(1) k'(1) assms(4,5) by (simp add: remove_gpio_callback_def with_in_def)
  ultimately show ?thesis by blast
qed

text \<open>Unregistering: what it leaves, and that it keeps the invariant.\<close>

lemma unregister_effect:
  assumes "gpio_irq_laws (gpio env) V" and "pin_inv env V w a" and "ins w a = Some i"
    and "map_of (registrations (register i)) k = Some p"
  shows "\<exists>k'. unregister_callback env a k w =
      Inr (free_nodes [p] (put_in a (i\<lparr>register := (register i)\<lparr>callbacks := map_erase k (callbacks (register i)),
        registrations := map_erase k (registrations (register i))\<rparr>\<rparr>) w)\<lparr>kern := k'\<rparr>) \<and>
    (\<forall>d. handlers V k' d = (if map_erase k (callbacks (register i)) = [] then handlers V (kern w) d - {a}
      else handlers V (kern w) d))"
proof -
  let ?r1 = "(register i)\<lparr>callbacks := map_erase k (callbacks (register i))\<rparr>"
  let ?w1 = "put_in a (i\<lparr>register := ?r1\<rparr>) w"
  have ok: "register_ok (recs w) a (register i)" "armed env V (kern w) a i"
    using assms(2,3) by (simp_all add: pin_inv_def)
  have node: "node_of k (registrations (register i)) = [p]"
    using ok(1) assms(4) by (intro node_of_Some) (simp_all add: register_ok_def)
  have "registrations (register i) \<noteq> []" using assms(4) by auto
  then have has: "has_callbacks (register i)"
    using ok(1) by (auto simp: register_ok_def has_callbacks_def)
  show ?thesis
  proof (cases "has_callbacks ?r1")
    case True
    then show ?thesis
      using assms(3) node
      by (intro exI [of _ "kern w"])
        (simp add: unregister_callback_def with_in_def has_callbacks_def put_in_def free_nodes_def)
  next
    case False
    have "armed env V (kern ?w1) a i" using ok(2) by simp
    then obtain k' where "remove_gpio_callback env a ?w1 = Inr (?w1\<lparr>kern := k'\<rparr>)"
      "\<forall>d. handlers V k' d = handlers V (kern ?w1) d - {a}"
      using remove_gpio_armed [OF assms(1) _ has, of ?w1 a "i\<lparr>register := ?r1\<rparr>"] by auto
    then show ?thesis
      using assms(3) node False
      by (intro exI [of _ k'])
        (simp add: unregister_callback_def with_in_def has_callbacks_def put_in_def free_nodes_def)
  qed
qed

lemma map_fst_erase: "map fst (map_erase k m) = filter (\<lambda>x. x \<noteq> k) (map fst m)"
  by (simp add: map_erase_def filter_map o_def)

lemma register_ok_erase:
  assumes "register_ok h a r" and "map_of (registrations r) k = Some p"
    and "\<And>q. q \<noteq> p \<Longrightarrow> map_of h' q = map_of h q"
  shows "register_ok h' a (r\<lparr>callbacks := map_erase k (callbacks r), registrations := map_erase k (registrations r)\<rparr>)"
proof -
  have p: "map_of h p = Some \<lparr>rec_owner = Some a, rec_id = k\<rparr>"
    using assms(1,2) by (auto simp: register_ok_def dest: map_of_SomeD)
  have "map_of h' q = Some \<lparr>rec_owner = Some a, rec_id = x\<rparr>"
    if "(x, q) \<in> set (map_erase k (registrations r))" for x q
  proof -
    have x: "x \<noteq> k" "(x, q) \<in> set (registrations r)" using that by (auto simp: map_erase_def)
    then have q: "map_of h q = Some \<lparr>rec_owner = Some a, rec_id = x\<rparr>"
      using assms(1) by (auto simp: register_ok_def)
    then have "q \<noteq> p" using p x(1) by auto
    then show ?thesis using q assms(3) by simp
  qed
  moreover have "map fst (map_erase k (registrations r)) = map fst (map_erase k (callbacks r))"
    using assms(1) by (simp add: register_ok_def map_fst_erase)
  moreover have "set (map_erase k (callbacks r)) \<subseteq> set (callbacks r)" by (auto simp: map_erase_def)
  ultimately show ?thesis
    using assms(1) by (auto simp: register_ok_def map_wf_erase)
qed

lemma nodes_erase:
  assumes "nodes_of_owner w a r" and "register_ok (recs w) a r" and "map_of (registrations r) k = Some p"
    and "\<And>q. map_of (recs w') q = (if q = p then None else map_of (recs w) q)"
  shows "nodes_of_owner w' a (r\<lparr>callbacks := cs, registrations := map_erase k (registrations r)\<rparr>)"
  unfolding nodes_of_owner_def
proof (intro allI impI)
  fix q rec
  assume "map_of (recs w') q = Some rec \<and> rec_owner rec = Some a"
  then have q: "q \<noteq> p" "map_of (registrations r) (rec_id rec) = Some q"
    using assms(1,4) by (auto simp: nodes_of_owner_def split: if_splits)
  then have "rec_id rec \<noteq> k" using assms(3) by auto
  then show "map_of (registrations (r\<lparr>callbacks := cs, registrations := map_erase k (registrations r)\<rparr>))
      (rec_id rec) = Some q"
    using q by (simp add: map_of_erase)
qed

lemma unregister_inv:
  assumes "gpio_irq_laws (gpio env) V" and "world_inv env V w" and "ins w a = Some i"
    and "map_of (registrations (register i)) k = Some p"
  shows "\<exists>w'. unregister_callback env a k w = Inr w' \<and> world_inv env V w' \<and>
    map_of (recs w') = (map_of (recs w))(p := None) \<and>
    ins w' = (ins w)(a \<mapsto> i\<lparr>register := (register i)\<lparr>callbacks := map_erase k (callbacks (register i)),
      registrations := map_erase k (registrations (register i))\<rparr>\<rparr>)"
proof -
  let ?r = "(register i)\<lparr>callbacks := map_erase k (callbacks (register i)),
    registrations := map_erase k (registrations (register i))\<rparr>"
  have pin: "pin_inv env V w b" for b using assms(2) by (simp add: world_inv_def)
  have ok: "register_ok (recs w) a (register i)" "nodes_of_owner w a (register i)" "armed env V (kern w) a i"
    using pin [of a] assms(3) by (simp_all add: pin_inv_def)
  obtain k' where eff: "unregister_callback env a k w = Inr (free_nodes [p] (put_in a (i\<lparr>register := ?r\<rparr>) w)\<lparr>kern := k'\<rparr>)"
    and h: "\<And>d. handlers V k' d = (if map_erase k (callbacks (register i)) = [] then handlers V (kern w) d - {a}
      else handlers V (kern w) d)"
    using unregister_effect [OF assms(1) pin assms(3,4)] by blast
  define w' where "w' = free_nodes [p] (put_in a (i\<lparr>register := ?r\<rparr>) w)\<lparr>kern := k'\<rparr>"
  have sel: "ins w' = (ins w)(a \<mapsto> i\<lparr>register := ?r\<rparr>)" "kern w' = k'" by (simp_all add: w'_def)
  have recs: "map_of (recs w') q = (if q = p then None else map_of (recs w) q)" for q
    by (simp add: w'_def map_of_free)
  have p: "map_of (recs w) p = Some \<lparr>rec_owner = Some a, rec_id = k\<rparr>"
    using ok(1) assms(4) by (auto simp: register_ok_def dest: map_of_SomeD)
  have "registrations (register i) \<noteq> []" using assms(4) by auto
  then have has: "has_callbacks (register i)" using ok(1) by (auto simp: register_ok_def has_callbacks_def)
  have "register_ok (recs w') a ?r"
    by (rule register_ok_erase [OF ok(1) assms(4)]) (simp add: recs)
  moreover have "nodes_of_owner w' a ?r" by (rule nodes_erase [OF ok(2,1) assms(4) recs])
  moreover have "armed env V k' a (i\<lparr>register := ?r\<rparr>)"
    using ok(3) has h by (auto simp: armed_def has_callbacks_def split: if_splits)
  ultimately have "pin_inv env V w' a" by (simp add: pin_inv_def sel)
  moreover have "pin_inv env V w' b" if "b \<noteq> a" for b
    by (rule pin_inv_frame [OF pin [of b]]) (use that p h in \<open>auto simp: sel recs\<close>)
  ultimately have "pin_inv env V w' b" for b by (cases "b = a") auto
  then have "world_inv env V w'"
    using assms(2) by (auto simp: world_inv_def recs split: if_splits)
  then show ?thesis using eff recs sel(1) by (auto simp: w'_def fun_eq_iff)
qed

lemma token_reset_inv:
  assumes "gpio_irq_laws (gpio env) V" and "world_inv env V w" and "map_of (recs w) p \<noteq> None"
  shows "\<exists>w'. token_reset env (Some p) w = Inr (None, w') \<and> world_inv env V w' \<and>
    map_of (recs w') = (map_of (recs w))(p := None)"
proof -
  obtain rec where "map_of (recs w) p = Some rec" using assms(3) by auto
  moreover from this obtain a where "rec_owner rec = Some a" using assms(2) by (fastforce simp: world_inv_def)
  ultimately have rec: "map_of (recs w) p = Some rec" "rec_owner rec = Some a" by auto
  have pin: "pin_inv env V w a" using assms(2) by (simp add: world_inv_def)
  then obtain i where i: "ins w a = Some i" using rec by (cases "ins w a") (auto simp: pin_inv_def)
  then have "map_of (registrations (register i)) (rec_id rec) = Some p"
    using pin rec by (auto simp: pin_inv_def nodes_of_owner_def)
  then show ?thesis
    using unregister_inv [OF assms(1,2) i, of "rec_id rec" p] rec by (auto simp: token_reset_def)
qed

text \<open>Registering: the new key is the largest, so it goes to the end of both maps.\<close>

lemma callback_register_update:
  "r\<lparr>unique_id := x, callbacks := y, registrations := z\<rparr> = \<lparr>unique_id = x, callbacks = y, registrations = z\<rparr>"
  by (cases r) simp

lemma register_effect:
  assumes "register_ok (recs w) a (register i)" and "ins w a = Some i"
  shows "register_callback env a cb w = Inr (Some (alloc env (recs w)),
    put_in a (i\<lparr>register := \<lparr>unique_id = unique_id (register i) + 1,
      callbacks = callbacks (register i) @ [(unique_id (register i), cb)],
      registrations = registrations (register i) @ [(unique_id (register i), alloc env (recs w))]\<rparr>\<rparr>)
    (w\<lparr>recs := (alloc env (recs w), \<lparr>rec_owner = Some a, rec_id = unique_id (register i)\<rparr>) # recs w\<rparr>))"
proof -
  let ?r = "register i" and ?n = "unique_id (register i)"
  have "fst ` set (callbacks ?r) = fst ` set (registrations ?r)"
    using assms(1) by (metis register_ok_def set_map)
  moreover have "\<forall>x\<in>fst ` set (callbacks ?r). x < ?n" using assms(1) by (simp add: register_ok_def)
  ultimately have "\<forall>x\<in>fst ` set (callbacks ?r). x < ?n" "\<forall>x\<in>fst ` set (registrations ?r). x < ?n"
    by simp_all
  then have last: "map_insert ?n c (callbacks ?r) = callbacks ?r @ [(?n, c)]"
    "map_insert ?n q (registrations ?r) = registrations ?r @ [(?n, q)]"
    and new: "map_of (registrations ?r) ?n = None" for c q
    by (auto intro!: map_insert_last simp: map_of_eq_None_iff)
  show ?thesis
    using assms(2) new last by (simp add: register_callback_def with_in_def Let_def callback_register_update)
qed

lemma map_wf_snoc: "map_wf m \<Longrightarrow> \<forall>x\<in>fst ` set m. x < k \<Longrightarrow> map_wf (m @ [(k, v)])"
  by (auto simp: map_wf_def sorted_append)

lemma register_ok_snoc:
  assumes "register_ok h a r" and "unique_id r < unique_id r + 1" and "map_of h p = None" and "cb \<noteq> None"
  shows "register_ok ((p, \<lparr>rec_owner = Some a, rec_id = unique_id r\<rparr>) # h) a
    \<lparr>unique_id = unique_id r + 1, callbacks = callbacks r @ [(unique_id r, cb)],
     registrations = registrations r @ [(unique_id r, p)]\<rparr>"
proof -
  have keys: "fst ` set (registrations r) = fst ` set (callbacks r)"
    using assms(1) by (metis register_ok_def set_map)
  have lt: "\<forall>x\<in>fst ` set (callbacks r). x < unique_id r" using assms(1) by (simp add: register_ok_def)
  have "map_wf (callbacks r @ [(unique_id r, cb)])" "map_wf (registrations r @ [(unique_id r, p)])"
    using assms(1) lt by (simp_all only: register_ok_def map_wf_snoc keys)
  moreover have "\<forall>x\<in>fst ` set (callbacks r). x < unique_id r + 1" using lt assms(2) by force
  moreover have "q \<noteq> p" if "(x, q) \<in> set (registrations r)" for x q
    using assms(1,3) that by (auto simp: register_ok_def)
  ultimately show ?thesis
    using assms by (auto simp: register_ok_def)
qed

lemma register_inv:
  assumes "alloc_law env" and "world_inv env V w" and "ins w a = Some i"
    and "unique_id (register i) < unique_id (register i) + 1" and "cb \<noteq> None"
    and w1: "ins w1 = (ins w)(a \<mapsto> i1)" "recs w1 = recs w" "register i1 = register i"
    and "\<And>b d. b \<noteq> a \<Longrightarrow> b \<in> handlers V (kern w1) d \<longleftrightarrow> b \<in> handlers V (kern w) d"
    and "\<And>r. has_callbacks r \<Longrightarrow> armed env V (kern w1) a (i1\<lparr>register := r\<rparr>)"
  shows "\<exists>p w'. register_callback env a cb w1 = Inr (Some p, w') \<and> world_inv env V w' \<and>
    map_of (recs w) p = None \<and>
    map_of (recs w') = (map_of (recs w))(p \<mapsto> \<lparr>rec_owner = Some a, rec_id = unique_id (register i)\<rparr>)"
proof -
  let ?p = "alloc env (recs w)" and ?n = "unique_id (register i)"
  let ?r = "\<lparr>unique_id = ?n + 1, callbacks = callbacks (register i) @ [(?n, cb)],
    registrations = registrations (register i) @ [(?n, ?p)]\<rparr>"
  define w' where "w' = put_in a (i1\<lparr>register := ?r\<rparr>) (w1\<lparr>recs := (?p, \<lparr>rec_owner = Some a, rec_id = ?n\<rparr>) # recs w\<rparr>)"
  have pin: "pin_inv env V w b" for b using assms(2) by (simp add: world_inv_def)
  have ok: "register_ok (recs w) a (register i)" "nodes_of_owner w a (register i)"
    using pin [of a] assms(3) by (simp_all add: pin_inv_def)
  have new: "map_of (recs w) ?p = None" using assms(1) by (simp add: alloc_law_def)
  have eff: "register_callback env a cb w1 = Inr (Some ?p, w')"
    using register_effect [of w1 a i1 env cb] ok(1) w1 by (simp add: w'_def)
  have sel: "ins w' = (ins w)(a \<mapsto> i1\<lparr>register := ?r\<rparr>)" "kern w' = kern w1"
    "recs w' = (?p, \<lparr>rec_owner = Some a, rec_id = ?n\<rparr>) # recs w"
    by (simp_all add: w'_def w1)
  have "?n \<notin> set (map fst (registrations (register i)))"
    using ok(1) unfolding register_ok_def by force
  then have fresh: "map_of (registrations (register i)) ?n = None" by (simp add: map_of_eq_None_iff)
  have "register_ok (recs w') a ?r"
    unfolding sel by (rule register_ok_snoc [OF ok(1) assms(4) new assms(5)])
  moreover have "nodes_of_owner w' a ?r"
    unfolding nodes_of_owner_def
  proof (intro allI impI)
    fix q rec
    assume q: "map_of (recs w') q = Some rec \<and> rec_owner rec = Some a"
    consider "q = ?p" "rec_id rec = ?n" | "map_of (registrations (register i)) (rec_id rec) = Some q"
    proof (cases "q = ?p")
      case True
      then have "rec_id rec = ?n" using q unfolding sel by auto
      then show ?thesis using True that(1) by blast
    next
      case False
      then have "map_of (recs w) q = Some rec" using q unfolding sel by simp
      then show ?thesis using q ok(2) that(2) unfolding nodes_of_owner_def by blast
    qed
    then show "map_of (registrations ?r) (rec_id rec) = Some q"
      by cases (use fresh in \<open>simp_all add: map_add_def\<close>)
  qed
  moreover have "armed env V (kern w1) a (i1\<lparr>register := ?r\<rparr>)"
    by (rule assms(10)) (simp add: has_callbacks_def)
  ultimately have "pin_inv env V w' a" by (simp add: pin_inv_def sel)
  moreover have "pin_inv env V w' b" if "b \<noteq> a" for b
    by (rule pin_inv_frame [OF pin [of b]]) (use that new assms(9) in \<open>auto simp: sel\<close>)
  ultimately have "pin_inv env V w' b" for b by (cases "b = a") auto
  then have "world_inv env V w'" using assms(2) by (auto simp: world_inv_def sel)
  then show ?thesis using eff new sel(3) by auto
qed

lemma add_callback_inv:
  assumes "gpio_irq_laws (gpio env) V" and "alloc_law env" and "world_inv env V w" and "ins w a = Some i"
    and "unique_id (register i) < unique_id (register i) + 1" and "cb \<noteq> None"
  shows "\<exists>p w'. add_callback env a cb w = Inr (Some p, w') \<and> world_inv env V w' \<and>
    map_of (recs w) p = None \<and>
    map_of (recs w') = (map_of (recs w))(p \<mapsto> \<lparr>rec_owner = Some a, rec_id = unique_id (register i)\<rparr>)"
proof (cases "emul env \<or> has_callbacks (register i)")
  case True
  have armed: "armed env V (kern w) a i" using assms(3,4) by (auto simp: world_inv_def pin_inv_def dest: spec [of _ a])
  have "\<exists>p w'. register_callback env a cb w = Inr (Some p, w') \<and> world_inv env V w' \<and>
    map_of (recs w) p = None \<and>
    map_of (recs w') = (map_of (recs w))(p \<mapsto> \<lparr>rec_owner = Some a, rec_id = unique_id (register i)\<rparr>)"
    by (rule register_inv [OF assms(2-6), of w i]) (use True armed assms(4) in \<open>auto simp: armed_def\<close>)
  then show ?thesis using True assms(4,6) by (auto simp add: add_callback_def with_in_def)
next
  case False
  have "armed env V (kern w) a i" using assms(3,4) by (auto simp: world_inv_def pin_inv_def dest: spec [of _ a])
  then obtain g where g: "in_gpio i = Some g" "\<And>d. a \<notin> handlers V (kern w) d"
    using False by (auto simp: armed_def)
  let ?k1 = "gpio_init_callback (gpio env) a (pin g) (kern w)"
  obtain k2 where k2: "gpio_add_callback (gpio env) (port g) a ?k1 = (0, k2)"
    "handlers V k2 = (handlers V (kern w))(port g := insert a (handlers V (kern w) (port g)))"
    using assms(1) unfolding gpio_irq_laws_def by metis
  let ?i1 = "i\<lparr>cb_instance := Some a\<rparr>"
  let ?w1 = "put_in a ?i1 (w\<lparr>kern := k2\<rparr>)"
  have "\<exists>p w'. register_callback env a cb ?w1 = Inr (Some p, w') \<and> world_inv env V w' \<and>
    map_of (recs w) p = None \<and>
    map_of (recs w') = (map_of (recs w))(p \<mapsto> \<lparr>rec_owner = Some a, rec_id = unique_id (register i)\<rparr>)"
    by (rule register_inv [OF assms(2-6), of ?w1 ?i1]) (use False g k2(2) in \<open>auto simp: armed_def\<close>)
  then show ?thesis using False g k2(1) assms(4,6) by (simp add: add_callback_def with_in_def)
qed

lemma ctor_frame:
  assumes "gpio_irq_laws (gpio env) V" and "InterruptIn_ctor env a p w = Inr w'"
  shows "\<exists>g. (\<not> emul env \<longrightarrow> g \<noteq> None) \<and> ins w' = (ins w)(a \<mapsto> \<lparr>pin_name = p, in_gpio = g, cb_instance = None,
      register = CallbackRegister_ctor\<rparr>) \<and> recs w' = recs w \<and> handlers V (kern w') = handlers V (kern w)"
proof -
  have h: "handlers V (snd (gpio_pin_configure_dt (gpio env) g f k)) = handlers V k"
    "handlers V (snd (gpio_pin_interrupt_configure_dt (gpio env) g e k)) = handlers V k" for g f e k
    using assms(1) by (simp_all add: gpio_irq_laws_def)
  have h1: "gpio_pin_configure_dt (gpio env) g f k = (r, k') \<Longrightarrow> handlers V k' = handlers V k" for g f k r k'
    using h(1) [of g f k] by simp
  have h2: "gpio_pin_interrupt_configure_dt (gpio env) g e k = (r, k') \<Longrightarrow> handlers V k' = handlers V k" for g e k r k'
    using h(2) [of g e k] by simp
  show ?thesis
  proof (cases "emul env")
    case True
    then show ?thesis using assms(2) by (intro exI [of _ None]) (auto simp: InterruptIn_ctor_def)
  next
    case False
    obtain g where g: "(if p \<in> {1, 2, 3, 4} then buttons env p else None) = Some g"
      using assms(2) False by (cases "if p \<in> {1, 2, 3, 4} then buttons env p else None")
        (auto simp: InterruptIn_ctor_def bindR_eq_Inr)
    show ?thesis
      using assms(2) False unfolding InterruptIn_ctor_def Let_def g
      by (intro exI [of _ "Some g"]) (auto simp: bindR_eq_Inr dest!: h1 h2 split: if_splits prod.splits)
  qed
qed

lemma ctor_inv:
  assumes "gpio_irq_laws (gpio env) V" and "world_inv env V w" and "ins w a = None"
    and "InterruptIn_ctor env a p w = Inr w'"
  shows "world_inv env V w' \<and> recs w' = recs w"
proof -
  obtain g where g: "\<not> emul env \<longrightarrow> g \<noteq> None" "recs w' = recs w" "handlers V (kern w') = handlers V (kern w)"
    "ins w' = (ins w)(a \<mapsto> \<lparr>pin_name = p, in_gpio = g, cb_instance = None, register = CallbackRegister_ctor\<rparr>)"
    using ctor_frame [OF assms(1,4)] by blast
  have pin: "pin_inv env V w b" for b using assms(2) by (simp add: world_inv_def)
  have "pin_inv env V w' a"
    using pin [of a] assms(3) g
    by (auto simp: pin_inv_def register_ok_def nodes_of_owner_def armed_def CallbackRegister_ctor_def has_callbacks_def)
  moreover have "pin_inv env V w' b" if "b \<noteq> a" for b
    by (rule pin_inv_frame [OF pin [of b]]) (use that g in simp_all)
  ultimately have "pin_inv env V w' b" for b by (cases "b = a") auto
  then show ?thesis using assms(2) g(2) by (simp add: world_inv_def)
qed

text \<open>
  Destroying a pin frees the nodes of the registrations that are left and takes its handler off the
  port.
\<close>

lemma register_dtor_effect:
  assumes "ins w a = Some i" and "registrations (register i) = []"
  shows "CallbackRegister_dtor a w = Inr (put_in a (i\<lparr>register := CallbackRegister_ctor\<rparr>) w)"
  using assms by (simp add: CallbackRegister_dtor_def with_in_def free_nodes_def put_in_def split_def)

lemma unregister_all_effect:
  assumes "gpio_irq_laws (gpio env) V" and "pin_inv env V w a" and "ins w a = Some i"
  shows "\<exists>w'. unregister_all_callbacks env a w = Inr w' \<and>
    ins w' = (ins w)(a \<mapsto> i\<lparr>register := (register i)\<lparr>callbacks := [], registrations := []\<rparr>\<rparr>) \<and>
    recs w' = recs (free_nodes (map snd (registrations (register i))) w) \<and>
    (\<forall>d. handlers V (kern w') d = handlers V (kern w) d - {a})"
proof -
  let ?i' = "i\<lparr>register := (register i)\<lparr>callbacks := [], registrations := []\<rparr>\<rparr>"
  let ?w1 = "free_nodes (map snd (registrations (register i))) (put_in a ?i' w)"
  have armed: "armed env V (kern ?w1) a i" using assms(2,3) by (simp add: pin_inv_def)
  have recs: "recs ?w1 = recs (free_nodes (map snd (registrations (register i))) w)"
    by (simp add: free_nodes_def)
  show ?thesis
  proof (cases "has_callbacks (register i)")
    case True
    then obtain k' where "remove_gpio_callback env a ?w1 = Inr (?w1\<lparr>kern := k'\<rparr>)"
      "\<forall>d. handlers V k' d = handlers V (kern ?w1) d - {a}"
      using remove_gpio_armed [OF assms(1) armed True, of ?i'] by auto
    then show ?thesis
      using True assms(3) recs by (auto simp: unregister_all_callbacks_def with_in_def Let_def)
  next
    case False
    then have "handlers V (kern ?w1) d - {a} = handlers V (kern ?w1) d" for d
      using armed by (auto simp: armed_def split: if_splits)
    then show ?thesis
      using False assms(3) recs by (simp add: unregister_all_callbacks_def with_in_def Let_def)
  qed
qed

lemma dtor_effect:
  assumes "gpio_irq_laws (gpio env) V" and "pin_inv env V w a" and "ins w a = Some i"
    and "0 < NUM_BUTTONS env \<or> registrations (register i) = []"
  shows "\<exists>w'. InterruptIn_dtor env a w = Inr w' \<and> ins w' = (ins w)(a := None) \<and>
    recs w' = recs (free_nodes (map snd (registrations (register i))) w) \<and>
    (\<forall>d. handlers V (kern w') d = handlers V (kern w) d - {a})"
proof -
  have "\<exists>w1 i1. (if NUM_BUTTONS env > 0 then unregister_all_callbacks env a w else Inr w) = Inr w1 \<and>
    ins w1 = (ins w)(a \<mapsto> i1) \<and> registrations (register i1) = [] \<and>
    recs w1 = recs (free_nodes (map snd (registrations (register i))) w) \<and>
    (\<forall>d. handlers V (kern w1) d = handlers V (kern w) d - {a})"
  proof (cases "0 < NUM_BUTTONS env")
    case True
    obtain w' where "unregister_all_callbacks env a w = Inr w'"
      "ins w' = (ins w)(a \<mapsto> i\<lparr>register := (register i)\<lparr>callbacks := [], registrations := []\<rparr>\<rparr>)"
      "recs w' = recs (free_nodes (map snd (registrations (register i))) w)"
      "\<forall>d. handlers V (kern w') d = handlers V (kern w) d - {a}"
      using unregister_all_effect [OF assms(1-3)] by blast
    then show ?thesis
      using True
      by (intro exI [of _ w'] exI [of _ "i\<lparr>register := (register i)\<lparr>callbacks := [], registrations := []\<rparr>\<rparr>"]) simp
  next
    case False
    then have regs: "registrations (register i) = []" using assms(4) by simp
    then have "handlers V (kern w) d - {a} = handlers V (kern w) d" for d
      using assms(2,3) by (auto simp: pin_inv_def register_ok_def armed_def has_callbacks_def split: if_splits)
    then show ?thesis
      using False regs assms(3) by (intro exI [of _ w] exI [of _ i]) (simp add: fun_upd_idem free_nodes_def)
  qed
  then obtain w1 i1 where w1: "(if NUM_BUTTONS env > 0 then unregister_all_callbacks env a w else Inr w) = Inr w1"
    "ins w1 = (ins w)(a \<mapsto> i1)" "registrations (register i1) = []"
    "recs w1 = recs (free_nodes (map snd (registrations (register i))) w)"
    "\<forall>d. handlers V (kern w1) d = handlers V (kern w) d - {a}"
    by blast
  then show ?thesis
    using register_dtor_effect [of w1 a i1] by (simp add: InterruptIn_dtor_def)
qed

lemma dtor_inv:
  assumes "gpio_irq_laws (gpio env) V" and "world_inv env V w" and "ins w a = Some i"
    and "0 < NUM_BUTTONS env \<or> registrations (register i) = []"
  shows "\<exists>w'. InterruptIn_dtor env a w = Inr w' \<and> world_inv env V w' \<and> ins w' = (ins w)(a := None) \<and>
    (\<forall>p. map_of (recs w') p = (if p \<in> snd ` set (registrations (register i)) then None else map_of (recs w) p))"
proof -
  have pin: "pin_inv env V w b" for b using assms(2) by (simp add: world_inv_def)
  have ok: "register_ok (recs w) a (register i)" "nodes_of_owner w a (register i)"
    using pin [of a] assms(3) by (simp_all add: pin_inv_def)
  obtain w' where w': "InterruptIn_dtor env a w = Inr w'" "ins w' = (ins w)(a := None)"
    "recs w' = recs (free_nodes (map snd (registrations (register i))) w)"
    "\<forall>d. handlers V (kern w') d = handlers V (kern w) d - {a}"
    using dtor_effect [OF assms(1) pin assms(3,4)] by blast
  have recs: "map_of (recs w') p = (if p \<in> snd ` set (registrations (register i)) then None else map_of (recs w) p)" for p
    by (simp add: w'(3) map_of_free)
  have mine: "rec_owner rec = Some a" if "p \<in> snd ` set (registrations (register i))" "map_of (recs w) p = Some rec" for p rec
    using ok(1) that by (fastforce simp: register_ok_def)
  have "p \<in> snd ` set (registrations (register i))" if "map_of (recs w) p = Some rec" "rec_owner rec = Some a" for p rec
    using ok(2) that by (force simp: nodes_of_owner_def dest: map_of_SomeD)
  then have "pin_inv env V w' a" using w'(2,4) by (auto simp: pin_inv_def recs)
  moreover have "pin_inv env V w' b" if "b \<noteq> a" for b
  proof (rule pin_inv_frame [OF pin [of b]])
    show "map_of (recs w') p = Some rec \<longleftrightarrow> map_of (recs w) p = Some rec" if "rec_owner rec = Some b" for p rec
      using mine [of p rec] that \<open>b \<noteq> a\<close> unfolding recs by auto
  qed (use that w'(2,4) in simp_all)
  ultimately have "pin_inv env V w' b" for b by (cases "b = a") auto
  then have "world_inv env V w'" using assms(2) by (auto simp: world_inv_def recs split: if_splits)
  then show ?thesis using w'(1,2) recs by blast
qed

text \<open>
  What the application has to respect: a pin is created on free memory and, without emulation, for a
  button the board has; a registration comes before \<open>_unique_id\<close> wraps; tokens are those it holds;
  a pin is destroyed after the tokens of its callbacks.
\<close>

fun op_ok :: "('f, 'k) in_env \<Rightarrow> ('f, 'k) app \<Rightarrow> 'f app_op \<Rightarrow> bool" where
  "op_ok env (w, ts) (Create a p) \<longleftrightarrow> ins w a = None \<and>
     (\<not> emul env \<longrightarrow> p \<in> {1, 2, 3, 4} \<and> buttons env p \<noteq> None)"
| "op_ok env (w, ts) (Add a cb) \<longleftrightarrow> (case ins w a of None \<Rightarrow> False
     | Some i \<Rightarrow> unique_id (register i) < unique_id (register i) + 1)"
| "op_ok env (w, ts) (Drop n) \<longleftrightarrow> n < length ts"
| "op_ok env (w, ts) (Assign m n) \<longleftrightarrow> m < length ts \<and> n < length ts"
| "op_ok env (w, ts) (Destroy a) \<longleftrightarrow> (case ins w a of None \<Rightarrow> False
     | Some i \<Rightarrow> registrations (register i) = [])"

inductive app_reach :: "('f, 'k) in_env \<Rightarrow> 'k gpio_view \<Rightarrow> ('f, 'k) app \<Rightarrow> bool"
  for env :: "('f, 'k) in_env" and V :: "'k gpio_view" where
  start: "\<forall>d. handlers V k d = {} \<Longrightarrow>
    app_reach env V (\<lparr>ins = (\<lambda>_. None), recs = [], s_value = replicate (NUM_BUTTONS env) (\<not> kPolarityPressed), kern = k\<rparr>, [])"
| step: "app_reach env V s \<Longrightarrow> op_ok env s op \<Longrightarrow> app_step env op s = Inr s' \<Longrightarrow> app_reach env V s'"

lemma tokens_drop:
  assumes "n < length ts"
  shows "count (mset (take n ts @ drop (Suc n) ts)) t = count (mset ts) t - of_bool (t = ts ! n)"
proof -
  have "mset ts = mset (take n ts @ ts ! n # drop (Suc n) ts)" using id_take_nth_drop [OF assms] by simp
  then show ?thesis by simp
qed

lemma count_update:
  "n < length ts \<Longrightarrow> count (mset (ts[n := u])) t + of_bool (t = ts ! n) = count (mset ts) t + of_bool (t = u)"
proof -
  assume n: "n < length ts"
  then have "of_bool (t = ts ! n) \<le> count (mset ts) t" by (auto simp: Suc_le_eq)
  then show ?thesis using n by (auto simp: mset_update)
qed

lemma tokens_assign:
  assumes "m < length ts" and "n < length ts" and "m \<noteq> n"
  shows "count (mset ((ts[n := None])[m := ts ! n])) (Some p) = count (mset ts) (Some p) - of_bool (Some p = ts ! m)"
proof -
  have "(ts[n := None]) ! m = ts ! m" using assms(3) by simp
  then show ?thesis
    using count_update [OF assms(2), of None "Some p"] count_update [of m "ts[n := None]" "ts ! n" "Some p"] assms
    by simp
qed

lemma token_dtor_inv:
  assumes "gpio_irq_laws (gpio env) V" and "world_inv env V w"
    and "\<And>p. t = Some p \<Longrightarrow> map_of (recs w) p \<noteq> None"
  shows "\<exists>w'. token_reset env t w = Inr (None, w') \<and> world_inv env V w' \<and>
    (\<forall>q. map_of (recs w') q = (if t = Some q then None else map_of (recs w) q))"
proof (cases t)
  case (Some p)
  then show ?thesis using token_reset_inv [OF assms(1,2), of p] assms(3) by fastforce
qed (simp add: token_reset_def assms)

lemma app_step_inv:
  assumes "gpio_irq_laws (gpio env) V" and "alloc_law env" and "app_inv env V s" and "op_ok env s op"
  shows "case app_step env op s of Inl e \<Rightarrow> e = Panic \<and> (\<exists>a p. op = Create a p) | Inr s' \<Rightarrow> app_inv env V s'"
proof -
  obtain w ts where s: "s = (w, ts)" by (cases s)
  have inv: "world_inv env V w" and cnt: "\<And>p. count (mset ts) (Some p) = of_bool (map_of (recs w) p \<noteq> None)"
    using assms(3) by (auto simp: app_inv_def s)
  have node: "map_of (recs w) p \<noteq> None" if "n < length ts" "ts ! n = Some p" for n p
    using cnt [of p] that by (metis count_eq_zero_iff nth_mem of_bool_eq(1) set_mset_mset)
  have reset: "\<exists>w'. token_reset env (ts ! n) w = Inr (None, w') \<and> world_inv env V w' \<and>
    (\<forall>q. map_of (recs w') q = (if ts ! n = Some q then None else map_of (recs w) q))"
    if "n < length ts" for n
    by (rule token_dtor_inv [OF assms(1) inv node [OF that]])
  show ?thesis
  proof (cases op)
    case (Create a p)
    show ?thesis
    proof (cases "InterruptIn_ctor env a p w")
      case (Inl e)
      have "e = Panic" using Inl assms(4) s Create
        by (auto simp: InterruptIn_ctor_def bindR_eq_Inl ZPP_ASSERT_def Let_def split: if_splits prod.splits option.splits)
      then show ?thesis using Inl s Create by simp
    next
      case (Inr w')
      then show ?thesis using ctor_inv [OF assms(1) inv _ Inr] assms(4) s Create cnt by (simp add: app_inv_def)
    qed
  next
    case (Add a cb)
    show ?thesis
    proof (cases cb)
      case None
      then show ?thesis using assms(4) s Add inv cnt
        by (auto simp: add_callback_def with_in_def app_inv_def split: option.splits)
    next
      case (Some f)
      obtain i where "ins w a = Some i" "unique_id (register i) < unique_id (register i) + 1"
        using assms(4) s Add by (auto split: option.splits)
      then show ?thesis
        using add_callback_inv [OF assms(1,2) inv, of a i cb] Some s Add cnt by (fastforce simp: app_inv_def)
    qed
  next
    case (Drop n)
    have n: "n < length ts" using assms(4) s Drop by simp
    then obtain w' where w': "token_reset env (ts ! n) w = Inr (None, w')" "world_inv env V w'"
      "\<And>q. map_of (recs w') q = (if ts ! n = Some q then None else map_of (recs w) q)"
      using reset by blast
    have "count (mset (take n ts @ drop (Suc n) ts)) (Some p) = of_bool (map_of (recs w') p \<noteq> None)" for p
      unfolding tokens_drop [OF n] cnt w'(3) by auto
    then show ?thesis using w' s Drop by (simp add: token_dtor_def app_inv_def)
  next
    case (Assign m n)
    show ?thesis
    proof (cases "m = n")
      case True
      then show ?thesis using s Assign inv cnt by (simp add: token_move_assign_def app_inv_def)
    next
      case False
      have mn: "m < length ts" "n < length ts" using assms(4) s Assign by simp_all
      then obtain w' where w': "token_reset env (ts ! m) w = Inr (None, w')" "world_inv env V w'"
        "\<And>q. map_of (recs w') q = (if ts ! m = Some q then None else map_of (recs w) q)"
        using reset by blast
      have "count (mset ((ts[n := None])[m := ts ! n])) (Some p) = of_bool (map_of (recs w') p \<noteq> None)" for p
        unfolding tokens_assign [OF mn False] cnt w'(3) by auto
      then show ?thesis using w' s Assign False by (simp add: token_move_assign_def app_inv_def)
    qed
  next
    case (Destroy a)
    then obtain i where "ins w a = Some i" "registrations (register i) = []"
      using assms(4) s by (auto split: option.splits)
    then show ?thesis using dtor_inv [OF assms(1) inv, of a i] s Destroy cnt by (auto simp: app_inv_def)
  qed
qed

lemma app_reach_inv:
  assumes "gpio_irq_laws (gpio env) V" and "alloc_law env"
  shows "app_reach env V s \<Longrightarrow> app_inv env V s"
proof (induction rule: app_reach.induct)
  case (start k)
  then show ?case by (simp add: app_inv_def world_inv_def pin_inv_def)
next
  case (step s op s')
  then show ?case using app_step_inv [OF assms step.IH, of op] by simp
qed

section \<open>A board for the witnesses\<close>

text \<open>
  One button on port 7, pin 3; nodes allocated above the highest in use; callback \<open>n\<close> drives pin
  \<open>n\<close> of port 9 high.
\<close>

definition top_node :: "(addr \<times> registration_record) list \<Rightarrow> addr" where
  "top_node h = foldr max (map fst h) 0"

definition board :: "bool \<Rightarrow> (nat \<Rightarrow> (nat, rgpio) world \<Rightarrow> (nat, rgpio) world run) \<Rightarrow> (nat, rgpio) in_env" where
  "board e c = \<lparr>assert_on = True, emul = e, buttons = [1 \<mapsto> \<lparr>port = 7, pin = 3\<rparr>], gpio = ref_gpio,
     alloc = (\<lambda>h. Suc (top_node h)), call = c\<rparr>"

definition button_env :: "bool \<Rightarrow> (nat, rgpio) in_env" where
  "button_env e = board e (\<lambda>f w. Inr (w\<lparr>kern := snd (ref_set 9 f 1 (kern w))\<rparr>))"

lemma top_node_ge: "x \<in> fst ` set h \<Longrightarrow> x \<le> top_node h"
  by (induction h) (auto simp: top_node_def le_max_iff_disj)

lemma top_node_new: "map_of h (Suc (top_node h)) = None"
  using top_node_ge [of "Suc (top_node h)" h] by (auto simp: map_of_eq_None_iff)

lemma board_sel [simp]:
  "assert_on (board e c) = True" "emul (board e c) = e" "gpio (board e c) = ref_gpio" "call (board e c) = c"
  by (simp_all add: board_def)

lemma board_laws: "gpio_irq_laws (gpio (board e c)) ref_gview" "alloc_law (board e c)"
  by (simp_all add: board_def ref_gpio_irq alloc_law_def top_node_new)

lemma button_env_laws:
  "gpio_irq_laws (gpio (button_env e)) ref_gview" "alloc_law (button_env e)" "keeps_in (button_env e) a"
  by (simp_all add: button_env_def ref_gpio_irq board_laws) (auto simp: keeps_in_def)

text \<open>Dropping a token runs no callback.\<close>

lemma board_token_dtor: "token_dtor (board e c) t = token_dtor (board e c') t"
proof -
  have remove: "remove_gpio_callback (board e c) = remove_gpio_callback (board e c')"
    unfolding remove_gpio_callback_def board_sel ..
  have unregister: "unregister_callback (board e c) = unregister_callback (board e c')"
    by (intro ext) (unfold unregister_callback_def remove, rule refl)
  show ?thesis by (intro ext) (unfold token_dtor_def token_reset_def unregister, rule refl)
qed

definition idle_world :: "rgpio \<Rightarrow> (nat, rgpio) world" where
  "idle_world k = \<lparr>ins = (\<lambda>_. None), recs = [], s_value = [False], kern = k\<rparr>"

definition two_callbacks :: "bool \<Rightarrow> (nat, rgpio) world" where
  "two_callbacks e = \<lparr>
     ins = [1 \<mapsto> \<lparr>pin_name = 1, in_gpio = (if e then None else Some \<lparr>port = 7, pin = 3\<rparr>),
       cb_instance = (if e then None else Some 1),
       register = \<lparr>unique_id = 2, callbacks = [(0, Some 5), (1, Some 6)], registrations = [(0, 1), (1, 2)]\<rparr>\<rparr>],
     recs = [(2, \<lparr>rec_owner = Some 1, rec_id = 1\<rparr>), (1, \<lparr>rec_owner = Some 1, rec_id = 0\<rparr>)],
     s_value = [False], kern = (if e then gpio0 else gpio0\<lparr>rg_handlers := [(7, 1)]\<rparr>)\<rparr>"

lemma board_reached: "app_reach (board e c) ref_gview (two_callbacks e, [Some 1, Some 2])"
proof -
  let ?env = "board e c"
  have nb: "NUM_BUTTONS ?env = 1" by (simp add: NUM_BUTTONS_def board_def)
  have r0: "app_reach ?env ref_gview (idle_world gpio0, [])"
    using app_reach.start [of ref_gview gpio0 ?env]
    by (simp add: nb idle_world_def kPolarityPressed_def ref_gview_def gpio0_def)
  have ok0: "op_ok ?env (idle_world gpio0, []) (Create 1 1)"
    by (simp add: idle_world_def board_def)
  obtain s1 where s1: "app_step ?env (Create 1 1) (idle_world gpio0, []) = Inr s1"
    "op_ok ?env s1 (Add 1 (Some 5))"
    by (cases e) (auto simp: InterruptIn_ctor_def idle_world_def board_def ref_gpio_def put_in_def
        CallbackRegister_ctor_def)
  have r1: "app_reach ?env ref_gview s1" by (rule app_reach.step [OF r0 ok0 s1(1)])
  obtain s2 where s2: "app_step ?env (Add 1 (Some 5)) s1 = Inr s2" "op_ok ?env s2 (Add 1 (Some 6))"
    "app_step ?env (Add 1 (Some 6)) s2 = Inr (two_callbacks e, [Some 1, Some 2])"
    using s1
    by (cases e) (auto simp: InterruptIn_ctor_def idle_world_def board_def ref_gpio_def put_in_def two_callbacks_def
        CallbackRegister_ctor_def add_callback_def register_callback_def with_in_def has_callbacks_def top_node_def Let_def
        numeral_2_eq_2 gpio0_def)
  show ?thesis by (rule app_reach.step [OF app_reach.step [OF r1 s1(2) s2(1)] s2(2,3)])
qed

lemma two_callbacks_reached: "app_reach (button_env e) ref_gview (two_callbacks e, [Some 1, Some 2])"
  unfolding button_env_def by (rule board_reached)

section \<open>Properties\<close>

lemma pin_inv_of: "app_inv env V (w, ts) \<Longrightarrow> pin_inv env V w a"
  by (simp add: app_inv_def world_inv_def)

lemma app_pin_facts:
  assumes "app_inv env V (w, ts)" and "ins w a = Some i"
  shows "register_ok (recs w) a (register i)" "armed env V (kern w) a i" "map_wf (callbacks (register i))"
    "\<not> emul env \<Longrightarrow> callbacks (register i) \<noteq> [] \<Longrightarrow> cb_instance i = Some a"
  using pin_inv_of [OF assms(1), of a] assms(2)
  by (auto simp: pin_inv_def register_ok_def armed_def has_callbacks_def)

text \<open>
  C4: an application that drops the tokens of a pin before the pin itself never dereferences a freed
  registration: whatever sequence of creations, registrations, moves and drops it performs, the next
  step succeeds (only the constructor can fail, by an assertion). A pin's handler is on its port
  exactly while callbacks are registered, no handler outlives its pin, and once every token is gone
  no callback, node or handler is left.
\<close>

theorem token_life_cycle:
  assumes "gpio_irq_laws (gpio env) V" and "alloc_law env" and "app_reach env V (w, ts)"
  shows "(\<forall>op e. op_ok env (w, ts) op \<and> app_step env op (w, ts) = Inl e \<longrightarrow> e = Panic \<and> (\<exists>a p. op = Create a p)) \<and>
    (\<forall>a d. a \<in> handlers V (kern w) d \<longrightarrow> (\<exists>i g. ins w a = Some i \<and> in_gpio i = Some g \<and> port g = d \<and>
       callbacks (register i) \<noteq> [])) \<and>
    (\<forall>a i. ins w a = Some i \<and> \<not> emul env \<and> callbacks (register i) \<noteq> [] \<longrightarrow>
       (\<exists>g. in_gpio i = Some g \<and> a \<in> handlers V (kern w) (port g))) \<and>
    (set ts \<subseteq> {None} \<longrightarrow> recs w = [] \<and> (\<forall>a i. ins w a = Some i \<longrightarrow> callbacks (register i) = []) \<and>
       (\<forall>d. handlers V (kern w) d = {}))"
proof (intro conjI)
  have inv: "app_inv env V (w, ts)" by (rule app_reach_inv [OF assms])
  show "\<forall>op e. op_ok env (w, ts) op \<and> app_step env op (w, ts) = Inl e \<longrightarrow> e = Panic \<and> (\<exists>a p. op = Create a p)"
    using app_step_inv [OF assms(1,2) inv] by fastforce
  show owner: "\<forall>a d. a \<in> handlers V (kern w) d \<longrightarrow> (\<exists>i g. ins w a = Some i \<and> in_gpio i = Some g \<and> port g = d \<and>
       callbacks (register i) \<noteq> [])"
  proof (intro allI impI)
    fix a d assume "a \<in> handlers V (kern w) d"
    then show "\<exists>i g. ins w a = Some i \<and> in_gpio i = Some g \<and> port g = d \<and> callbacks (register i) \<noteq> []"
      using pin_inv_of [OF inv, of a]
      by (auto simp: pin_inv_def armed_def has_callbacks_def split: option.splits if_splits)
  qed
  show "\<forall>a i. ins w a = Some i \<and> \<not> emul env \<and> callbacks (register i) \<noteq> [] \<longrightarrow>
       (\<exists>g. in_gpio i = Some g \<and> a \<in> handlers V (kern w) (port g))"
    using app_pin_facts(2) [OF inv] by (fastforce simp: armed_def has_callbacks_def)
  have "recs w = []" if none: "set ts \<subseteq> {None}"
  proof (rule ccontr)
    assume "recs w \<noteq> []"
    then obtain p rec h where "recs w = (p, rec) # h" by (cases "recs w") auto
    then have "count (mset ts) (Some p) = 1" using inv by (simp add: app_inv_def)
    then have "Some p \<in> set ts" by (metis count_eq_zero_iff set_mset_mset zero_neq_one)
    then show False using none by blast
  qed
  moreover have "callbacks (register i) = []" if "recs w = []" "ins w a = Some i" for a i
  proof -
    have "registrations (register i) = []"
      using app_pin_facts(1) [OF inv that(2)] that(1) by (cases "registrations (register i)") (auto simp: register_ok_def)
    then show ?thesis using app_pin_facts(1) [OF inv that(2)] by (simp add: register_ok_def)
  qed
  ultimately show "set ts \<subseteq> {None} \<longrightarrow> recs w = [] \<and> (\<forall>a i. ins w a = Some i \<longrightarrow> callbacks (register i) = []) \<and>
       (\<forall>d. handlers V (kern w) d = {})"
    using owner by fastforce
qed

theorem token_life_cycle_witness:
  "\<exists>w'. app_step (button_env False) (Drop 0) (two_callbacks False, [Some 1, Some 2]) = Inr (w', [Some 2])"
proof (cases "app_step (button_env False) (Drop 0) (two_callbacks False, [Some 1, Some 2])")
  case (Inl e)
  then show ?thesis
    using token_life_cycle [OF button_env_laws(1,2) two_callbacks_reached [of False]]
    by (auto dest: spec [of _ "Drop 0"])
next
  case (Inr s)
  then show ?thesis by (auto simp: bindR_eq_Inr)
qed

text \<open>
  C6: in such an application a falling edge runs every callback registered on the pin exactly once,
  in the order of registration, provided no callback touches the pin's register, and the loop over
  them ends; a registration goes behind the earlier ones.
\<close>

theorem edge_runs_all_callbacks:
  assumes "gpio_irq_laws (gpio env) V" and "alloc_law env" and "app_reach env V (w, ts)"
    and "\<not> emul env" and "ins w a = Some i" and "callbacks (register i) \<noteq> []" and "keeps_in env a"
    and "length (callbacks (register i)) \<le> fuel"
  shows "callback fuel env a w = Some (run_all env (map snd (callbacks (register i))) w) \<and>
    (\<forall>cb t w'. register_callback env a cb w = Inr (t, w') \<longrightarrow>
       (\<exists>i'. ins w' a = Some i' \<and> map snd (callbacks (register i')) = map snd (callbacks (register i)) @ [cb]))"
proof -
  have inv: "app_inv env V (w, ts)" by (rule app_reach_inv [OF assms(1-3)])
  note facts = app_pin_facts [OF inv assms(5)]
  show ?thesis
    using exec_loop_run_all [OF assms(7) facts(3), of w i "[]" "callbacks (register i)" fuel] assms(4-8) facts(4)
      register_effect [OF facts(1) assms(5)]
    by (auto simp: callback_def execute_callbacks_def)
qed

theorem edge_runs_all_callbacks_witness:
  "callback 2 (button_env False) 1 (two_callbacks False) = Some (run_all (button_env False) [Some 5, Some 6] (two_callbacks False))"
  using edge_runs_all_callbacks [OF button_env_laws(1,2) two_callbacks_reached [of False], of 1 _ 2]
    button_env_laws(3) [of False 1]
  by (simp add: two_callbacks_def button_env_def board_def)

text \<open>
  C30: destroying a pin does not invalidate the tokens of its callbacks, as the comment in
  ~CallbackRegister says it does: a token that outlives its pin points to a freed record, so dropping
  it is undefined behaviour; and when the allocator has given the record's memory to a registration of
  another pin, dropping the old token removes that other callback.
\<close>

theorem token_outlives_pin:
  assumes "gpio_irq_laws (gpio env) V" and "alloc_law env" and "app_reach env V (w, ts)"
    and "0 < NUM_BUTTONS env" and "ins w a = Some i" and "map_of (registrations (register i)) k = Some p"
  shows "Some p \<in> set ts \<and> (\<exists>w'. InterruptIn_dtor env a w = Inr w' \<and> token_dtor env (Some p) w' = Inl Undef \<and>
    (\<forall>b j cb w''. ins w' b = Some j \<and> unique_id (register j) < unique_id (register j) + 1 \<and> cb \<noteq> None \<and>
       add_callback env b cb w' = Inr (Some p, w'') \<longrightarrow>
       (\<exists>w3 j'. token_dtor env (Some p) w'' = Inr w3 \<and> ins w3 b = Some j' \<and>
          map_of (callbacks (register j')) (unique_id (register j)) = None)))"
proof -
  have inv: "app_inv env V (w, ts)" by (rule app_reach_inv [OF assms(1-3)])
  then have winv: "world_inv env V w" and cnt: "count (mset ts) (Some p) = of_bool (map_of (recs w) p \<noteq> None)"
    by (simp_all add: app_inv_def)
  have mem: "(k, p) \<in> set (registrations (register i))" by (rule map_of_SomeD [OF assms(6)])
  then have reg: "map_of (recs w) p \<noteq> None"
    using app_pin_facts(1) [OF inv assms(5)] by (auto simp: register_ok_def)
  have node: "p \<in> snd ` set (registrations (register i))" using mem by (rule image_eqI [rotated]) simp
  obtain w' where w': "InterruptIn_dtor env a w = Inr w'" "world_inv env V w'" "map_of (recs w') p = None"
    using dtor_inv [OF assms(1) winv assms(5) disjI1 [OF assms(4)]] node by (metis (no_types, lifting))
  have "\<exists>w3 j'. token_dtor env (Some p) w'' = Inr w3 \<and> ins w3 b = Some j' \<and>
      map_of (callbacks (register j')) (unique_id (register j)) = None"
    if j: "ins w' b = Some j" "unique_id (register j) < unique_id (register j) + 1" "cb \<noteq> None"
      "add_callback env b cb w' = Inr (Some p, w'')" for b j cb w''
  proof -
    have w'': "world_inv env V w''"
      "map_of (recs w'') p = Some \<lparr>rec_owner = Some b, rec_id = unique_id (register j)\<rparr>"
      using add_callback_inv [OF assms(1,2) w'(2) j(1-3)] j(4) by auto
    then have pin: "pin_inv env V w'' b" by (simp add: world_inv_def)
    have "ins w'' b \<noteq> None"
    proof
      assume "ins w'' b = None"
      then have "rec_owner \<lparr>rec_owner = Some b, rec_id = unique_id (register j)\<rparr> \<noteq> Some b"
        using pin w''(2) unfolding pin_inv_def by (simp only: option.case) blast
      then show False by simp
    qed
    then obtain i'' where i'': "ins w'' b = Some i''" by blast
    then have "map_of (registrations (register i'')) (unique_id (register j)) = Some p"
      using pin w''(2) by (fastforce simp: pin_inv_def nodes_of_owner_def)
    from unregister_inv [OF assms(1) w''(1) i'' this] show ?thesis
      using w''(2) by (auto simp: token_dtor_def token_reset_def map_of_erase)
  qed
  moreover have "token_dtor env (Some p) w' = Inl Undef" using w'(3) by (simp add: token_dtor_def token_reset_def)
  moreover have "Some p \<in> set ts"
  proof -
    have "0 < count (mset ts) (Some p)" using cnt reg by simp
    then show ?thesis by (simp only: count_greater_zero_iff set_mset_mset)
  qed
  ultimately show ?thesis using w'(1) by blast
qed

theorem token_outlives_pin_witness:
  "\<exists>w'. InterruptIn_dtor (button_env False) 1 (two_callbacks False) = Inr w' \<and>
    token_dtor (button_env False) (Some 2) w' = Inl Undef"
  using token_outlives_pin [OF button_env_laws(1,2) two_callbacks_reached [of False], of 1 _ 1 2]
  by (auto simp: two_callbacks_def NUM_BUTTONS_def button_env_def board_def)

text \<open>A callback that, when it returns, has left the objects, the nodes and the installed handlers alone.\<close>

definition leaves_pins :: "('f, 'k) in_env \<Rightarrow> 'k gpio_view \<Rightarrow> 'f \<Rightarrow> bool" where
  "leaves_pins env V f \<longleftrightarrow> (\<forall>w w'. call env f w = Inr w' \<longrightarrow> ins w' = ins w \<and> recs w' = recs w \<and>
     (\<forall>d. handlers V (kern w') d = handlers V (kern w) d))"

lemma world_inv_same:
  assumes "world_inv env V w" and "ins w' = ins w" and "recs w' = recs w"
    and "\<And>d. handlers V (kern w') d = handlers V (kern w) d"
  shows "world_inv env V w'"
  using assms(1) pin_inv_frame [of env V w _ w'] assms(2-4) by (simp add: world_inv_def)

text \<open>The loop over the first callbacks of a register, when these leave the pins alone and return.\<close>

lemma exec_loop_prefix:
  assumes "map_wf m"
  shows "\<forall>(j, cb)\<in>set zs. \<forall>g. cb = Some g \<longrightarrow> leaves_pins env V g \<Longrightarrow> ins w a = Some i \<Longrightarrow> callbacks (register i) = m \<Longrightarrow>
    m = xs @ zs @ ys \<Longrightarrow> run_all env (map snd zs) w = Inr w1 \<Longrightarrow>
    ins w1 = ins w \<and> recs w1 = recs w \<and> (\<forall>d. handlers V (kern w1) d = handlers V (kern w) d) \<and>
    exec_loop (length zs + n) env a (first_key (zs @ ys)) w = exec_loop n env a (first_key ys) w1"
proof (induction zs arbitrary: w xs)
  case (Cons e zs)
  obtain k g where e: "e = (k, Some g)" "leaves_pins env V g"
    using Cons.prems(1,5) by (cases e; cases "snd e") (auto simp: run_cb_def)
  then obtain w2 where w2: "run_cb env (Some g) w = Inr w2" "run_all env (map snd zs) w2 = Inr w1"
    using Cons.prems(5) by (auto simp: bindR_eq_Inr)
  then have same: "ins w2 = ins w" "recs w2 = recs w" "\<And>d. handlers V (kern w2) d = handlers V (kern w) d"
    using e(2) by (auto simp: leaves_pins_def run_cb_def)
  have "visit env a k w = Inr (first_key (zs @ ys), w2)"
    using visit_returns [OF w2(1), of a i xs k "zs @ ys"] same(1) Cons.prems(2-4) assms e(1) by simp
  then have step: "exec_loop (length (e # zs) + n) env a (first_key ((e # zs) @ ys)) w =
      exec_loop (length zs + n) env a (first_key (zs @ ys)) w2"
    by (simp add: e(1) first_key_def)
  have "ins w1 = ins w2 \<and> recs w1 = recs w2 \<and> (\<forall>d. handlers V (kern w1) d = handlers V (kern w2) d) \<and>
      exec_loop (length zs + n) env a (first_key (zs @ ys)) w2 = exec_loop n env a (first_key ys) w1"
    by (rule Cons.IH [of w2 "xs @ [e]"]) (use Cons.prems w2(2) same(1) in auto)
  with step same show ?case by simp
qed simp

text \<open>
  C31: a callback that just drops its own token (a one-shot callback) erases the map element the loop of
  execute_callbacks stands on, so advancing to the next callback is undefined behaviour: this wherever
  the callback stands in the register, also at its end, as long as the callbacks before it return and
  leave the pins and their handlers alone.
\<close>

theorem self_dropping_callback:
  assumes "gpio_irq_laws (gpio env) V" and "alloc_law env" and "app_reach env V (w, ts)"
    and "ins w a = Some i" and "callbacks (register i) = xs @ (k, Some f) # rest"
    and "map_of (registrations (register i)) k = Some p" and "call env f = token_dtor env (Some p)"
    and "\<forall>(j, cb)\<in>set xs. \<forall>g. cb = Some g \<longrightarrow> leaves_pins env V g" and "run_all env (map snd xs) w = Inr w1"
    and "length xs < fuel"
  shows "execute_callbacks fuel env a w = Some (Inl Undef)"
proof -
  have inv: "app_inv env V (w, ts)" by (rule app_reach_inv [OF assms(1-3)])
  then have winv: "world_inv env V w" by (simp add: app_inv_def)
  have rec: "map_of (recs w) p = Some \<lparr>rec_owner = Some a, rec_id = k\<rparr>"
    using app_pin_facts(1) [OF inv assms(4)] map_of_SomeD [OF assms(6)] by (auto simp: register_ok_def)
  obtain m where m: "fuel = length xs + Suc m" using assms(10) less_iff_Suc_add by auto
  note run = exec_loop_prefix [OF app_pin_facts(3) [OF inv assms(4)] assms(8,4) refl, of "[]" "(k, Some f) # rest" w1 "Suc m"]
  then have same: "ins w1 = ins w" "recs w1 = recs w" "\<And>d. handlers V (kern w1) d = handlers V (kern w) d"
    and loop: "execute_callbacks fuel env a w = exec_loop (Suc m) env a (Some k) w1"
    using assms(4,5,9) by (simp_all add: m execute_callbacks_def first_key_def)
  have winv1: "world_inv env V w1" by (rule world_inv_same [OF winv same])
  have ins1: "ins w1 a = Some i" using same(1) assms(4) by simp
  obtain w' where w': "unregister_callback env a k w1 = Inr w'"
    "ins w' a = Some (i\<lparr>register := (register i)\<lparr>callbacks := map_erase k (callbacks (register i)),
      registrations := map_erase k (registrations (register i))\<rparr>\<rparr>)"
    using unregister_inv [OF assms(1) winv1 ins1 assms(6)] by auto
  then have "call env f w1 = Inr w'" using rec same(2) assms(7) by (simp add: token_dtor_def token_reset_def)
  moreover have "map_of (callbacks (register i)) k = Some (Some f)"
    using map_of_split [of xs k "Some f" rest] app_pin_facts(3) [OF inv assms(4)] assms(5) by simp
  ultimately have "visit env a k w1 = Inl Undef"
    using w'(2) ins1 by (simp add: visit_def with_in_def run_cb_def map_of_erase)
  then show ?thesis by (simp add: loop)
qed

theorem self_dropping_callback_witness:
  "execute_callbacks 2 (board False (\<lambda>f. if f = 6 then token_dtor (button_env False) (Some 2) else Inr)) 1 (two_callbacks False) =
    Some (Inl Undef)"
proof -
  let ?call = "\<lambda>f. if f = 6 then token_dtor (button_env False) (Some 2) else Inr" and ?w = "two_callbacks False"
  let ?env = "board False ?call"
  have drops: "call ?env 6 = token_dtor ?env (Some 2)"
    using board_token_dtor [of False "call (button_env False)" "Some 2" ?call] by (simp add: button_env_def)
  have quiet: "\<forall>(j, cb)\<in>set [(0, Some 5)]. \<forall>g. cb = Some g \<longrightarrow> leaves_pins ?env ref_gview g"
    by (simp add: leaves_pins_def)
  have runs: "run_all ?env (map snd [(0, Some 5)]) ?w = Inr ?w" by (simp add: run_cb_def)
  show ?thesis
    using self_dropping_callback [OF board_laws board_reached [of False ?call], of 1 _ "[(0, Some 5)]" 1 6 "[]" 2 ?w 2]
      drops quiet runs by (simp add: two_callbacks_def)
qed

text \<open>
  In the emulated build write stores the level and runs the pin's own callbacks, in order, exactly
  when the level changes from released to pressed; a following read gives the level back unless a
  callback writes.
\<close>

theorem emulated_edge:
  assumes "gpio_irq_laws (gpio env) V" and "alloc_law env" and "app_reach env V (w, ts)"
    and "emul env" and "ins w a = Some i" and "1 \<le> pin_name i" and "pin_name i \<le> length (s_value w)"
    and "length (s_value w) < 256" and "keeps_in env a" and "length (callbacks (register i)) \<le> fuel"
  shows "write_in fuel env a v w =
      (let w' = w\<lparr>s_value := (s_value w)[pin_name i - 1 := v]\<rparr> in
       if \<not> s_value w ! (pin_name i - 1) \<and> v then Some (run_all env (map snd (callbacks (register i))) w')
       else Some (Inr w')) \<and>
    (\<forall>w'. write_in fuel env a v w = Some (Inr w') \<and> s_value w' = (s_value w)[pin_name i - 1 := v] \<longrightarrow>
       read_in env a w' = Inr v)"
proof -
  have inv: "app_inv env V (w, ts)" by (rule app_reach_inv [OF assms(1-3)])
  note facts = app_pin_facts [OF inv assms(5)]
  let ?w' = "w\<lparr>s_value := (s_value w)[pin_name i - 1 := v]\<rparr>"
  have "1 \<le> (word_of_nat (pin_name i) :: size_t)"
    using assms(6-8) by (simp add: word_le_nat_alt unat_of_nat)
  then have idx: "unat (button_index i) = pin_name i - 1"
    using assms(6-8) by (simp add: button_index_def unat_sub unat_of_nat)
  have run: "execute_callbacks fuel env a ?w' = Some (run_all env (map snd (callbacks (register i))) ?w')"
    using exec_loop_run_all [OF assms(9) facts(3), of ?w' i "[]" "callbacks (register i)" fuel] assms(5,10)
    by (simp add: execute_callbacks_def)
  have keeps: "ins w2 a = ins w1 a" if "run_all env cbs w1 = Inr w2" for cbs w1 w2
    using that
  proof (induction cbs arbitrary: w1)
    case (Cons cb cbs)
    then show ?case using run_cb_keeps [OF assms(9)] by (fastforce simp: bindR_eq_Inr)
  qed simp
  have w: "write_in fuel env a v w =
      (if \<not> s_value w ! (pin_name i - 1) \<and> v then Some (run_all env (map snd (callbacks (register i))) ?w')
       else Some (Inr ?w'))"
    using assms(5-7) run by (auto simp: write_in_def idx Let_def kPolarityPressed_def)
  have "read_in env a w' = Inr v"
    if "write_in fuel env a v w = Some (Inr w')" "s_value w' = (s_value w)[pin_name i - 1 := v]" for w'
  proof -
    have "ins w' a = Some i" using that(1) assms(5) keeps [of _ ?w' w'] by (auto simp: w split: if_splits)
    then show ?thesis using that(2) assms(4,6,7) by (auto simp: read_in_def with_in_def idx)
  qed
  then show ?thesis by (simp add: w Let_def)
qed

theorem emulated_edge_witness:
  "write_in 2 (button_env True) 1 True (two_callbacks True) =
    Some (run_all (button_env True) [Some 5, Some 6] (two_callbacks True\<lparr>s_value := [True]\<rparr>))"
  using emulated_edge [OF button_env_laws(1,2) two_callbacks_reached [of True], of 1 _ 2 True] button_env_laws(3) [of True 1]
  by (simp add: two_callbacks_def button_env_def)

end
