(* ===== verification/Edge_Dispatch.thy ===== *)
theory Edge_Dispatch
  imports Token_Life
begin

text \<open>
  From the edge on a pin to the callbacks: the driver calls every installed instance on the pin, each
  instance runs its own callbacks.
\<close>

text \<open>
  An edge on a pin: the driver calls the installed callbacks whose mask has the pin, in the order
  \<open>hs\<close> of its list.
\<close>

fun edge ::
  "nat \<Rightarrow> ('f, 'k) in_env \<Rightarrow> addr list \<Rightarrow> ('f, 'k) world \<Rightarrow> ('f, 'k) world run option" where
  "edge fuel env [] w = Some (Inr w)"
| "edge fuel env (h # hs) w = (case callback fuel env h w of
     None \<Rightarrow> None | Some (Inl e) \<Rightarrow> Some (Inl e) | Some (Inr w') \<Rightarrow> edge fuel env hs w')"

definition callbacks_of :: "('f, 'k) world \<Rightarrow> addr \<Rightarrow> 'f option list" where
  "callbacks_of w a = (case ins w a of None \<Rightarrow> [] | Some i \<Rightarrow> map snd (callbacks (register i)))"

lemma run_all_append: "run_all env (xs @ ys) w = bindR (run_all env xs w) (run_all env ys)"
proof (induction xs arbitrary: w)
  case (Cons x xs)
  then have "run_all env (xs @ ys) = (\<lambda>w. bindR (run_all env xs w) (run_all env ys))" by blast
  then show ?case by (simp add: bindR_assoc)
qed simp

lemma run_all_keeps: "\<forall>a. keeps_in env a \<Longrightarrow> run_all env cbs w = Inr w' \<Longrightarrow> ins w' = ins w"
proof (induction cbs arbitrary: w)
  case (Cons cb cbs)
  then obtain w1 where "run_cb env cb w = Inr w1" "run_all env cbs w1 = Inr w'" by (auto simp: bindR_eq_Inr)
  moreover have "ins w1 = ins w" using Cons.prems(1) run_cb_keeps \<open>run_cb env cb w = Inr w1\<close> by blast
  ultimately show ?case using Cons by simp
qed simp

lemma edge_run_all:
  assumes "\<forall>a. keeps_in env a" and "\<not> emul env"
    and "\<forall>h\<in>set hs. \<exists>i. ins w h = Some i \<and> cb_instance i = Some h \<and> map_wf (callbacks (register i)) \<and>
      length (callbacks (register i)) \<le> fuel"
  shows "ins w1 = ins w \<Longrightarrow> edge fuel env hs w1 = Some (run_all env (concat (map (callbacks_of w) hs)) w1)"
  using assms(3)
proof (induction hs arbitrary: w1)
  case (Cons h hs)
  then obtain i where i: "ins w1 h = Some i" "cb_instance i = Some h" "map_wf (callbacks (register i))"
    "length (callbacks (register i)) \<le> fuel" by auto
  have of: "callbacks_of w h = map snd (callbacks (register i))" using i(1) Cons.prems(1) by (simp add: callbacks_of_def)
  have cb: "callback fuel env h w1 = Some (run_all env (callbacks_of w h) w1)"
    using exec_loop_run_all [OF spec [OF assms(1)] i(3), of w1 h i "[]" "callbacks (register i)" fuel] i assms(2)
    by (simp add: callback_def execute_callbacks_def of)
  show ?case
  proof (cases "run_all env (callbacks_of w h) w1")
    case (Inr w2)
    then have "ins w2 = ins w" using run_all_keeps [OF assms(1)] Cons.prems(1) by metis
    with Cons.IH Cons.prems(2) cb Inr show ?thesis by (simp add: run_all_append)
  qed (use cb in \<open>simp add: run_all_append\<close>)
qed simp

text \<open>
  C7: an edge on a pin reaches every instance of InterruptIn on that pin, whichever order the driver
  calls them in: exactly the instances that have callbacks are installed and, provided that no callback
  touches the register of any instance (a callback that drops its own token stops the loop, C31), all
  their callbacks run, each once, those of one instance in the order of registration.
\<close>

theorem edge_reaches_every_instance:
  assumes "gpio_irq_laws (gpio env) V" and "alloc_law env" and "app_reach env V (w, ts)"
    and "\<not> emul env" and "\<forall>a. keeps_in env a"
    and "distinct hs" and "set hs = {a \<in> handlers V (kern w) d. \<exists>i. ins w a = Some i \<and> in_gpio i = Some \<lparr>port = d, pin = p\<rparr>}"
    and "\<forall>h\<in>set hs. length (callbacks_of w h) \<le> fuel"
  shows "edge fuel env hs w = Some (run_all env (concat (map (callbacks_of w) hs)) w) \<and>
    set hs = {a. \<exists>i. ins w a = Some i \<and> in_gpio i = Some \<lparr>port = d, pin = p\<rparr> \<and> callbacks_of w a \<noteq> []}"
proof -
  have inv: "app_inv env V (w, ts)" by (rule app_reach_inv [OF assms(1-3)])
  have armed: "a \<in> handlers V (kern w) d \<longleftrightarrow> callbacks (register i) \<noteq> []"
    if "ins w a = Some i" "in_gpio i = Some \<lparr>port = d, pin = p\<rparr>" for a i
    using app_pin_facts(2) [OF inv that(1)] that(2) assms(4) by (auto simp: armed_def has_callbacks_def)
  have facts: "\<exists>i. ins w h = Some i \<and> cb_instance i = Some h \<and> map_wf (callbacks (register i)) \<and>
      length (callbacks (register i)) \<le> fuel" if h: "h \<in> set hs" for h
  proof -
    obtain i where i: "ins w h = Some i" "in_gpio i = Some \<lparr>port = d, pin = p\<rparr>" "h \<in> handlers V (kern w) d"
      using h unfolding assms(7) by blast
    then have "callbacks (register i) \<noteq> []" using armed by simp
    with app_pin_facts(3,4) [OF inv i(1)] i(1) assms(4) h assms(8) show ?thesis by (auto simp: callbacks_of_def)
  qed
  then have "edge fuel env hs w = Some (run_all env (concat (map (callbacks_of w) hs)) w)"
    using edge_run_all [OF assms(5,4)] by blast
  moreover have "set hs = {a. \<exists>i. ins w a = Some i \<and> in_gpio i = Some \<lparr>port = d, pin = p\<rparr> \<and> callbacks_of w a \<noteq> []}"
    using armed by (auto simp: assms(7) callbacks_of_def)
  ultimately show ?thesis ..
qed

theorem edge_reaches_every_instance_witness:
  "edge 2 (button_env False) [1] (two_callbacks False) = Some (run_all (button_env False) [Some 5, Some 6] (two_callbacks False))"
proof -
  let ?w = "two_callbacks False"
  have "\<not> emul (button_env False)" "set [1] = {a \<in> handlers ref_gview (kern ?w) 7. \<exists>i. ins ?w a = Some i \<and>
      in_gpio i = Some \<lparr>port = 7, pin = 3\<rparr>}" "\<forall>h\<in>set [1]. length (callbacks_of ?w h) \<le> 2"
    by (auto simp: two_callbacks_def button_env_def callbacks_of_def ref_gview_def gpio0_def)
  moreover have "callbacks_of ?w 1 = [Some 5, Some 6]" by (simp add: callbacks_of_def two_callbacks_def)
  ultimately show ?thesis
    using edge_reaches_every_instance [OF button_env_laws(1,2) two_callbacks_reached [of False], of "[1]" 7 3 2]
      button_env_laws(3) [of False] by simp
qed

end
