(* ===== verification/Pin_Spec.thy ===== *)
theory Pin_Spec
  imports Edge_Dispatch
begin

text \<open>
  What pins and tokens promise, without heap nodes, records and handlers: a pin is a list of
  listeners, a token names one listener of one pin. \<open>pins_abs\<close> forgets the rest of the state, and every
  step of an application is the step of the specification. The tests of src/zpp_drivers/tests/interrupt_in
  are run on the specification.
\<close>

section \<open>The specification\<close>

record 'f listeners =
  lst :: "addr \<Rightarrow> (nat \<times> size_t \<times> (size_t \<times> 'f option) list) option"
  held :: "(addr \<times> size_t) option list"

fun unlisten :: "(addr \<times> size_t) option \<Rightarrow> 'f listeners \<Rightarrow> 'f listeners" where
  "unlisten None s = s"
| "unlisten (Some (a, k)) s =
     s\<lparr>lst := (lst s)(a := (case lst s a of None \<Rightarrow> None | Some (p, n, cs) \<Rightarrow> Some (p, n, map_erase k cs)))\<rparr>"

fun listen_step :: "'f app_op \<Rightarrow> 'f listeners \<Rightarrow> 'f listeners" where
  "listen_step (Create a p) s = s\<lparr>lst := (lst s)(a \<mapsto> (p, 0, []))\<rparr>"
| "listen_step (Add a None) s = s\<lparr>held := held s @ [None]\<rparr>"
| "listen_step (Add a (Some f)) s = (case lst s a of None \<Rightarrow> s
     | Some (p, n, cs) \<Rightarrow> s\<lparr>lst := (lst s)(a \<mapsto> (p, n + 1, cs @ [(n, Some f)])), held := held s @ [Some (a, n)]\<rparr>)"
| "listen_step (Drop n) s = (unlisten (held s ! n) s)\<lparr>held := take n (held s) @ drop (Suc n) (held s)\<rparr>"
| "listen_step (Assign m n) s = (if m = n then s
     else (unlisten (held s ! m) s)\<lparr>held := ((held s)[n := None])[m := held s ! n]\<rparr>)"
| "listen_step (Destroy a) s = s\<lparr>lst := (lst s)(a := None)\<rparr>"

fun listen_ok :: "('f, 'k) in_env \<Rightarrow> 'f app_op \<Rightarrow> 'f listeners \<Rightarrow> bool" where
  "listen_ok env (Create a p) s \<longleftrightarrow> lst s a = None \<and> (\<not> emul env \<longrightarrow> p \<in> {1, 2, 3, 4} \<and> buttons env p \<noteq> None)"
| "listen_ok env (Add a cb) s \<longleftrightarrow> (case lst s a of None \<Rightarrow> False | Some (p, n, cs) \<Rightarrow> n < n + 1)"
| "listen_ok env (Drop n) s \<longleftrightarrow> n < length (held s)"
| "listen_ok env (Assign m n) s \<longleftrightarrow> m < length (held s) \<and> n < length (held s)"
| "listen_ok env (Destroy a) s \<longleftrightarrow> (case lst s a of None \<Rightarrow> False | Some (p, n, cs) \<Rightarrow> cs = [])"

fun listen_steps :: "'f app_op list \<Rightarrow> 'f listeners \<Rightarrow> 'f listeners" where
  "listen_steps [] s = s"
| "listen_steps (op # ops) s = listen_steps ops (listen_step op s)"

fun listens_ok :: "('f, 'k) in_env \<Rightarrow> 'f app_op list \<Rightarrow> 'f listeners \<Rightarrow> bool" where
  "listens_ok env [] s = True"
| "listens_ok env (op # ops) s \<longleftrightarrow> listen_ok env op s \<and> listens_ok env ops (listen_step op s)"

fun app_steps :: "('f, 'k) in_env \<Rightarrow> 'f app_op list \<Rightarrow> ('f, 'k) app \<Rightarrow> ('f, 'k) app run" where
  "app_steps env [] s = Inr s"
| "app_steps env (op # ops) s = bindR (app_step env op s) (app_steps env ops)"

section \<open>The abstraction\<close>

definition token_abs :: "('f, 'k) world \<Rightarrow> registration_token \<Rightarrow> (addr \<times> size_t) option" where
  "token_abs w t = (case t of None \<Rightarrow> None
     | Some p \<Rightarrow> map_option (\<lambda>r. (the (rec_owner r), rec_id r)) (map_of (recs w) p))"

definition lst_abs :: "('f, 'k) world \<Rightarrow> addr \<Rightarrow> (nat \<times> size_t \<times> (size_t \<times> 'f option) list) option" where
  "lst_abs w a = map_option (\<lambda>i. (pin_name i, unique_id (register i), callbacks (register i))) (ins w a)"

definition pins_abs :: "('f, 'k) app \<Rightarrow> 'f listeners" where
  "pins_abs s = \<lparr>lst = lst_abs (fst s), held = map (token_abs (fst s)) (snd s)\<rparr>"

lemma held_pins: "held (pins_abs (w, ts)) = map (token_abs w) ts"
  by (simp add: pins_abs_def)

lemma token_abs_None [simp]: "token_abs w None = None"
  by (simp add: token_abs_def)

lemma token_abs_cong: "map_of (recs w') = map_of (recs w) \<Longrightarrow> token_abs w' = token_abs w"
  unfolding token_abs_def by (rule ext) (simp only:)

lemma op_ok_abs:
  assumes "app_inv env V s"
  shows "op_ok env s op \<longleftrightarrow> listen_ok env op (pins_abs s)"
proof -
  obtain w ts where s: "s = (w, ts)" by (cases s)
  have "registrations (register i) = [] \<longleftrightarrow> callbacks (register i) = []" if "ins w a = Some i" for a i
  proof -
    have "map fst (registrations (register i)) = map fst (callbacks (register i))"
      using app_pin_facts(1) [OF assms [unfolded s] that] by (simp add: register_ok_def)
    then show ?thesis by (metis map_is_Nil_conv)
  qed
  then show ?thesis
    by (cases op) (auto simp: s pins_abs_def lst_abs_def split: option.splits)
qed

text \<open>Adding a callback is a registration, with the handler installed before the first one.\<close>

lemma add_callback_register:
  assumes "gpio_irq_laws (gpio env) V" and "world_inv env V w" and "ins w a = Some i" and "cb \<noteq> None"
  shows "\<exists>w1 i1. add_callback env a cb w = register_callback env a cb w1 \<and> ins w1 = (ins w)(a \<mapsto> i1) \<and>
    register i1 = register i \<and> pin_name i1 = pin_name i \<and> in_gpio i1 = in_gpio i \<and> recs w1 = recs w"
proof (cases "emul env \<or> has_callbacks (register i)")
  case True
  then have "add_callback env a cb w = register_callback env a cb w"
    using assms(3,4) by (auto simp: add_callback_def with_in_def)
  then show ?thesis using assms(3) by (metis fun_upd_triv)
next
  case False
  have "pin_inv env V w a" using assms(2) by (simp add: world_inv_def)
  then obtain g where g: "in_gpio i = Some g" using False assms(3) by (auto simp: pin_inv_def armed_def)
  let ?k2 = "snd (gpio_add_callback (gpio env) (port g) a (gpio_init_callback (gpio env) a (pin g) (kern w)))"
  let ?w1 = "put_in a (i\<lparr>cb_instance := Some a\<rparr>) (w\<lparr>kern := ?k2\<rparr>)"
  have "add_callback env a cb w = register_callback env a cb ?w1"
    using False g assms(3,4) by (auto simp: add_callback_def with_in_def)
  then show ?thesis by (intro exI [of _ ?w1] exI [of _ "i\<lparr>cb_instance := Some a\<rparr>"]) simp
qed

text \<open>Dropping or overwriting a token.\<close>

lemma token_reset_abs:
  assumes "gpio_irq_laws (gpio env) V" and inv: "app_inv env V (w, ts)" and "t \<in> set ts"
  shows "\<exists>w'. token_reset env t w = Inr (None, w') \<and> lst_abs w' = lst (unlisten (token_abs w t) (pins_abs (w, ts))) \<and>
    (\<forall>u. u \<noteq> t \<or> u = None \<longrightarrow> token_abs w' u = token_abs w u)"
proof (cases t)
  case None
  then show ?thesis by (simp add: token_reset_def pins_abs_def)
next
  case (Some p)
  have winv: "world_inv env V w" using inv by (simp add: app_inv_def)
  have c: "count (mset ts) (Some p) = of_bool (map_of (recs w) p \<noteq> None)" using inv by (simp add: app_inv_def)
  have "0 < count (mset ts) (Some p)" using assms(3) Some by (simp only: count_greater_zero_iff set_mset_mset)
  then have "map_of (recs w) p \<noteq> None" unfolding c by simp
  then obtain rec where rec: "map_of (recs w) p = Some rec" by auto
  with winv obtain a where a: "rec_owner rec = Some a" by (fastforce simp: world_inv_def)
  have pin: "pin_inv env V w a" by (rule pin_inv_of [OF inv])
  then obtain i where i: "ins w a = Some i" using rec a by (cases "ins w a") (auto simp: pin_inv_def)
  then have "map_of (registrations (register i)) (rec_id rec) = Some p"
    using pin rec a by (auto simp: pin_inv_def nodes_of_owner_def)
  then obtain w' where w': "unregister_callback env a (rec_id rec) w = Inr w'"
    "map_of (recs w') = (map_of (recs w))(p := None)"
    "ins w' = (ins w)(a \<mapsto> i\<lparr>register := (register i)\<lparr>callbacks := map_erase (rec_id rec) (callbacks (register i)),
      registrations := map_erase (rec_id rec) (registrations (register i))\<rparr>\<rparr>)"
    using unregister_inv [OF assms(1) winv i] by blast
  have "lst_abs w' = lst (unlisten (token_abs w t) (pins_abs (w, ts)))"
    using rec a i w'(3) Some by (simp add: fun_eq_iff lst_abs_def token_abs_def pins_abs_def)
  moreover have "token_abs w' u = token_abs w u" if "u \<noteq> t \<or> u = None" for u
    using that Some w'(2) by (cases u) (auto simp: token_abs_def)
  ultimately show ?thesis using w'(1) rec a Some by (simp add: token_reset_def)
qed

lemma held_abs:
  "(\<And>u. u \<in> set us \<Longrightarrow> token_abs w' u = token_abs w u) \<Longrightarrow> map (token_abs w') us = map (token_abs w) us"
  by simp

lemma unlisten_held [simp]: "held (unlisten x s) = held s"
  by (induction x s rule: unlisten.induct) simp_all

lemma unlisten_cong: "lst s = lst s' \<Longrightarrow> lst (unlisten x s) = lst (unlisten x s')"
  by (cases x) (auto simp: fun_eq_iff)

lemma listeners_eqI: "lst s = f \<Longrightarrow> held s = g \<Longrightarrow> s = \<lparr>lst = f, held = g\<rparr>"
  by (cases s) simp

text \<open>A step of the application is the step of the specification.\<close>

lemma app_step_abs:
  assumes laws: "gpio_irq_laws (gpio env) V" "alloc_law env" and inv: "app_inv env V s"
    and ok: "op_ok env s op" and step: "app_step env op s = Inr s'"
  shows "pins_abs s' = listen_step op (pins_abs s)"
proof -
  obtain w ts where s: "s = (w, ts)" by (cases s)
  note inv' = inv [unfolded s]
  have winv: "world_inv env V w" and cnt: "\<And>p. count (mset ts) (Some p) = of_bool (map_of (recs w) p \<noteq> None)"
    using inv' by (simp_all add: app_inv_def)
  show ?thesis
  proof (cases op)
    case (Create a p)
    then obtain w' where w': "InterruptIn_ctor env a p w = Inr w'" "s' = (w', ts)"
      using step s by (auto simp: bindR_eq_Inr)
    obtain g where g: "ins w' = (ins w)(a \<mapsto> \<lparr>pin_name = p, in_gpio = g, cb_instance = None,
        register = CallbackRegister_ctor\<rparr>)" "recs w' = recs w"
      using ctor_frame [OF laws(1) w'(1)] by blast
    have "lst_abs w' = (lst_abs w)(a \<mapsto> (p, 0, []))" by (simp add: fun_eq_iff lst_abs_def g(1) CallbackRegister_ctor_def)
    moreover have "token_abs w' = token_abs w" by (rule token_abs_cong) (simp only: g(2))
    ultimately show ?thesis using w'(2) Create s by (simp add: pins_abs_def)
  next
    case (Add a cb)
    obtain i where i: "ins w a = Some i" "unique_id (register i) < unique_id (register i) + 1"
      using ok s Add by (auto split: option.splits)
    show ?thesis
    proof (cases cb)
      case None
      with step s Add i show ?thesis by (auto simp: pins_abs_def add_callback_def with_in_def)
    next
      case (Some f)
      obtain w1 i1 where w1: "add_callback env a cb w = register_callback env a cb w1" "ins w1 = (ins w)(a \<mapsto> i1)"
        "register i1 = register i" "pin_name i1 = pin_name i" "recs w1 = recs w"
        using add_callback_register [OF laws(1) winv i(1), of cb] Some by blast
      have reg: "register_ok (recs w1) a (register i1)" using app_pin_facts(1) [OF inv' i(1)] w1(3,5) by simp
      have "ins w1 a = Some i1" using w1(2) by simp
      note eff = register_effect [OF reg this, of env cb]
      let ?p = "alloc env (recs w)"
      have new: "map_of (recs w) ?p = None" using laws(2) by (simp add: alloc_law_def)
      obtain w' where w': "s' = (w', ts @ [Some ?p])" "lst_abs w' = (lst_abs w)(a \<mapsto>
          (pin_name i, unique_id (register i) + 1, callbacks (register i) @ [(unique_id (register i), cb)]))"
        "map_of (recs w') = (map_of (recs w))(?p \<mapsto> \<lparr>rec_owner = Some a, rec_id = unique_id (register i)\<rparr>)"
        using step s Add w1 eff by (auto simp: lst_abs_def fun_eq_iff)
      have "token_abs w' u = token_abs w u" if "u \<in> set ts" for u
      proof (cases u)
        case u: (Some q)
        have "0 < count (mset ts) (Some q)" using that u by (simp only: count_greater_zero_iff set_mset_mset)
        then have "map_of (recs w) q \<noteq> None" unfolding cnt by simp
        then show ?thesis using u w'(3) new by (auto simp: token_abs_def)
      qed simp
      moreover have "token_abs w' (Some ?p) = Some (a, unique_id (register i))" by (simp add: token_abs_def w'(3))
      ultimately show ?thesis using w'(1,2) s Add Some i(1)
        by (simp add: pins_abs_def lst_abs_def cong: map_cong)
    qed
  next
    case (Drop n)
    have n: "n < length ts" using ok s Drop by simp
    obtain w' where w': "token_reset env (ts ! n) w = Inr (None, w')"
      "lst_abs w' = lst (unlisten (token_abs w (ts ! n)) (pins_abs (w, ts)))"
      "\<forall>u. u \<noteq> ts ! n \<or> u = None \<longrightarrow> token_abs w' u = token_abs w u"
      using token_reset_abs [OF laws(1) inv' nth_mem [OF n]] by blast
    let ?us = "take n ts @ drop (Suc n) ts"
    have s': "s' = (w', ?us)" using step s Drop w'(1) by (simp add: token_dtor_def)
    have "u \<noteq> ts ! n \<or> u = None" if "u \<in> set ?us" for u
    proof (cases u)
      case (Some q)
      have "0 < count (mset ?us) (Some q)" using that Some by (simp only: count_greater_zero_iff set_mset_mset)
      then show ?thesis unfolding tokens_drop [OF n] cnt using Some by (auto split: if_splits)
    qed simp
    then have "map (token_abs w') ?us = map (token_abs w) ?us" using w'(3) by (intro held_abs) blast
    moreover have "listen_step (Drop n) (pins_abs (w, ts)) = \<lparr>lst = lst_abs w', held = map (token_abs w) ?us\<rparr>"
      using n by (intro listeners_eqI) (simp_all add: held_pins w'(2) take_map drop_map)
    ultimately show ?thesis unfolding s s' Drop by (simp only: pins_abs_def fst_conv snd_conv)
  next
    case (Assign m n)
    have mn: "m < length ts" "n < length ts" using ok s Assign by simp_all
    show ?thesis
    proof (cases "m = n")
      case True
      then show ?thesis using step s Assign by (auto simp: token_move_assign_def pins_abs_def)
    next
      case False
      obtain w' where w': "token_reset env (ts ! m) w = Inr (None, w')"
        "lst_abs w' = lst (unlisten (token_abs w (ts ! m)) (pins_abs (w, ts)))"
        "\<forall>u. u \<noteq> ts ! m \<or> u = None \<longrightarrow> token_abs w' u = token_abs w u"
        using token_reset_abs [OF laws(1) inv' nth_mem [OF mn(1)]] by blast
      let ?us = "(ts[n := None])[m := ts ! n]"
      have s': "s' = (w', ?us)" using step s Assign False w'(1) by (simp add: token_move_assign_def)
      have "u \<noteq> ts ! m \<or> u = None" if "u \<in> set ?us" for u
      proof (cases u)
        case (Some q)
        have "0 < count (mset ?us) (Some q)" using that Some by (simp only: count_greater_zero_iff set_mset_mset)
        then show ?thesis unfolding tokens_assign [OF mn False] cnt using Some by (auto split: if_splits)
      qed simp
      then have "map (token_abs w') ?us = map (token_abs w) ?us" using w'(3) by (intro held_abs) blast
      moreover have "listen_step (Assign m n) (pins_abs (w, ts)) = \<lparr>lst = lst_abs w', held = map (token_abs w) ?us\<rparr>"
        using mn False by (intro listeners_eqI) (simp_all add: held_pins w'(2) map_update)
      ultimately show ?thesis unfolding s s' Assign by (simp only: pins_abs_def fst_conv snd_conv)
    qed
  next
    case (Destroy a)
    obtain i where i: "ins w a = Some i" "registrations (register i) = []"
      using ok s Destroy by (auto split: option.splits)
    obtain w' where w': "InterruptIn_dtor env a w = Inr w'" "ins w' = (ins w)(a := None)"
      "\<forall>p. map_of (recs w') p = map_of (recs w) p"
      using dtor_inv [OF laws(1) winv i(1)] i(2) by auto
    then have "s' = (w', ts)" using step s Destroy by simp
    moreover have "token_abs w' = token_abs w" using w'(3) by (intro token_abs_cong) (simp add: fun_eq_iff)
    moreover have "lst_abs w' = (lst_abs w)(a := None)" by (simp add: fun_eq_iff lst_abs_def w'(2))
    ultimately show ?thesis using s Destroy by (simp add: pins_abs_def)
  qed
qed

section \<open>Runs of an application\<close>

text \<open>A board on which the constructor succeeds.\<close>

definition pins_ready :: "('f, 'k) in_env \<Rightarrow> bool" where
  "pins_ready env \<longleftrightarrow> (\<forall>p g k. buttons env p = Some g \<longrightarrow> gpio_is_ready_dt (gpio env) g k \<and>
     fst (gpio_pin_configure_dt (gpio env) g [GPIO_INPUT] k) = 0 \<and>
     fst (gpio_pin_interrupt_configure_dt (gpio env) g GPIO_INT_EDGE_FALLING k) = 0)"

lemma ctor_ready:
  assumes "pins_ready env" and "\<not> emul env \<longrightarrow> p \<in> {1, 2, 3, 4} \<and> buttons env p \<noteq> None"
  shows "\<exists>w'. InterruptIn_ctor env a p w = Inr w'"
proof (cases "emul env")
  case False
  then obtain g where g: "buttons env p = Some g" "p \<in> {1, 2, 3, 4}" using assms(2) by auto
  then have "(if p \<in> {1, 2, 3, 4} then buttons env p else None) = Some g" by simp
  with assms(1) False g(1) show ?thesis
    by (simp add: InterruptIn_ctor_def Let_def pins_ready_def split: prod.splits) (metis fst_conv less_irrefl)
qed (simp add: InterruptIn_ctor_def)

lemma app_steps_abs:
  assumes "gpio_irq_laws (gpio env) V" and "alloc_law env"
  shows "app_reach env V s \<Longrightarrow> listens_ok env ops (pins_abs s) \<Longrightarrow>
    (case app_steps env ops s of Inl e \<Rightarrow> e = Panic \<and> \<not> pins_ready env
     | Inr s' \<Rightarrow> app_reach env V s' \<and> pins_abs s' = listen_steps ops (pins_abs s))"
proof (induction ops arbitrary: s)
  case (Cons op ops)
  have inv: "app_inv env V s" by (rule app_reach_inv [OF assms Cons.prems(1)])
  have ok: "op_ok env s op" using Cons.prems(2) op_ok_abs [OF inv] by simp
  show ?case
  proof (cases "app_step env op s")
    case (Inl e)
    then obtain a p where op: "e = Panic" "op = Create a p" using app_step_inv [OF assms inv ok] by auto
    with ok have "\<not> emul env \<longrightarrow> p \<in> {1, 2, 3, 4} \<and> buttons env p \<noteq> None" by (cases s) simp
    then have "\<not> pins_ready env" using Inl op ctor_ready [of env p a "fst s"] by (cases s) auto
    with Inl op(1) show ?thesis by simp
  next
    case (Inr s1)
    have "app_reach env V s1" by (rule app_reach.step [OF Cons.prems(1) ok Inr])
    moreover have "pins_abs s1 = listen_step op (pins_abs s)" by (rule app_step_abs [OF assms inv ok Inr])
    ultimately show ?thesis using Cons.IH [of s1] Cons.prems(2) Inr by (auto split: sum.splits)
  qed
qed simp

text \<open>Without emulation a pin keeps the specification of the button it was created for.\<close>

definition pin_gpio :: "('f, 'k) in_env \<Rightarrow> ('f, 'k) world \<Rightarrow> bool" where
  "pin_gpio env w \<longleftrightarrow> (\<forall>a i. ins w a = Some i \<longrightarrow> in_gpio i = buttons env (pin_name i))"

lemma ctor_gpio:
  assumes "\<not> emul env" and "InterruptIn_ctor env a p w = Inr w'"
  shows "\<exists>i. ins w' = (ins w)(a \<mapsto> i) \<and> in_gpio i = buttons env (pin_name i)"
proof -
  obtain g where g: "(if p \<in> {1, 2, 3, 4} then buttons env p else None) = Some g"
    using assms by (cases "if p \<in> {1, 2, 3, 4} then buttons env p else None")
      (auto simp: InterruptIn_ctor_def bindR_eq_Inr)
  then have "buttons env p = Some g" by (simp split: if_splits)
  then show ?thesis
    using assms unfolding InterruptIn_ctor_def Let_def g
    by (intro exI [of _ "\<lparr>pin_name = p, in_gpio = Some g, cb_instance = None, register = CallbackRegister_ctor\<rparr>"])
      (auto simp: bindR_eq_Inr split: if_splits prod.splits)
qed

lemma token_reset_gpio:
  assumes "gpio_irq_laws (gpio env) V" and inv: "app_inv env V (w, ts)" and "t \<in> set ts" and "pin_gpio env w"
    and "token_reset env t w = Inr (None, w')"
  shows "pin_gpio env w'"
proof (cases t)
  case None
  with assms show ?thesis by (simp add: token_reset_def)
next
  case (Some p)
  have winv: "world_inv env V w" using inv by (simp add: app_inv_def)
  obtain rec a where rec: "map_of (recs w) p = Some rec" "rec_owner rec = Some a"
    "unregister_callback env a (rec_id rec) w = Inr w'"
  proof -
    obtain rec where r: "map_of (recs w) p = Some rec"
      using assms(5) Some by (auto simp: token_reset_def split: option.splits)
    moreover from r winv obtain a where "rec_owner rec = Some a" by (fastforce simp: world_inv_def)
    ultimately show ?thesis using that assms(5) Some by (auto simp: token_reset_def bindR_eq_Inr)
  qed
  have pin: "pin_inv env V w a" by (rule pin_inv_of [OF inv])
  then obtain i where i: "ins w a = Some i" using rec by (cases "ins w a") (auto simp: pin_inv_def)
  then have "map_of (registrations (register i)) (rec_id rec) = Some p"
    using pin rec by (auto simp: pin_inv_def nodes_of_owner_def)
  from unregister_inv [OF assms(1) winv i this] rec(3) assms(4) i show ?thesis
    by (auto simp: pin_gpio_def)
qed

lemma app_reach_gpio:
  assumes "gpio_irq_laws (gpio env) V" and "alloc_law env" and "\<not> emul env"
  shows "app_reach env V s \<Longrightarrow> pin_gpio env (fst s)"
proof (induction rule: app_reach.induct)
  case (step s op s')
  obtain w ts where s: "s = (w, ts)" by (cases s)
  have inv: "app_inv env V (w, ts)" using app_reach_inv [OF assms(1,2) step.hyps(1)] s by simp
  then have winv: "world_inv env V w" by (simp add: app_inv_def)
  have gpio: "pin_gpio env w" using step.IH s by simp
  show ?case
  proof (cases op)
    case (Create a p)
    then obtain w' where "InterruptIn_ctor env a p w = Inr w'" "s' = (w', ts)"
      using step.hyps(3) s by (auto simp: bindR_eq_Inr)
    with ctor_gpio [OF assms(3)] gpio show ?thesis by (fastforce simp: pin_gpio_def)
  next
    case (Add a cb)
    then obtain t w' where w': "add_callback env a cb w = Inr (t, w')" "s' = (w', ts @ [t])"
      using step.hyps(3) s by (auto simp: bindR_eq_Inr)
    obtain i where i: "ins w a = Some i" using w'(1) by (cases "ins w a") (auto simp: add_callback_def with_in_def)
    show ?thesis
    proof (cases cb)
      case None
      with w' i gpio show ?thesis by (auto simp: add_callback_def with_in_def)
    next
      case (Some f)
      obtain w1 i1 where w1: "add_callback env a cb w = register_callback env a cb w1" "ins w1 = (ins w)(a \<mapsto> i1)"
        "register i1 = register i" "pin_name i1 = pin_name i" "in_gpio i1 = in_gpio i" "recs w1 = recs w"
        using add_callback_register [OF assms(1) winv i, of cb] Some by blast
      have reg: "register_ok (recs w1) a (register i1)" using app_pin_facts(1) [OF inv i] w1(3,6) by simp
      have "ins w1 a = Some i1" using w1(2) by simp
      from register_effect [OF reg this, of env cb] w1(1,2,4,5) w' gpio i show ?thesis
        by (auto simp: pin_gpio_def)
    qed
  next
    case (Drop n)
    with step.hyps(2,3) s token_reset_gpio [OF assms(1) inv _ gpio, of "ts ! n"] token_reset_abs [OF assms(1) inv, of "ts ! n"]
    show ?thesis by (fastforce simp: token_dtor_def bindR_eq_Inr)
  next
    case (Assign m n)
    with step.hyps(2,3) s gpio token_reset_gpio [OF assms(1) inv _ gpio, of "ts ! m"] token_reset_abs [OF assms(1) inv, of "ts ! m"]
    show ?thesis by (fastforce simp: token_move_assign_def bindR_eq_Inr split: if_splits)
  next
    case (Destroy a)
    with step.hyps(2) s obtain i where i: "ins w a = Some i" "registrations (register i) = []"
      by (auto split: option.splits)
    from dtor_inv [OF assms(1) winv i(1)] i(2) obtain w' where "InterruptIn_dtor env a w = Inr w'" "ins w' = (ins w)(a := None)"
      by blast
    with step.hyps(3) s Destroy gpio show ?thesis by (auto simp: pin_gpio_def split: if_splits)
  qed
qed (simp add: pin_gpio_def)

text \<open>What the specification's state says of the program's.\<close>

lemma pins_abs_facts:
  assumes laws: "gpio_irq_laws (gpio env) V" "alloc_law env" and reach: "app_reach env V (w, ts)"
    and abs: "pins_abs (w, ts) = s'"
  shows "callbacks_of w a = (case lst s' a of None \<Rightarrow> [] | Some (p, n, cs) \<Rightarrow> map snd cs)"
    and "length ts = length (held s')"
    and "\<not> emul env \<Longrightarrow> handlers V (kern w) d =
      {a. \<exists>p n cs g. lst s' a = Some (p, n, cs) \<and> cs \<noteq> [] \<and> buttons env p = Some g \<and> port g = d}"
proof -
  have inv: "app_inv env V (w, ts)" by (rule app_reach_inv [OF laws reach])
  have lst: "lst s' a = map_option (\<lambda>i. (pin_name i, unique_id (register i), callbacks (register i))) (ins w a)" for a
    by (simp add: abs [symmetric] pins_abs_def lst_abs_def)
  show "callbacks_of w a = (case lst s' a of None \<Rightarrow> [] | Some (p, n, cs) \<Rightarrow> map snd cs)"
    by (simp add: callbacks_of_def lst split: option.splits)
  show "length ts = length (held s')" by (simp add: abs [symmetric] held_pins)
  assume "\<not> emul env"
  have gpio: "in_gpio i = buttons env (pin_name i)" if "ins w a = Some i" for a i
    using app_reach_gpio [OF laws \<open>\<not> emul env\<close> reach] that by (simp add: pin_gpio_def)
  have "a \<in> handlers V (kern w) d \<longleftrightarrow>
      (\<exists>p n cs g. lst s' a = Some (p, n, cs) \<and> cs \<noteq> [] \<and> buttons env p = Some g \<and> port g = d)" for a
  proof (cases "ins w a")
    case None
    then have "a \<notin> handlers V (kern w) d" using pin_inv_of [OF inv, of a] by (simp add: pin_inv_def)
    with None lst show ?thesis by simp
  next
    case (Some i)
    obtain g where g: "in_gpio i = Some g" "a \<in> handlers V (kern w) d \<longleftrightarrow> d = port g \<and> callbacks (register i) \<noteq> []"
      using app_pin_facts(2) [OF inv Some] \<open>\<not> emul env\<close> by (auto simp: armed_def has_callbacks_def)
    have "buttons env (pin_name i) = Some g" using gpio [OF Some] g(1) by simp
    moreover have "lst s' a = Some (pin_name i, unique_id (register i), callbacks (register i))"
      using lst [of a] Some by simp
    ultimately show ?thesis unfolding g(2) by auto
  qed
  then show "handlers V (kern w) d =
      {a. \<exists>p n cs g. lst s' a = Some (p, n, cs) \<and> cs \<noteq> [] \<and> buttons env p = Some g \<and> port g = d}" by blast
qed

section \<open>Properties\<close>

text \<open>
  C5: pins and tokens are lists of listeners. Whatever an application does with them within the
  rules of the specification, no step faults, except in the constructor when the board's pins are not
  ready; the listeners of each pin afterwards are those the specification gives, in its order; and the
  handlers installed on a port are exactly those of the pins that have listeners.
\<close>

theorem pins_refine_listeners:
  assumes "gpio_irq_laws (gpio env) V" and "alloc_law env" and "app_reach env V s"
    and "listens_ok env ops (pins_abs s)" and "s' = listen_steps ops (pins_abs s)"
  shows "case app_steps env ops s of
      Inl e \<Rightarrow> e = Panic \<and> \<not> pins_ready env
    | Inr (w, ts) \<Rightarrow> length ts = length (held s') \<and>
        (\<forall>a. callbacks_of w a = (case lst s' a of None \<Rightarrow> [] | Some (p, n, cs) \<Rightarrow> map snd cs)) \<and>
        (\<not> emul env \<longrightarrow> (\<forall>d. handlers V (kern w) d =
          {a. \<exists>p n cs g. lst s' a = Some (p, n, cs) \<and> cs \<noteq> [] \<and> buttons env p = Some g \<and> port g = d}))"
proof (cases "app_steps env ops s")
  case (Inl e)
  with app_steps_abs [OF assms(1-4)] show ?thesis by simp
next
  case (Inr r)
  obtain w ts where r: "r = (w, ts)" by (cases r)
  have reach: "app_reach env V (w, ts)" and abs: "pins_abs (w, ts) = s'"
    using app_steps_abs [OF assms(1-4)] Inr r assms(5) by simp_all
  note facts = pins_abs_facts [OF assms(1,2) reach abs]
  have "\<forall>a. callbacks_of w a = (case lst s' a of None \<Rightarrow> [] | Some (p, n, cs) \<Rightarrow> map snd cs)" using facts(1) by blast
  with facts(2,3) Inr r show ?thesis by simp
qed

lemma two_callbacks_abs:
  "pins_abs (two_callbacks e, [Some 1, Some 2]) =
    \<lparr>lst = [1 \<mapsto> (1, 2, [(0, Some 5), (1, Some 6)])], held = [Some (1, 0), Some (1, 1)]\<rparr>"
  by (simp add: pins_abs_def lst_abs_def token_abs_def two_callbacks_def fun_eq_iff)

lemma button_env_ready: "pins_ready (button_env e)"
  by (simp add: pins_ready_def button_env_def ref_gpio_def)

theorem pins_refine_listeners_witness:
  "\<exists>w ts. app_steps (button_env False) [Drop 0, Add 1 (Some 7)] (two_callbacks False, [Some 1, Some 2]) = Inr (w, ts) \<and>
    callbacks_of w 1 = [Some 6, Some 7]"
proof -
  let ?ops = "[Drop 0, Add 1 (Some 7)]" and ?s = "(two_callbacks False, [Some 1, Some 2])"
  have "listens_ok (button_env False) ?ops (pins_abs ?s)"
    by (simp add: two_callbacks_abs map_erase_def del: One_nat_def)
  note pins_refine_listeners [OF button_env_laws(1,2) two_callbacks_reached this refl]
  moreover have "lst (listen_steps ?ops (pins_abs ?s)) 1 = Some (1, 3, [(1, Some 6), (2, Some 7)])"
    by (simp add: two_callbacks_abs map_erase_def del: One_nat_def)
  ultimately show ?thesis using button_env_ready [of False] by (auto simp del: One_nat_def split: sum.splits)
qed

section \<open>The tests of InterruptIn\<close>

text \<open>
  The two programs, cut where they sleep and a button may be pressed; the destructors at the end of
  a scope run in reverse order of construction, so a token is dropped before its pin.
\<close>

definition test_destructor :: "addr \<Rightarrow> 'f \<Rightarrow> 'f app_op list list" where
  "test_destructor button1 cb =
     [[Create button1 1, Add button1 (Some cb)], [Drop 0, Destroy button1]]"

definition test_multiple_instances :: "addr \<Rightarrow> addr \<Rightarrow> 'f \<Rightarrow> 'f \<Rightarrow> 'f app_op list list" where
  "test_multiple_instances button1_1 button1_2 callback1 callback2 =
     [[Create button1_1 1, Add button1_1 (Some callback1), Create button1_2 1, Add button1_2 (Some callback2)],
      [Drop 1, Destroy button1_2], [Drop 0, Destroy button1_1]]"

text \<open>The states in which the program sleeps.\<close>

fun app_phases :: "('f, 'k) in_env \<Rightarrow> 'f app_op list list \<Rightarrow> ('f, 'k) app \<Rightarrow> ('f, 'k) app list run" where
  "app_phases env [] s = Inr []"
| "app_phases env (ops # phs) s =
     bindR (app_steps env ops s) (\<lambda>s1. bindR (app_phases env phs s1) (\<lambda>ss. Inr (s1 # ss)))"

text \<open>
  Pressing the button on \<open>g\<close> in a state: whichever order the driver calls the handlers of the pin in,
  the callbacks \<open>ms\<close> run, each once.
\<close>

definition on_pin :: "'k gpio_view \<Rightarrow> gpio_dt_spec \<Rightarrow> ('f, 'k) world \<Rightarrow> addr set" where
  "on_pin V g w = {a \<in> handlers V (kern w) (port g). \<exists>i. ins w a = Some i \<and> in_gpio i = Some g}"

definition press_runs ::
  "('f, 'k) in_env \<Rightarrow> 'k gpio_view \<Rightarrow> gpio_dt_spec \<Rightarrow> ('f, 'k) app \<Rightarrow> 'f option multiset \<Rightarrow> bool" where
  "press_runs env V g s ms \<longleftrightarrow> (\<forall>hs. distinct hs \<and> set hs = on_pin V g (fst s) \<longrightarrow>
     (\<exists>cbs. mset cbs = ms \<and> edge (size ms) env hs (fst s) = Some (run_all env cbs (fst s))))"

lemma size_callbacks_le:
  assumes "distinct hs" and "h \<in> set hs"
  shows "length (callbacks_of w h) \<le> size (\<Sum>a\<in>set hs. mset (callbacks_of w a))"
  using assms by (simp add: sum.remove [of _ h])

lemma mset_callbacks: "distinct hs \<Longrightarrow>
    mset (concat (map (callbacks_of w) hs)) = (\<Sum>a\<in>set hs. mset (callbacks_of w a))"
  by (simp add: mset_concat sum_list_distinct_conv_sum_set comp_def)

lemma press_runs_handlers:
  assumes "gpio_irq_laws (gpio env) V" "alloc_law env" "app_reach env V (w, ts)" "\<not> emul env" "\<forall>a. keeps_in env a"
    and "ms = (\<Sum>a\<in>on_pin V g w. mset (callbacks_of w a))"
  shows "press_runs env V g (w, ts) ms"
proof -
  have inv: "app_inv env V (w, ts)" by (rule app_reach_inv [OF assms(1-3)])
  have pin: "\<exists>i. ins w h = Some i \<and> cb_instance i = Some h \<and> map_wf (callbacks (register i)) \<and>
      length (callbacks (register i)) = length (callbacks_of w h)" if h: "h \<in> on_pin V g w" for h
  proof -
    obtain i where i: "ins w h = Some i" "h \<in> handlers V (kern w) (port g)" using h by (auto simp: on_pin_def)
    then have "callbacks (register i) \<noteq> []"
      using app_pin_facts(2) [OF inv i(1)] assms(4) by (auto simp: armed_def has_callbacks_def)
    with app_pin_facts(3,4) [OF inv i(1)] i(1) assms(4) show ?thesis by (simp add: callbacks_of_def)
  qed
  have "edge (size ms) env hs w = Some (run_all env (concat (map (callbacks_of w) hs)) w)"
    if hs: "distinct hs" "set hs = on_pin V g w" for hs
  proof (rule edge_run_all [OF assms(5,4) _ refl], intro ballI)
    fix h
    assume "h \<in> set hs"
    then have "length (callbacks_of w h) \<le> size ms" using size_callbacks_le [of hs h w] hs assms(6) by simp
    with pin [of h] \<open>h \<in> set hs\<close> hs(2)
    show "\<exists>i. ins w h = Some i \<and> cb_instance i = Some h \<and> map_wf (callbacks (register i)) \<and>
        length (callbacks (register i)) \<le> size ms" by auto
  qed
  with mset_callbacks assms(6) show ?thesis unfolding press_runs_def fst_conv by metis
qed

text \<open>The same from the specification's state.\<close>

lemma press_runs_abs:
  assumes "gpio_irq_laws (gpio env) V" "alloc_law env" "app_reach env V s" "\<not> emul env" "\<forall>a. keeps_in env a"
    and "pins_abs s = l" and "A = {a. \<exists>p n cs. lst l a = Some (p, n, cs) \<and> cs \<noteq> [] \<and> buttons env p = Some g}"
    and "ms = (\<Sum>a\<in>A. mset (case lst l a of None \<Rightarrow> [] | Some (p, n, cs) \<Rightarrow> map snd cs))"
  shows "press_runs env V g s ms"
proof -
  obtain w ts where s: "s = (w, ts)" by (cases s)
  note facts = pins_abs_facts [OF assms(1,2) assms(3,6) [unfolded s]]
  have gpio: "in_gpio i = buttons env (pin_name i)" if "ins w a = Some i" for a i
    using app_reach_gpio [OF assms(1,2,4) assms(3)] that s by (simp add: pin_gpio_def)
  have "lst l a = map_option (\<lambda>i. (pin_name i, unique_id (register i), callbacks (register i))) (ins w a)" for a
    using assms(6) by (auto simp: s pins_abs_def lst_abs_def)
  then have "on_pin V g w = A"
    unfolding on_pin_def facts(3) [OF assms(4)] assms(7) by (auto simp: gpio)
  then have "ms = (\<Sum>a\<in>on_pin V g w. mset (callbacks_of w a))" by (simp add: assms(8) facts(1))
  from press_runs_handlers [OF assms(1,2) assms(3) [unfolded s] assms(4,5) this] show ?thesis by (simp add: s)
qed

lemma app_steps_ready:
  assumes "gpio_irq_laws (gpio env) V" "alloc_law env" "pins_ready env" "app_reach env V s" "pins_abs s = l"
    and "listens_ok env ops l"
  shows "\<exists>s'. app_steps env ops s = Inr s' \<and> app_reach env V s' \<and> pins_abs s' = listen_steps ops l"
  using app_steps_abs [OF assms(1,2,4), of ops] assms(3,5,6) by (cases "app_steps env ops s") auto

text \<open>
  C26: the test of two instances on one button prints what it announces. On a board whose pins are
  ready the program runs to its end; a press during its three sleeps runs the two callbacks, each
  once, then only the first, then none, and the test of the destructor behaves likewise.
\<close>

theorem multiple_instances_messages:
  assumes "gpio_irq_laws (gpio env) V" and "alloc_law env" and "pins_ready env" and "\<not> emul env"
    and "\<forall>a. keeps_in env a" and "buttons env 1 = Some g" and "a1 \<noteq> a2"
    and "\<forall>d. handlers V k d = {}"
    and "w0 = \<lparr>ins = (\<lambda>_. None), recs = [], s_value = replicate (NUM_BUTTONS env) (\<not> kPolarityPressed), kern = k\<rparr>"
  shows "(\<exists>s1 s2 s3. app_phases env (test_multiple_instances a1 a2 f1 f2) (w0, []) = Inr [s1, s2, s3] \<and>
      press_runs env V g s1 {#Some f1, Some f2#} \<and> press_runs env V g s2 {#Some f1#} \<and> press_runs env V g s3 {#}) \<and>
    (\<exists>s1 s2. app_phases env (test_destructor a1 f1) (w0, []) = Inr [s1, s2] \<and>
      press_runs env V g s1 {#Some f1#} \<and> press_runs env V g s2 {#})"
proof -
  have reach: "app_reach env V (w0, [])" unfolding assms(9) by (rule app_reach.start [OF assms(8)])
  have abs: "pins_abs (w0, []) = \<lparr>lst = (\<lambda>_. None), held = []\<rparr>" by (simp add: assms(9) pins_abs_def lst_abs_def fun_eq_iff)
  note step = app_steps_ready [OF assms(1-3)]
  note press = press_runs_abs [OF assms(1,2) _ assms(4,5)]
  let ?one = "\<lparr>lst = [a1 \<mapsto> (1, 1, [(0, Some f1)])], held = [Some (a1, 0)]\<rparr>"
  let ?two = "\<lparr>lst = [a1 \<mapsto> (1, 1, [(0, Some f1)]), a2 \<mapsto> (1, 1, [(0, Some f2)])], held = [Some (a1, 0), Some (a2, 0)]\<rparr>"
  let ?none = "\<lparr>lst = (\<lambda>_. None), held = []\<rparr>"
  have one: "press_runs env V g s {#Some f1#}" if "app_reach env V s" "pins_abs s = ?one" for s
    by (rule press [OF that, of "{a1}"]) (use assms(6) in \<open>auto split: if_splits\<close>)
  have two: "press_runs env V g s {#Some f1, Some f2#}" if "app_reach env V s" "pins_abs s = ?two" for s
    by (rule press [OF that, of "{a1, a2}"]) (use assms(6,7) in \<open>auto split: if_splits\<close>)
  have none: "press_runs env V g s {#}" if "app_reach env V s" "pins_abs s = ?none" for s
    by (rule press [OF that, of "{}"]) simp_all
  have "\<exists>s1 s2 s3. app_phases env (test_multiple_instances a1 a2 f1 f2) (w0, []) = Inr [s1, s2, s3] \<and>
      press_runs env V g s1 {#Some f1, Some f2#} \<and> press_runs env V g s2 {#Some f1#} \<and> press_runs env V g s3 {#}"
  proof -
    let ?ops = "test_multiple_instances a1 a2 f1 f2"
    obtain s1 where s1: "app_steps env (?ops ! 0) (w0, []) = Inr s1" "app_reach env V s1" "pins_abs s1 = ?two"
      using step [OF reach abs, of "?ops ! 0"] assms(6,7) by (auto simp: test_multiple_instances_def)
    obtain s2 where s2: "app_steps env (?ops ! 1) s1 = Inr s2" "app_reach env V s2" "pins_abs s2 = ?one"
      using step [OF s1(2,3), of "?ops ! 1"] assms(7) by (auto simp: test_multiple_instances_def map_erase_def fun_upd_twist)
    obtain s3 where s3: "app_steps env (?ops ! 2) s2 = Inr s3" "app_reach env V s3" "pins_abs s3 = ?none"
      using step [OF s2(2,3), of "?ops ! 2"] by (auto simp: test_multiple_instances_def map_erase_def)
    have "app_phases env ?ops (w0, []) = Inr [s1, s2, s3]"
      using s1(1) s2(1) s3(1) by (simp add: test_multiple_instances_def)
    with two [OF s1(2,3)] one [OF s2(2,3)] none [OF s3(2,3)] show ?thesis by blast
  qed
  moreover have "\<exists>s1 s2. app_phases env (test_destructor a1 f1) (w0, []) = Inr [s1, s2] \<and>
      press_runs env V g s1 {#Some f1#} \<and> press_runs env V g s2 {#}"
  proof -
    let ?ops = "test_destructor a1 f1"
    obtain s1 where s1: "app_steps env (?ops ! 0) (w0, []) = Inr s1" "app_reach env V s1" "pins_abs s1 = ?one"
      using step [OF reach abs, of "?ops ! 0"] assms(6) by (auto simp: test_destructor_def)
    obtain s2 where s2: "app_steps env (?ops ! 1) s1 = Inr s2" "app_reach env V s2" "pins_abs s2 = ?none"
      using step [OF s1(2,3), of "?ops ! 1"] by (auto simp: test_destructor_def map_erase_def)
    have "app_phases env ?ops (w0, []) = Inr [s1, s2]" using s1(1) s2(1) by (simp add: test_destructor_def)
    with one [OF s1(2,3)] none [OF s2(2,3)] show ?thesis by blast
  qed
  ultimately show ?thesis ..
qed

lemma button_env_board: "\<not> emul (button_env False)" "buttons (button_env False) 1 = Some \<lparr>port = 7, pin = 3\<rparr>"
  "handlers ref_gview gpio0 d = {}"
  by (simp_all add: button_env_def board_def ref_gview_def gpio0_def)

theorem multiple_instances_messages_witness:
  "\<exists>s1 s2. press_runs (button_env False) ref_gview \<lparr>port = 7, pin = 3\<rparr> s1 {#Some 5, Some 6#} \<and>
    press_runs (button_env False) ref_gview \<lparr>port = 7, pin = 3\<rparr> s2 {#Some 5#}"
  using multiple_instances_messages [OF button_env_laws(1,2) button_env_ready button_env_board(1) _ button_env_board(2),
      of 1 2 gpio0 _ 5 6] button_env_laws(3) button_env_board(3) by auto

end
