(* ===== verification/Test_Timing.thy ===== *)
theory Test_Timing
  imports This_Thread Test_Programs
begin

text \<open>
  The test of waiting and sleeping in src/zpp_rtos/tests/thread: ten waits, each measured with the
  uptime. The waits are those of \<open>This_Thread\<close>, the uptime that of \<open>Clock_Time\<close>; a counter \<open>cycles\<close>
  that does not appear in the program says how far the hardware has counted since boot.
\<close>

section \<open>The program\<close>

record 'k timing_env =
  te_sched :: "'k sched_api"
  te_config :: uptime_config
  te_user :: bool
  te_time :: "'k time_api"

text \<open>The body of both loops; \<open>abs(delta_time.count())\<close> is the absolute value of a 64-bit count.\<close>

definition timed_wait :: "'k timing_env \<Rightarrow> ('k \<Rightarrow> 'k) \<Rightarrow> int \<Rightarrow> int \<Rightarrow> 'k \<Rightarrow> 'k run" where
  "timed_wait env wait duration allowed_delta k =
     bindR (get_uptime (te_config env) (te_user env) (te_time env) k) (\<lambda>before.
     let k' = wait k in
     bindR (get_uptime (te_config env) (te_user env) (te_time env) k') (\<lambda>after.
     let delta_time = (after - before) - duration in
     bindR (zpp_zassert_true (\<bar>delta_time\<bar> < allowed_delta)) (\<lambda>_. Inr k')))"

fun busy_wait_loop :: "'k timing_env \<Rightarrow> nat \<Rightarrow> int \<Rightarrow> int \<Rightarrow> 'k \<Rightarrow> 'k run" where
  "busy_wait_loop env 0 wait_duration allowed_delta_in_us k = Inr k"
| "busy_wait_loop env (Suc n) wait_duration allowed_delta_in_us k =
     bindR (timed_wait env (busy_wait (te_sched env) wait_duration) wait_duration allowed_delta_in_us k)
       (busy_wait_loop env n (wait_duration * 2) (allowed_delta_in_us + 100))"

text \<open>\<open>sleep_duration\<close> counts milliseconds, the difference is one of microseconds.\<close>

fun sleep_loop :: "'k timing_env \<Rightarrow> nat \<Rightarrow> int \<Rightarrow> 'k \<Rightarrow> 'k run" where
  "sleep_loop env 0 sleep_duration k = Inr k"
| "sleep_loop env (Suc n) sleep_duration k =
     bindR (timed_wait env (\<lambda>k. snd (sleep_for_ms (te_sched env) sleep_duration k)) (sleep_duration * 1000) 500 k)
       (sleep_loop env n (sleep_duration * 2))"

definition sleep_function :: "'k timing_env \<Rightarrow> 'k \<Rightarrow> 'k run" where
  "sleep_function env k =
     (let kNbrOfDurations = 5 in
      bindR (busy_wait_loop env kNbrOfDurations 10000 600 k) (sleep_loop env kNbrOfDurations 1000))"

section \<open>What the hardware does\<close>

text \<open>The counter the build reads, and how far it can count before the uptime goes wrong.\<close>

fun reads :: "uptime_config \<Rightarrow> nat \<Rightarrow> 'k time_api \<Rightarrow> ('k \<Rightarrow> nat) \<Rightarrow> bool" where
  "reads Qemu_ticks hz T cycles \<longleftrightarrow> ticks_per_sec T = int hz \<and> (\<forall>k. k_uptime_ticks T k = int (cycles k))"
| "reads Cycles_64 hz T cycles \<longleftrightarrow> (\<forall>k. sys_clock_cycle_get_64 T k = word_of_nat (cycles k))"
| "reads Cycles_32 hz T cycles \<longleftrightarrow> (\<forall>k. sys_clock_cycle_get_32 T k = word_of_nat (cycles k))"

fun clock_limit :: "uptime_config \<Rightarrow> nat" where
  "clock_limit Qemu_ticks = 2 ^ 63 div 1000000"
| "clock_limit Cycles_64 = 2 ^ 64 div 1000000"
| "clock_limit Cycles_32 = 2 ^ 32"

text \<open>
  A wait takes at least its \<open>us\<close> microseconds and at most \<open>late\<close> more, in cycles of a counter
  with \<open>hz\<close> cycles per second.
\<close>

definition waits_for :: "nat \<Rightarrow> ('k \<Rightarrow> nat) \<Rightarrow> nat \<Rightarrow> ('k \<Rightarrow> 'k) \<Rightarrow> nat \<Rightarrow> bool" where
  "waits_for hz cycles late wait us \<longleftrightarrow> (\<forall>k. \<exists>n. cycles (wait k) = cycles k + n \<and>
     us * hz \<le> n * 1000000 \<and> n * 1000000 \<le> (us + late) * hz)"

definition wait_laws :: "nat \<Rightarrow> ('k \<Rightarrow> nat) \<Rightarrow> nat \<Rightarrow> 'k sched_api \<Rightarrow> bool" where
  "wait_laws hz cycles late S \<longleftrightarrow> (\<forall>u. waits_for hz cycles late (k_busy_wait S u) (unat u)) \<and>
     (\<forall>ms. 0 < ms \<and> ms < 2 ^ 31 \<longrightarrow> waits_for hz cycles late (\<lambda>k. snd (k_msleep S ms k)) (nat ms * 1000))"

lemma uptime_reads:
  assumes "time_laws hz T" and "reads cfg hz T cycles" and "cycles k < clock_limit cfg"
  shows "get_uptime cfg u T k = Inr (int (cycles k * 1000000 div hz))"
proof (cases cfg)
  case Qemu_ticks
  then have "int (cycles k) * 1000000 < 2 ^ 63" using assms(3) by simp
  with assms(2) Qemu_ticks show ?thesis by (simp add: get_uptime_def Let_def USEC_PER_SEC_def zdiv_int)
next
  case Cycles_64
  then have lim: "cycles k < 2 ^ 64" "cycles k * 1000000 < 2 ^ 64" using assms(3) by simp_all
  then have "unat (word_of_nat (cycles k) :: u64) = cycles k" by (simp add: unat_of_nat)
  with assms(1) lim have "unat (k_cyc_to_us_floor64 T (word_of_nat (cycles k))) = cycles k * 1000000 div hz"
    by (simp add: time_laws_def)
  then have "int (unat (k_cyc_to_us_floor64 T (word_of_nat (cycles k)))) = int (cycles k * 1000000 div hz)"
    by (simp only:)
  with assms(2) Cycles_64 show ?thesis by (simp add: get_uptime_def)
next
  case Cycles_32
  with assms uptime_32 [OF assms(1), of k "cycles k" u] show ?thesis by simp
qed

lemma wait_times:
  fixes hz :: nat
  assumes "0 < hz" and "us * hz \<le> n * 1000000" and "n * 1000000 \<le> (us + late) * hz"
  shows "c * 1000000 div hz + us \<le> (c + n) * 1000000 div hz"
    and "(c + n) * 1000000 div hz \<le> c * 1000000 div hz + us + late"
proof -
  have shift: "(c * 1000000 + x * hz) div hz = c * 1000000 div hz + x" for x :: nat
    using assms(1) by simp
  have "(c * 1000000 + us * hz) div hz \<le> (c * 1000000 + n * 1000000) div hz"
    "(c * 1000000 + n * 1000000) div hz \<le> (c * 1000000 + (us + late) * hz) div hz"
    using assms(2,3) by (intro div_le_mono; simp)+
  then show "c * 1000000 div hz + us \<le> (c + n) * 1000000 div hz"
    "(c + n) * 1000000 div hz \<le> c * 1000000 div hz + us + late"
    unfolding shift by (simp_all add: distrib_right)
qed

text \<open>After the counter has wrapped \<open>j\<close> times during a wait, the measured time is far too short.\<close>

lemma wrapped_wait_time:
  fixes hz :: nat
  assumes "0 < hz" and "n * 1000000 \<le> (us + late) * hz" and "2000 * hz \<le> j * W * 1000000" and "m + n = m' + j * W"
  shows "m' * 1000000 div hz + 2000 \<le> m * 1000000 div hz + us + late"
proof -
  have shift: "(x * 1000000 + y * hz) div hz = x * 1000000 div hz + y" for x y :: nat
    using assms(1) by simp
  have "m * 1000000 + n * 1000000 = m' * 1000000 + j * W * 1000000"
    using assms(4) by (metis distrib_right)
  with assms(2,3) have "m' * 1000000 + 2000 * hz \<le> m * 1000000 + (us + late) * hz" by linarith
  then have "(m' * 1000000 + 2000 * hz) div hz \<le> (m * 1000000 + (us + late) * hz) div hz"
    by (rule div_le_mono)
  then show ?thesis unfolding shift by simp
qed

lemma mod_after_wraps:
  fixes c :: nat
  assumes "(c + n) div W = c div W + j"
  shows "c mod W + n = (c + n) mod W + j * W"
proof -
  have "c div W * W + c mod W = c" by (rule div_mult_mod_eq)
  moreover have "c div W * W + j * W + (c + n) mod W = c + n"
    using div_mult_mod_eq [of "c + n" W] unfolding assms distrib_right .
  ultimately show ?thesis by linarith
qed

lemma delta_small: "a + us \<le> b \<Longrightarrow> b \<le> a + us + late \<Longrightarrow> late < allowed \<Longrightarrow> \<bar>int b - int a - int us\<bar> < int allowed"
  by linarith

lemma delta_large: "b + 2000 \<le> a + us + late \<Longrightarrow> allowed + late \<le> 2000 \<Longrightarrow> \<not> \<bar>int b - int a - int us\<bar> < int allowed"
  by linarith

section \<open>One wait\<close>

lemma timed_wait_passes:
  assumes "time_laws hz T" and "reads cfg hz T cycles" and "waits_for hz cycles late wait us" and "late < allowed"
    and "cycles (wait k) < clock_limit cfg"
  shows "timed_wait \<lparr>te_sched = S, te_config = cfg, te_user = u, te_time = T\<rparr> wait (int us) (int allowed) k = Inr (wait k)"
proof -
  obtain n where n: "cycles (wait k) = cycles k + n" "us * hz \<le> n * 1000000" "n * 1000000 \<le> (us + late) * hz"
    using assms(3) by (auto simp: waits_for_def)
  have "0 < hz" using assms(1) by (simp add: time_laws_def)
  note times = wait_times [OF this n(2,3), of "cycles k"]
  have up: "get_uptime cfg u T k = Inr (int (cycles k * 1000000 div hz))"
    "get_uptime cfg u T (wait k) = Inr (int ((cycles k + n) * 1000000 div hz))"
    using uptime_reads [OF assms(1,2), of k u] uptime_reads [OF assms(1,2), of "wait k" u] assms(5) n(1) by simp_all
  note delta_small [OF times assms(4)]
  then show ?thesis using up by (simp add: timed_wait_def zpp_zassert_true_def)
qed

lemma timed_wait_32:
  assumes "time_laws hz T" and "reads Cycles_32 hz T cycles" and "waits_for hz cycles late wait us" and "late < allowed"
    and "allowed + late \<le> 2000" and "hz \<le> 10 ^ 12"
  shows "timed_wait \<lparr>te_sched = S, te_config = Cycles_32, te_user = u, te_time = T\<rparr> wait (int us) (int allowed) k =
    (if cycles k div 2 ^ 32 = cycles (wait k) div 2 ^ 32 then Inr (wait k) else Inl Panic)"
proof -
  let ?W = "2 ^ 32 :: nat" and ?us = "\<lambda>c. c mod 2 ^ 32 * 1000000 div hz"
  obtain n where n: "cycles (wait k) = cycles k + n" "us * hz \<le> n * 1000000" "n * 1000000 \<le> (us + late) * hz"
    using assms(3) by (auto simp: waits_for_def)
  have hz: "0 < hz" using assms(1) by (simp add: time_laws_def)
  have up: "get_uptime Cycles_32 u T x = Inr (int (?us (cycles x)))" for x
    by (rule uptime_32 [OF assms(1)]) (use assms(2) in simp)
  have run: "timed_wait \<lparr>te_sched = S, te_config = Cycles_32, te_user = u, te_time = T\<rparr> wait (int us) (int allowed) k =
    (if \<bar>int (?us (cycles (wait k))) - int (?us (cycles k)) - int us\<bar> < int allowed then Inr (wait k) else Inl Panic)"
    unfolding timed_wait_def timing_env.simps up bindR_Inr Let_def zpp_zassert_true_def by simp
  define c c' where "c = cycles k" and "c' = cycles (wait k)"
  show ?thesis
  proof (cases "c div ?W = c' div ?W")
    case True
    have "c' mod ?W = c mod ?W + n"
      using mod_after_wraps [of c n ?W 0] True n(1) unfolding c_def c'_def by simp
    then have "\<bar>int (?us c') - int (?us c) - int us\<bar> < int allowed"
      using delta_small [OF wait_times [OF hz n(2,3), of "c mod ?W"] assms(4)] by simp
    with True show ?thesis unfolding run c_def [symmetric] c'_def [symmetric] by simp
  next
    case False
    have le: "c div ?W \<le> c' div ?W" using n(1) unfolding c_def c'_def by (intro div_le_mono) simp
    define j where "j = c' div ?W - c div ?W"
    have j: "0 < j" "c' div ?W = c div ?W + j" using False le by (simp_all add: j_def)
    have "?W * 1000000 \<le> j * ?W * 1000000" using j(1) by (intro mult_le_mono1) (cases j, simp_all)
    then have "2000 * hz \<le> j * ?W * 1000000" using assms(6) by simp
    moreover have "c mod ?W + n = c' mod ?W + j * ?W"
      using mod_after_wraps [of c n ?W j] j(2) n(1) unfolding c_def c'_def by simp
    ultimately have "?us c' + 2000 \<le> ?us c + us + late" by (rule wrapped_wait_time [OF hz n(3)])
    then have "\<not> \<bar>int (?us c') - int (?us c) - int us\<bar> < int allowed" by (rule delta_large [OF _ assms(5)])
    with False show ?thesis unfolding run c_def [symmetric] c'_def [symmetric] by simp
  qed
qed

section \<open>The ten waits\<close>

text \<open>The waits of the two loops: what waits, for how many microseconds, and how exactly.\<close>

fun busy_list :: "'k sched_api \<Rightarrow> nat \<Rightarrow> nat \<Rightarrow> nat \<Rightarrow> (('k \<Rightarrow> 'k) \<times> nat \<times> nat) list" where
  "busy_list S 0 us allowed = []"
| "busy_list S (Suc n) us allowed = (busy_wait S (int us), us, allowed) # busy_list S n (us * 2) (allowed + 100)"

fun sleep_list :: "'k sched_api \<Rightarrow> nat \<Rightarrow> nat \<Rightarrow> (('k \<Rightarrow> 'k) \<times> nat \<times> nat) list" where
  "sleep_list S 0 ms = []"
| "sleep_list S (Suc n) ms = (\<lambda>k. snd (sleep_for_ms S (int ms) k), ms * 1000, 500) # sleep_list S n (ms * 2)"

definition the_waits :: "'k sched_api \<Rightarrow> (('k \<Rightarrow> 'k) \<times> nat \<times> nat) list" where
  "the_waits S = busy_list S 5 10000 600 @ sleep_list S 5 1000"

lemma five: "(5 :: nat) = Suc (Suc (Suc (Suc (Suc 0))))"
  by simp

fun timed_waits :: "'k timing_env \<Rightarrow> (('k \<Rightarrow> 'k) \<times> nat \<times> nat) list \<Rightarrow> 'k \<Rightarrow> 'k run" where
  "timed_waits env [] k = Inr k"
| "timed_waits env ((wait, us, allowed) # ws) k =
     bindR (timed_wait env wait (int us) (int allowed) k) (timed_waits env ws)"

fun after_waits :: "(('k \<Rightarrow> 'k) \<times> nat \<times> nat) list \<Rightarrow> 'k \<Rightarrow> 'k" where
  "after_waits [] k = k"
| "after_waits ((wait, us, allowed) # ws) k = after_waits ws (wait k)"

lemma timed_waits_append: "timed_waits env (xs @ ys) k = bindR (timed_waits env xs k) (timed_waits env ys)"
proof (induction xs arbitrary: k)
  case (Cons x xs)
  then have "timed_waits env (xs @ ys) = (\<lambda>k. bindR (timed_waits env xs k) (timed_waits env ys))" by blast
  then show ?case by (cases x) (simp add: bindR_assoc)
qed simp

lemma busy_wait_loop_list:
  "busy_wait_loop env n (int us) (int allowed) = timed_waits env (busy_list (te_sched env) n us allowed)"
proof (induction n arbitrary: us allowed)
  case (Suc n)
  have "int us * 2 = int (us * 2)" "int allowed + 100 = int (allowed + 100)" by simp_all
  then show ?case unfolding busy_wait_loop.simps busy_list.simps timed_waits.simps by (simp only: Suc fun_eq_iff) simp
qed (simp add: fun_eq_iff)

lemma sleep_loop_list: "sleep_loop env n (int ms) = timed_waits env (sleep_list (te_sched env) n ms)"
proof (induction n arbitrary: ms)
  case (Suc n)
  then show ?case by (intro ext) (use Suc [of "ms * 2"] in simp)
qed (simp add: fun_eq_iff)

lemma sleep_function_waits: "sleep_function env k = timed_waits env (the_waits (te_sched env)) k"
  using busy_wait_loop_list [of env 5 10000 600] sleep_loop_list [of env 5 1000]
  by (simp add: sleep_function_def the_waits_def timed_waits_append Let_def)

definition fair_waits :: "nat \<Rightarrow> ('k \<Rightarrow> nat) \<Rightarrow> nat \<Rightarrow> (('k \<Rightarrow> 'k) \<times> nat \<times> nat) list \<Rightarrow> bool" where
  "fair_waits hz cycles late ws \<longleftrightarrow>
     (\<forall>(wait, us, allowed)\<in>set ws. waits_for hz cycles late wait us \<and> 500 \<le> allowed \<and> allowed \<le> 1000)"

lemma fair_waits_Cons [simp]: "fair_waits hz cycles late ((wait, us, allowed) # ws) \<longleftrightarrow>
    waits_for hz cycles late wait us \<and> 500 \<le> allowed \<and> allowed \<le> 1000 \<and> fair_waits hz cycles late ws"
  by (auto simp: fair_waits_def)

lemma busy_wait_fair: "wait_laws hz cycles late S \<Longrightarrow> us < 2 ^ 32 \<Longrightarrow> waits_for hz cycles late (busy_wait S (int us)) us"
proof -
  assume laws: "wait_laws hz cycles late S" and "us < 2 ^ 32"
  then have "unat (word_of_int (int us) :: u32) = us" by (simp add: unat_of_nat)
  moreover have "waits_for hz cycles late (k_busy_wait S (word_of_int (int us))) (unat (word_of_int (int us) :: u32))"
    using laws unfolding wait_laws_def by blast
  moreover have "busy_wait S (int us) = k_busy_wait S (word_of_int (int us))" by (simp add: fun_eq_iff busy_wait_def)
  ultimately show ?thesis by simp
qed

lemma sleep_fair:
  assumes "wait_laws hz cycles late S" and "0 < ms" and "ms < 2 ^ 31"
  shows "waits_for hz cycles late (\<lambda>k. snd (sleep_for_ms S (int ms) k)) (ms * 1000)"
proof -
  have "to_int32 (int ms) = int ms"
    by (rule to_int32_id) (use assms(3) in simp_all)
  moreover have "waits_for hz cycles late (\<lambda>k. snd (k_msleep S (int ms) k)) (nat (int ms) * 1000)"
    using assms(2,3) conjunct2 [OF assms(1) [unfolded wait_laws_def], rule_format, of "int ms"] by simp
  ultimately show ?thesis by (simp add: sleep_for_ms_def)
qed

lemma the_waits_fair: "wait_laws hz cycles late S \<Longrightarrow> fair_waits hz cycles late (the_waits S)"
  using busy_wait_fair [of hz cycles late S 10000] busy_wait_fair [of hz cycles late S 20000]
    busy_wait_fair [of hz cycles late S 40000] busy_wait_fair [of hz cycles late S 80000]
    busy_wait_fair [of hz cycles late S 160000] sleep_fair [of hz cycles late S 1000]
    sleep_fair [of hz cycles late S 2000] sleep_fair [of hz cycles late S 4000]
    sleep_fair [of hz cycles late S 8000] sleep_fair [of hz cycles late S 16000]
  by (simp add: the_waits_def five) (simp add: fair_waits_def)

lemma total_wait:
  assumes "fair_waits hz cycles late ws"
  shows "\<exists>n. cycles (after_waits ws k) = cycles k + n \<and> (\<Sum>(wait, us, allowed)\<leftarrow>ws. us) * hz \<le> n * 1000000 \<and>
    n * 1000000 \<le> ((\<Sum>(wait, us, allowed)\<leftarrow>ws. us) + length ws * late) * hz"
  using assms
proof (induction ws arbitrary: k)
  case (Cons x ws)
  obtain wait us allowed where x: "x = (wait, us, allowed)" by (cases x)
  note [simp] = x
  obtain n where n: "cycles (wait k) = cycles k + n" "us * hz \<le> n * 1000000" "n * 1000000 \<le> (us + late) * hz"
    using Cons.prems by (auto simp: waits_for_def)
  obtain m where "cycles (after_waits ws (wait k)) = cycles (wait k) + m"
    "(\<Sum>(wait, us, allowed)\<leftarrow>ws. us) * hz \<le> m * 1000000"
    "m * 1000000 \<le> ((\<Sum>(wait, us, allowed)\<leftarrow>ws. us) + length ws * late) * hz"
    using Cons.IH [of "wait k"] Cons.prems by auto
  with n show ?case by (intro exI [of _ "n + m"]) (simp add: algebra_simps)
qed simp

lemma the_waits_total: "(\<Sum>(wait, us, allowed)\<leftarrow>the_waits S. us) = 31310000" "length (the_waits S) = 10"
  by (simp_all add: the_waits_def five)

lemma timed_waits_pass:
  assumes "time_laws hz T" and "reads cfg hz T cycles" and "late < 500" and "fair_waits hz cycles late ws"
    and "cycles (after_waits ws k) < clock_limit cfg"
  shows "timed_waits \<lparr>te_sched = S, te_config = cfg, te_user = u, te_time = T\<rparr> ws k = Inr (after_waits ws k)"
  using assms(4,5)
proof (induction ws arbitrary: k)
  case (Cons x ws)
  obtain wait us allowed where x: "x = (wait, us, allowed)" by (cases x)
  note [simp] = x
  have "cycles (wait k) \<le> cycles (after_waits ws (wait k))"
    using total_wait [of hz cycles late ws "wait k"] Cons.prems(1) by auto
  then have "cycles (wait k) < clock_limit cfg" using Cons.prems(2) by simp
  then show ?case
    using timed_wait_passes [OF assms(1,2), of late wait us allowed k S u] Cons assms(3) by simp
qed simp

lemma timed_waits_32:
  assumes "time_laws hz T" and "reads Cycles_32 hz T cycles" and "late < 500" and "hz \<le> 10 ^ 12"
    and "fair_waits hz cycles late ws"
  shows "timed_waits \<lparr>te_sched = S, te_config = Cycles_32, te_user = u, te_time = T\<rparr> ws k =
    (if cycles k div 2 ^ 32 = cycles (after_waits ws k) div 2 ^ 32 then Inr (after_waits ws k) else Inl Panic)"
  using assms(5)
proof (induction ws arbitrary: k)
  case (Cons x ws)
  obtain wait us allowed where x: "x = (wait, us, allowed)" by (cases x)
  note [simp] = x
  have "cycles k \<le> cycles (wait k)" "cycles (wait k) \<le> cycles (after_waits ws (wait k))"
    using total_wait [of hz cycles late ws "wait k"] Cons.prems by (auto simp: waits_for_def) (metis le_add1)
  note div_le_mono [OF this(1), of "2 ^ 32"] div_le_mono [OF this(2), of "2 ^ 32"]
  then show ?case
    using timed_wait_32 [OF assms(1,2), of late wait us allowed S u k] Cons assms(3,4) by auto
qed simp

section \<open>Properties\<close>

text \<open>
  The test of waiting and sleeping passes on every build whose counter does not reach its limit
  during the test, if no wait is late by half a millisecond: none of its ten assertions fails,
  and it takes at least the 31.31 seconds it asks for and at most 5 milliseconds more.
\<close>

theorem sleep_test_passes:
  assumes "time_laws hz T" and "reads cfg hz T cycles" and "wait_laws hz cycles late S" and "late < 500"
    and "cycles k * 1000000 + 31315000 * hz \<le> clock_limit cfg * 1000000"
  shows "\<exists>k'. sleep_function \<lparr>te_sched = S, te_config = cfg, te_user = u, te_time = T\<rparr> k = Inr k' \<and>
    31310000 * hz \<le> (cycles k' - cycles k) * 1000000 \<and> (cycles k' - cycles k) * 1000000 \<le> 31315000 * hz"
proof -
  note fair = the_waits_fair [OF assms(3)]
  have hz: "0 < hz" using assms(1) by (simp add: time_laws_def)
  let ?k' = "after_waits (the_waits S) k"
  obtain n where n: "cycles ?k' = cycles k + n" "31310000 * hz \<le> n * 1000000"
    "n * 1000000 \<le> (31310000 + 10 * late) * hz"
    using total_wait [OF fair, of k] unfolding the_waits_total by blast
  have "(31310000 + 10 * late) * hz < 31315000 * hz" using assms(4) hz by simp
  then have less: "n * 1000000 < 31315000 * hz" using n(3) by linarith
  then have "cycles ?k' < clock_limit cfg" using assms(5) n(1) by linarith
  then have "sleep_function \<lparr>te_sched = S, te_config = cfg, te_user = u, te_time = T\<rparr> k = Inr ?k'"
    using timed_waits_pass [OF assms(1,2,4) fair] by (simp add: sleep_function_waits)
  then show ?thesis using n less by (intro exI [of _ ?k']) simp
qed

text \<open>Hardware with a counter of 64 cycles per microsecond and no delays.\<close>

definition demo_waits :: "(nat \<times> nat) sched_api" where
  "demo_waits = \<lparr>k_current_get = (\<lambda>_. 1), k_thread_priority_get = (\<lambda>_ _. 0), k_thread_priority_set = (\<lambda>_ _ k. k),
     k_busy_wait = (\<lambda>u (t, c). (t, c + 64 * unat u)), k_msleep = (\<lambda>ms (t, c). (0, t, c + 64000 * nat ms)),
     k_sleep = (\<lambda>_ k. (0, k)), K_TIMEOUT_ABS_US = (\<lambda>d. \<lparr>ticks = - 1 - d\<rparr>),
     K_TIMEOUT_ABS_MS = (\<lambda>d. \<lparr>ticks = - 1 - d\<rparr>), K_TIMEOUT_ABS_SEC = (\<lambda>d. \<lparr>ticks = - 1 - d\<rparr>)\<rparr>"

lemma demo_waits_laws: "wait_laws 64000000 snd 0 demo_waits"
  by (auto simp: wait_laws_def waits_for_def demo_waits_def split: prod.splits)

lemma demo_reads: "reads Cycles_32 64000000 demo_time snd" "reads Cycles_64 64000000 demo_time snd"
  by (simp_all add: demo_time_def)

theorem sleep_test_passes_witness:
  "\<exists>k'. sleep_function \<lparr>te_sched = demo_waits, te_config = Cycles_64, te_user = False, te_time = demo_time\<rparr> (0, 7) = Inr k'"
  using sleep_test_passes [OF demo_time_laws demo_reads(2) demo_waits_laws, of "(0, 7)" False] by auto

text \<open>
  C27: if no wait is late by half a millisecond and the counter is not faster than 10^12 Hz, the test
  with the 32-bit counter passes exactly when the counter does not wrap during it; so a board whose counter wraps within the 31.31 seconds of the test
  (one faster than about 137 MHz) can never pass it.
\<close>

theorem sleep_test_32_bit_counter:
  assumes "time_laws hz T" and "reads Cycles_32 hz T cycles" and "wait_laws hz cycles late S" and "late < 500"
    and "hz \<le> 10 ^ 12" and "run = sleep_function \<lparr>te_sched = S, te_config = Cycles_32, te_user = u, te_time = T\<rparr> k"
  shows "(\<exists>n. run = (if cycles k div 2 ^ 32 = (cycles k + n) div 2 ^ 32 then Inr (after_waits (the_waits S) k) else Inl Panic) \<and>
      31310000 * hz \<le> n * 1000000 \<and> n * 1000000 \<le> 31315000 * hz) \<and>
    (2 ^ 32 * 1000000 \<le> 31310000 * hz \<longrightarrow> run = Inl Panic)"
proof -
  note fair = the_waits_fair [OF assms(3)]
  let ?k' = "after_waits (the_waits S) k"
  obtain n where n: "cycles ?k' = cycles k + n" "31310000 * hz \<le> n * 1000000"
    "n * 1000000 \<le> (31310000 + 10 * late) * hz"
    using total_wait [OF fair, of k] unfolding the_waits_total by blast
  have "(31310000 + 10 * late) * hz \<le> 31315000 * hz" using assms(4) by (intro mult_le_mono1) simp
  then have most: "n * 1000000 \<le> 31315000 * hz" using n(3) by linarith
  have run: "run = (if cycles k div 2 ^ 32 = (cycles k + n) div 2 ^ 32 then Inr ?k' else Inl Panic)"
    using timed_waits_32 [OF assms(1,2,4,5) fair, of S u k] n(1) by (simp add: assms(6) sleep_function_waits)
  moreover have "run = Inl Panic" if "2 ^ 32 * 1000000 \<le> 31310000 * hz"
  proof -
    have "2 ^ 32 \<le> n" using that n(2) by simp
    then have "(cycles k + 2 ^ 32) div 2 ^ 32 \<le> (cycles k + n) div 2 ^ 32" by (intro div_le_mono) simp
    then have "cycles k div 2 ^ 32 \<noteq> (cycles k + n) div 2 ^ 32" by simp
    with run show ?thesis by simp
  qed
  ultimately show ?thesis using n(2) most by blast
qed

theorem sleep_test_32_bit_counter_witness:
  "\<exists>k'. sleep_function \<lparr>te_sched = demo_waits, te_config = Cycles_32, te_user = True, te_time = demo_time\<rparr> (0, 7) = Inr k'"
proof -
  note sleep_test_32_bit_counter [OF demo_time_laws demo_reads(1) demo_waits_laws, of _ True "(0, 7)", OF _ _ refl]
  then obtain n where "sleep_function \<lparr>te_sched = demo_waits, te_config = Cycles_32, te_user = True, te_time = demo_time\<rparr> (0, 7) =
      (if 7 div 2 ^ 32 = (7 + n) div (2 ^ 32 :: nat) then Inr (after_waits (the_waits demo_waits) (0, 7)) else Inl Panic)"
    "n * 1000000 \<le> 31315000 * 64000000" by auto
  then show ?thesis by simp
qed

end
