(* ===== verification/Object_Access.thy ===== *)
theory Object_Access
  imports Barrier_Class Message_Queue Digital_Out
begin

text \<open>
  Access to kernel objects in the userspace build: the \<open>grant_access\<close> functions of Mutex, Semaphore,
  Event, Barrier, MessageQueue and DigitalOut. \<open>perms\<close> is the set of objects each thread may name in a
  system call, which the kernel keeps. The properties say whether what is granted is what the class
  uses.
\<close>

section \<open>The functions\<close>

record 'k access_api =
  k_object_access_grant :: "addr \<Rightarrow> tid \<Rightarrow> 'k \<Rightarrow> 'k"

definition Mutex_grant_access :: "'k access_api \<Rightarrow> addr \<Rightarrow> tid \<Rightarrow> 'k \<Rightarrow> 'k" where
  "Mutex_grant_access G p_mutex t k = k_object_access_grant G p_mutex t k"

definition Semaphore_grant_access :: "'k access_api \<Rightarrow> addr \<Rightarrow> tid \<Rightarrow> 'k \<Rightarrow> 'k" where
  "Semaphore_grant_access G p_sem t k = k_object_access_grant G p_sem t k"

definition Event_grant_access :: "'k access_api \<Rightarrow> addr \<Rightarrow> tid \<Rightarrow> 'k \<Rightarrow> 'k" where
  "Event_grant_access G p_event t k = k_object_access_grant G p_event t k"

definition MessageQueue_grant_access :: "'k access_api \<Rightarrow> addr \<Rightarrow> tid \<Rightarrow> 'k \<Rightarrow> 'k" where
  "MessageQueue_grant_access G p_msgq t k = k_object_access_grant G p_msgq t k"

definition Barrier_grant_access :: "'k access_api \<Rightarrow> barrier \<Rightarrow> tid \<Rightarrow> 'k \<Rightarrow> 'k" where
  "Barrier_grant_access G ob t k =
     (let k1 = Semaphore_grant_access G (bar_sem ob) t k in Mutex_grant_access G (bar_mutex ob) t k1)"

text \<open>\<open>led\<close> is the devicetree's \<open>led0\<close>, whatever pin the object drives.\<close>

definition DigitalOut_grant_access ::
  "'k access_api \<Rightarrow> gpio_dt_spec \<Rightarrow> digital_out \<Rightarrow> tid \<Rightarrow> 'k \<Rightarrow> 'k run" where
  "DigitalOut_grant_access G led ob t k =
     (let k1 = k_object_access_grant G (port led) t k in
      case out_spec ob of
        None \<Rightarrow> Inl Undef
      | Some g \<Rightarrow> Inr (k_object_access_grant G (port g) t k1))"

section \<open>Permissions\<close>

definition access_laws :: "'k access_api \<Rightarrow> ('k \<Rightarrow> (addr \<times> tid) set) \<Rightarrow> bool" where
  "access_laws G perms \<longleftrightarrow> (\<forall>p t k. perms (k_object_access_grant G p t k) = insert (p, t) (perms k))"

text \<open>The calls on mutexes and semaphores leave the permissions alone.\<close>

definition keeps_perms :: "'k sem_api \<Rightarrow> 'k mutex_api \<Rightarrow> ('k \<Rightarrow> (addr \<times> tid) set) \<Rightarrow> bool" where
  "keeps_perms S M perms \<longleftrightarrow>
     (\<forall>p d k r k'. k_sem_take S p d k = Some (r, k') \<longrightarrow> perms k' = perms k) \<and>
     (\<forall>p k. perms (k_sem_give S p k) = perms k) \<and>
     (\<forall>t p d k r k'. k_mutex_lock M t p d k = Some (r, k') \<longrightarrow> perms k' = perms k) \<and>
     (\<forall>t p k. perms (snd (k_mutex_unlock M t p k)) = perms k)"

text \<open>
  \<open>S'\<close> and \<open>M'\<close> are the calls as thread \<open>t\<close> makes them from user mode: those on objects it may use
  do what the kernel does, the others may do anything.
\<close>

definition user_calls ::
  "tid \<Rightarrow> ('k \<Rightarrow> (addr \<times> tid) set) \<Rightarrow> 'k sem_api \<Rightarrow> 'k mutex_api \<Rightarrow> 'k sem_api \<Rightarrow> 'k mutex_api \<Rightarrow> bool" where
  "user_calls t perms S M S' M' \<longleftrightarrow>
     (\<forall>p k. (p, t) \<in> perms k \<longrightarrow>
        (\<forall>d. k_sem_take S' p d k = k_sem_take S p d k) \<and> k_sem_give S' p k = k_sem_give S p k \<and>
        (\<forall>d. k_mutex_lock M' t p d k = k_mutex_lock M t p d k) \<and> k_mutex_unlock M' t p k = k_mutex_unlock M t p k)"

lemma call_res_user:
  assumes "f' (kern w) = f (kern w)"
  shows "call_res a f' w = call_res a f w"
  using assms by (simp add: call_res_def)

lemma call_res_perms:
  assumes "call_res a f w = Inr w'" and "\<And>r k'. f (kern w) = Inr (r, k') \<Longrightarrow> perms k' = perms (kern w)"
  shows "perms (kern w') = perms (kern w) \<and> bars w' = bars w"
  using assms by (auto simp: call_res_def bindR_eq_Inr)

lemma bindR_same: "m' = m \<Longrightarrow> (\<And>x. m = Inr x \<Longrightarrow> f' x = f x) \<Longrightarrow> bindR m' f' = bindR m f"
  by (cases m) simp_all

lemma release_loop_user:
  assumes user: "user_calls t perms S M S' M'" and keeps: "keeps_perms S M perms"
  shows "(q, t) \<in> perms (kern w) \<Longrightarrow> release_loop a S' q n w = release_loop a S q n w \<and>
    (\<forall>w'. release_loop a S q n w = Inr w' \<longrightarrow> perms (kern w') = perms (kern w) \<and> bars w' = bars w)"
proof (induction n arbitrary: w)
  case (Suc n)
  have same: "call_res a (Semaphore_release S' q) w = call_res a (Semaphore_release S q) w"
    using user Suc.prems by (intro call_res_user) (simp add: user_calls_def Semaphore_release_def)
  have kept: "perms (kern w1) = perms (kern w) \<and> bars w1 = bars w" if "call_res a (Semaphore_release S q) w = Inr w1" for w1
    using keeps by (intro call_res_perms [OF that]) (auto simp: keeps_perms_def Semaphore_release_def)
  show ?case
  proof (cases "call_res a (Semaphore_release S q) w")
    case (Inr w1)
    with Suc.IH [of w1] Suc.prems kept [OF Inr] same show ?thesis by simp
  qed (simp add: same)
qed simp

lemma Barrier_wait_user:
  fixes w :: "'k barrier_world"
  assumes user: "user_calls t perms S M S' M'" and keeps: "keeps_perms S M perms"
    and sem: "(bar_sem (bars w b), t) \<in> perms (kern w)" and mutex: "(bar_mutex (bars w b), t) \<in> perms (kern w)"
  shows "Barrier_wait a C S' M' t b now w = Barrier_wait a C S M t b now w"
proof -
  have lock: "call_res a (Mutex_lock a C M' t p) w = call_res a (Mutex_lock a C M t p) w"
    if "(p, t) \<in> perms (kern w)" for p and w :: "'k barrier_world"
    using user that by (intro call_res_user) (simp add: user_calls_def Mutex_lock_def)
  have unlock: "call_res a (Mutex_unlock a M' t p) w = call_res a (Mutex_unlock a M t p) w"
    if "(p, t) \<in> perms (kern w)" for p and w :: "'k barrier_world"
    using user that by (intro call_res_user) (simp add: user_calls_def Mutex_unlock_def)
  have acquire: "call_res a (Semaphore_acquire C S' p) w = call_res a (Semaphore_acquire C S p) w"
    if "(p, t) \<in> perms (kern w)" for p and w :: "'k barrier_world"
    using user that by (intro call_res_user) (simp add: user_calls_def Semaphore_acquire_def)
  have locked: "perms (kern w') = perms (kern w) \<and> bars w' = bars w"
    if "call_res a (Mutex_lock a C M t p) w = Inr w'" for p w' and w :: "'k barrier_world"
    using keeps by (intro call_res_perms [OF that])
      (auto simp: keeps_perms_def Mutex_lock_def bindR_eq_Inr split: option.splits if_splits)
  have unlocked: "perms (kern w') = perms (kern w) \<and> bars w' = bars w"
    if "call_res a (Mutex_unlock a M t p) w = Inr w'" for p w' and w :: "'k barrier_world"
  proof (rule call_res_perms [OF that])
    have "perms (snd (k_mutex_unlock M t p (kern w))) = perms (kern w)" using keeps by (simp add: keeps_perms_def)
    then show "perms k' = perms (kern w)" if "Mutex_unlock a M t p (kern w) = Inr (r, k')" for r k'
      using that by (auto simp: Mutex_unlock_def bindR_eq_Inr split: prod.splits if_splits)
  qed
  let ?ok = "\<lambda>w'. perms (kern w') = perms (kern w) \<and> bar_sem (bars w' b) = bar_sem (bars w b) \<and>
    bar_mutex (bars w' b) = bar_mutex (bars w b)"
  have rest: "bindR (call_res a (Mutex_unlock a M' t (bar_mutex (bars w3 b))) w3)
      (\<lambda>w4. bindR (call_res a (Semaphore_acquire C S' (bar_sem (bars w4 b))) w4) (\<lambda>w5. Inr (start_time w5, w5))) =
    bindR (call_res a (Mutex_unlock a M t (bar_mutex (bars w3 b))) w3)
      (\<lambda>w4. bindR (call_res a (Semaphore_acquire C S (bar_sem (bars w4 b))) w4) (\<lambda>w5. Inr (start_time w5, w5)))"
    if "?ok w3" for w3
  proof (rule bindR_same)
    show "call_res a (Mutex_unlock a M' t (bar_mutex (bars w3 b))) w3 = call_res a (Mutex_unlock a M t (bar_mutex (bars w3 b))) w3"
      using that mutex by (intro unlock) simp
    show "bindR (call_res a (Semaphore_acquire C S' (bar_sem (bars w4 b))) w4) (\<lambda>w5. Inr (start_time w5, w5)) =
        bindR (call_res a (Semaphore_acquire C S (bar_sem (bars w4 b))) w4) (\<lambda>w5. Inr (start_time w5, w5))"
      if w4: "call_res a (Mutex_unlock a M t (bar_mutex (bars w3 b))) w3 = Inr w4" for w4
      using acquire [of "bar_sem (bars w4 b)" w4] unlocked [OF w4] \<open>?ok w3\<close> sem by simp
  qed
  have counted: "bindR (if c then release_loop a S' (bar_sem (bars w2 b)) n w2' else Inr w2)
      (\<lambda>w3. bindR (call_res a (Mutex_unlock a M' t (bar_mutex (bars w3 b))) w3)
        (\<lambda>w4. bindR (call_res a (Semaphore_acquire C S' (bar_sem (bars w4 b))) w4) (\<lambda>w5. Inr (start_time w5, w5)))) =
    bindR (if c then release_loop a S (bar_sem (bars w2 b)) n w2' else Inr w2)
      (\<lambda>w3. bindR (call_res a (Mutex_unlock a M t (bar_mutex (bars w3 b))) w3)
        (\<lambda>w4. bindR (call_res a (Semaphore_acquire C S (bar_sem (bars w4 b))) w4) (\<lambda>w5. Inr (start_time w5, w5))))"
    if ok: "?ok w2" "kern w2' = kern w2" "bars w2' = bars w2" for c w2 w2' n
  proof -
    have "(bar_sem (bars w2 b), t) \<in> perms (kern w2')" using ok sem by simp
    note loop = release_loop_user [OF user keeps this, of a n]
    show ?thesis
    proof (cases c)
      case True
      have ok3: "?ok w3" if "release_loop a S (bar_sem (bars w2 b)) n w2' = Inr w3" for w3
        using loop that ok by simp
      show ?thesis unfolding if_P [OF True] conjunct1 [OF loop] by (rule bindR_same [OF refl]) (rule rest, rule ok3)
    qed (use rest ok in simp)
  qed
  show ?thesis
    unfolding Barrier_wait_def Let_def
  proof (rule bindR_same)
    show "call_res a (Mutex_lock a C M' t (bar_mutex (bars w b))) w = call_res a (Mutex_lock a C M t (bar_mutex (bars w b))) w"
      by (rule lock) (rule mutex)
  qed (rule counted; drule locked; simp)
qed

section \<open>Properties\<close>

text \<open>
  C28: a thread that has been granted access to a barrier can wait at it: the call adds exactly the two
  objects of the barrier to what the thread may use, and the calls that wait makes from user mode then
  do what they do in supervisor mode, whatever the kernel answers to a call on another object.
\<close>

theorem barrier_grant_suffices:
  assumes "access_laws G perms" and "keeps_perms S M perms" and "user_calls t perms S M S' M'"
    and "k = Barrier_grant_access G (bars w b) t (kern w)"
  shows "perms k = perms (kern w) \<union> {(bar_sem (bars w b), t), (bar_mutex (bars w b), t)} \<and>
    Barrier_wait a C S' M' t b now (w\<lparr>kern := k\<rparr>) = Barrier_wait a C S M t b now (w\<lparr>kern := k\<rparr>)"
proof -
  have perms: "perms k = perms (kern w) \<union> {(bar_sem (bars w b), t), (bar_mutex (bars w b), t)}"
    using assms(1) unfolding assms(4)
    by (auto simp: access_laws_def Barrier_grant_access_def Semaphore_grant_access_def Mutex_grant_access_def)
  then show ?thesis using Barrier_wait_user [OF assms(3,2), of "w\<lparr>kern := k\<rparr>" b a C now] by simp
qed

text \<open>A kernel whose state is the list of permissions.\<close>

definition demo_access :: "(addr \<times> tid) list access_api" where
  "demo_access = \<lparr>k_object_access_grant = (\<lambda>p t k. (p, t) # k)\<rparr>"

definition demo_sem :: "((addr \<times> tid) list \<Rightarrow> addr \<Rightarrow> bool) \<Rightarrow> (addr \<times> tid) list sem_api" where
  "demo_sem may = \<lparr>k_sem_init = (\<lambda>p n m k. (0, k)), k_sem_take = (\<lambda>p d k. if may k p then Some (0, k) else None),
     k_sem_give = (\<lambda>p k. k)\<rparr>"

definition demo_mutex :: "((addr \<times> tid) list \<Rightarrow> addr \<Rightarrow> bool) \<Rightarrow> (addr \<times> tid) list mutex_api" where
  "demo_mutex may = \<lparr>k_mutex_init = (\<lambda>p k. k), k_mutex_lock = (\<lambda>t p d k. if may k p then Some (0, k) else None),
     k_mutex_unlock = (\<lambda>t p k. (if may k p then 0 else - 1, k))\<rparr>"

definition demo_barriers :: "(addr \<times> tid) list barrier_world" where
  "demo_barriers = \<lparr>kern = [], bars = (\<lambda>_. \<lparr>bar_sem = 10, bar_mutex = 11, bar_count = 1, bar_total = 1\<rparr>), start_time = 0\<rparr>"

lemma demo_access_laws: "access_laws demo_access set"
  "keeps_perms (demo_sem (\<lambda>_ _. True)) (demo_mutex (\<lambda>_ _. True)) set"
  "user_calls 3 set (demo_sem (\<lambda>_ _. True)) (demo_mutex (\<lambda>_ _. True))
     (demo_sem (\<lambda>k p. (p, 3) \<in> set k)) (demo_mutex (\<lambda>k p. (p, 3) \<in> set k))"
  by (simp_all add: access_laws_def keeps_perms_def user_calls_def demo_access_def demo_sem_def demo_mutex_def)

theorem barrier_grant_suffices_witness:
  "Barrier_wait True ref_clock (demo_sem (\<lambda>k p. (p, 3) \<in> set k)) (demo_mutex (\<lambda>k p. (p, 3) \<in> set k)) 3 0 50
      (demo_barriers\<lparr>kern := [(11, 3), (10, 3)]\<rparr>) =
    Barrier_wait True ref_clock (demo_sem (\<lambda>_ _. True)) (demo_mutex (\<lambda>_ _. True)) 3 0 50
      (demo_barriers\<lparr>kern := [(11, 3), (10, 3)]\<rparr>)"
proof -
  have "Barrier_grant_access demo_access (bars demo_barriers 0) 3 (kern demo_barriers) = [(11, 3), (10, 3)]"
    by (simp add: Barrier_grant_access_def Semaphore_grant_access_def Mutex_grant_access_def demo_access_def demo_barriers_def)
  with barrier_grant_suffices [OF demo_access_laws refl, of demo_barriers 0 True ref_clock 50] show ?thesis by simp
qed

text \<open>
  C29: a thread that has been granted access to a DigitalOut still cannot use it: the ports are granted,
  while the system calls of write and read check the access to their own driver. Unless the thread has
  that access already, write fails and changes nothing and read answers true, whatever the level.
\<close>

theorem digital_out_grant_misses_driver:
  assumes "access_laws G perms" and "out_userspace env" and "from_user env"
    and "\<And>d k. driver_check env d k \<longleftrightarrow> (d, t) \<notin> perms k" and "0 < out_errno env ''EINVAL''"
    and "out_spec ob = Some g" and "gpio_device ob = Some dev" and "dev \<notin> {port led, port g}" and "(dev, t) \<notin> perms k"
  shows "\<exists>k'. DigitalOut_grant_access G led ob t k = Inr k' \<and> perms k' = perms k \<union> {(port led, t), (port g, t)} \<and>
    DigitalOut_write env ob v k' = Inr (r_assign_error (ret_code (neg_errno (out_errno env) ''EINVAL'')) ZephyrResult, k') \<and>
    DigitalOut_read env ob k' = Inr True"
proof -
  let ?k' = "k_object_access_grant G (port g) t (k_object_access_grant G (port led) t k)"
  have perms: "perms ?k' = perms k \<union> {(port led, t), (port g, t)}" using assms(1) by (auto simp: access_laws_def)
  then have "driver_check env dev ?k'" using assms(4,8,9) by auto
  with perms assms(2,3,5-7) show ?thesis
    by (intro exI [of _ ?k']) (simp add: DigitalOut_grant_access_def DigitalOut_write_def DigitalOut_read_def neg_errno_def
        gpio_syscall_set_def gpio_syscall_get_def z_vrfy_gpio_syscall_set_def z_vrfy_gpio_syscall_get_def)
qed

text \<open>A board with the pin 2 of port 4 as its output, whose input always reads 0.\<close>

definition dark_gpio :: "(addr \<times> tid) list gpio_api" where
  "dark_gpio = \<lparr>gpio_is_ready_dt = (\<lambda>_ _. True), gpio_pin_configure_dt = (\<lambda>_ _ k. (0, k)),
     gpio_pin_interrupt_configure_dt = (\<lambda>_ _ k. (0, k)), gpio_pin_set = (\<lambda>_ _ _ k. (0, k)), gpio_pin_get = (\<lambda>_ _ _. 0),
     gpio_pin_set_dt = (\<lambda>_ _ k. (0, k)), gpio_pin_get_dt = (\<lambda>_ _. 0), gpio_init_callback = (\<lambda>_ _ k. k),
     gpio_add_callback = (\<lambda>_ _ k. (0, k)), gpio_remove_callback = (\<lambda>_ _ k. (0, k))\<rparr>"

definition dark_env :: "tid \<Rightarrow> (addr \<times> tid) list out_env" where
  "dark_env t = \<lparr>out_assert = True, out_userspace = True, leds = [0 \<mapsto> \<lparr>port = 4, pin = 2\<rparr>],
     out_errno = (\<lambda>_. 22), out_gpio = dark_gpio, from_user = True, driver_check = (\<lambda>d k. (d, t) \<notin> set k),
     dev_api = (\<lambda>_. gpio_syscall_api dark_gpio), device_get_binding = (\<lambda>_ _. Some 70),
     k_thread_access_grant = (\<lambda>d k. (d, t) # k)\<rparr>"

theorem digital_out_grant_misses_driver_witness:
  "\<exists>k'. DigitalOut_grant_access demo_access \<lparr>port = 4, pin = 2\<rparr>
      \<lparr>out_spec = Some \<lparr>port = 4, pin = 2\<rparr>, gpio_device = Some 70\<rparr> 3 [(70, 1)] = Inr k' \<and>
    DigitalOut_read (dark_env 3) \<lparr>out_spec = Some \<lparr>port = 4, pin = 2\<rparr>, gpio_device = Some 70\<rparr> k' = Inr True"
  using digital_out_grant_misses_driver [OF demo_access_laws(1), of "dark_env 3" 3
      "\<lparr>out_spec = Some \<lparr>port = 4, pin = 2\<rparr>, gpio_device = Some 70\<rparr>" "\<lparr>port = 4, pin = 2\<rparr>" 70 "\<lparr>port = 4, pin = 2\<rparr>" "[(70, 1)]"]
  by (auto simp: dark_env_def)

end
