(* ===== verification/Mutex_Exclusion.thy ===== *)
theory Mutex_Exclusion
  imports Mutex_Class
begin

text \<open>
  Several threads calling one \<open>Mutex\<close>, in any order. A call is one step, since the class adds no
  statement of its own around the kernel call; a thread that has to wait makes no step. The trace
  records which calls took or gave back the lock, and the properties are about what it can contain.
  The build without assertions is used, so that a refused call is a result and not the end of the program.
\<close>

section \<open>Calls of several threads\<close>

datatype lock_op = Lock_op | Try_lock_op | Unlock_op

text \<open>One call of thread \<open>t\<close>; whether it succeeded is what the caller reads from the result.\<close>

fun mutex_call ::
  "errno_values \<Rightarrow> clock_api \<Rightarrow> 'k mutex_api \<Rightarrow> addr \<Rightarrow> tid \<Rightarrow> lock_op \<Rightarrow> 'k \<Rightarrow> (bool \<times> 'k) run" where
  "mutex_call E C M p t Lock_op k = bindR (Mutex_lock False C M t p k) (\<lambda>(res, k'). Inr (r_bool res, k'))"
| "mutex_call E C M p t Try_lock_op k =
     bindR (Mutex_try_lock False E C M t p k) (\<lambda>(res, k'). bindR (b_bool False res) (\<lambda>ok. Inr (ok, k')))"
| "mutex_call E C M p t Unlock_op k = bindR (Mutex_unlock False M t p k) (\<lambda>(res, k'). Inr (r_bool res, k'))"

fun mutex_calls ::
  "errno_values \<Rightarrow> clock_api \<Rightarrow> 'k mutex_api \<Rightarrow> addr \<Rightarrow> (tid \<times> lock_op) list \<Rightarrow> 'k \<Rightarrow>
    ((tid \<times> lock_op \<times> bool) list \<times> 'k) run" where
  "mutex_calls E C M p [] k = Inr ([], k)"
| "mutex_calls E C M p ((t, op) # cs) k =
     bindR (mutex_call E C M p t op k) (\<lambda>(ok, k1).
     bindR (mutex_calls E C M p cs k1) (\<lambda>(tr, k2). Inr ((t, op, ok) # tr, k2)))"

section \<open>The specification\<close>

text \<open>
  A recursive lock: its owner and how often the owner has locked it. \<open>None\<close> as a result: the caller
  waits.
\<close>

fun lock_spec :: "tid \<Rightarrow> lock_op \<Rightarrow> (tid \<times> nat) option \<Rightarrow> (bool \<times> (tid \<times> nat) option) option" where
  "lock_spec t Unlock_op None = Some (False, None)"
| "lock_spec t Unlock_op (Some (u, n)) =
     Some (if u = t then (True, if n = 1 then None else Some (t, n - 1)) else (False, Some (u, n)))"
| "lock_spec t op None = Some (True, Some (t, 1))"
| "lock_spec t Lock_op (Some (u, n)) = (if u = t then Some (True, Some (t, Suc n)) else None)"
| "lock_spec t Try_lock_op (Some (u, n)) = Some (if u = t then (True, Some (t, Suc n)) else (False, Some (u, n)))"

fun lock_specs :: "(tid \<times> lock_op) list \<Rightarrow> (tid \<times> nat) option \<Rightarrow> ((tid \<times> lock_op \<times> bool) list \<times> (tid \<times> nat) option) option" where
  "lock_specs [] m = Some ([], m)"
| "lock_specs ((t, op) # cs) m = (case lock_spec t op m of None \<Rightarrow> None
     | Some (ok, m1) \<Rightarrow> (case lock_specs cs m1 of None \<Rightarrow> None | Some (tr, m2) \<Rightarrow> Some ((t, op, ok) # tr, m2)))"

text \<open>A lock state that can occur: an owner has locked at least once.\<close>

definition lock_wf :: "(tid \<times> nat) option \<Rightarrow> bool" where
  "lock_wf m \<longleftrightarrow> (\<forall>t n. m = Some (t, n) \<longrightarrow> 0 < n)"

lemma lock_spec_wf: "lock_wf m \<Longrightarrow> lock_spec t op m = Some (ok, m') \<Longrightarrow> lock_wf m'"
  by (cases op; cases m) (auto simp: lock_wf_def split: if_splits)

lemma mutex_try_other:
  assumes "mutex_laws E C M V" and "errno_laws E" and "clock_laws C" and "mx V k p = Some (u, n)" and "u \<noteq> t"
  shows "mutex_call E C M p t Try_lock_op k = Inr (False, k)"
proof -
  have lock: "k_mutex_lock M t p (K_MSEC C 0) k = Some (neg_errno E ''EBUSY'', k)"
    using assms by (simp add: clock_laws_def mutex_lock_no_wait)
  have ne: "neg_errno E ''EBUSY'' \<noteq> neg_errno E ''EAGAIN''" "neg_errno E ''EBUSY'' \<noteq> 0"
    using assms(2) by (auto simp: errno_laws_def neg_errno_def)
  then show ?thesis
    by (simp add: Mutex_try_lock_def Mutex_try_lock_for_def lock result_defs ZPP_ASSERT_def)
qed

lemma mutex_call_spec:
  assumes laws: "mutex_laws E C M V" "errno_laws E" "clock_laws C" and wf: "lock_wf (mx V k p)"
  shows "case lock_spec t op (mx V k p) of
      None \<Rightarrow> mutex_call E C M p t op k = Inl Stuck
    | Some (ok, m) \<Rightarrow> \<exists>k'. mutex_call E C M p t op k = Inr (ok, k') \<and> mx V k' = (mx V k)(p := m)"
proof (cases "mx V k p")
  case None
  have same: "(mx V k)(p := None) = mx V k" using None by (simp add: fun_eq_iff)
  show ?thesis
  proof (cases op)
    case Unlock_op
    then show ?thesis using None same mutex_unlock_free [OF laws(1) None, of t] laws(2)
      by (simp add: Mutex_unlock_def ZPP_ASSERT_def neg_errno_nonzero result_defs)
  next
    case Lock_op
    then show ?thesis using None mutex_lock_free [OF laws(1) None, of t "K_FOREVER C"]
      by (auto simp: Mutex_lock_def result_defs)
  next
    case Try_lock_op
    then show ?thesis using None mutex_lock_free [OF laws(1) None, of t "K_MSEC C 0"] laws(2)
      by (auto simp: Mutex_try_lock_def Mutex_try_lock_for_def neg_errno_nonzero result_defs)
  qed
next
  case (Some x)
  obtain u n where x: "mx V k p = Some (u, Suc n)"
    using Some wf by (cases x; cases "snd x") (auto simp: lock_wf_def)
  have same: "(mx V k)(p := Some (u, Suc n)) = mx V k" using x by (simp add: fun_eq_iff)
  show ?thesis
  proof (cases "u = t")
    case True
    note x = x [unfolded True]
    show ?thesis
    proof (cases op)
      case Unlock_op
      then show ?thesis using x mutex_unlock_owner [OF laws(1) x] by (auto simp: Mutex_unlock_def result_defs)
    next
      case Lock_op
      then show ?thesis using x mutex_lock_owner [OF laws(1) x, of "K_FOREVER C"] by (auto simp: Mutex_lock_def result_defs)
    next
      case Try_lock_op
      then show ?thesis using x mutex_lock_owner [OF laws(1) x, of "K_MSEC C 0"] laws(2)
        by (auto simp: Mutex_try_lock_def Mutex_try_lock_for_def neg_errno_nonzero result_defs)
    qed
  next
    case False
    show ?thesis
    proof (cases op)
      case Unlock_op
      have "k_mutex_unlock M t p k = (neg_errno E ''EPERM'', k)" using laws(1) x False by (simp add: mutex_laws_def)
      then show ?thesis using Unlock_op x same False laws(2)
        by (simp add: Mutex_unlock_def ZPP_ASSERT_def neg_errno_nonzero result_defs)
    next
      case Lock_op
      then show ?thesis using x False mutex_lock_forever [OF laws(1) x False] by (simp add: Mutex_lock_def)
    next
      case Try_lock_op
      then show ?thesis using x same False mutex_try_other [OF laws x False] by simp
    qed
  qed
qed

lemma mutex_calls_spec:
  assumes "mutex_laws E C M V" and "errno_laws E" and "clock_laws C"
  shows "lock_wf (mx V k p) \<Longrightarrow> (case lock_specs cs (mx V k p) of
      None \<Rightarrow> mutex_calls E C M p cs k = Inl Stuck
    | Some (tr, m) \<Rightarrow> \<exists>k'. mutex_calls E C M p cs k = Inr (tr, k') \<and> mx V k' = (mx V k)(p := m))"
proof (induction cs arbitrary: k)
  case Nil
  then show ?case by (simp add: fun_eq_iff)
next
  case (Cons c cs)
  obtain t op where c: "c = (t, op)" by (cases c)
  note call = mutex_call_spec [OF assms Cons.prems, of t op]
  show ?case
  proof (cases "lock_spec t op (mx V k p)")
    case None
    then show ?thesis using call by (simp add: c)
  next
    case (Some r)
    obtain ok m where r: "r = (ok, m)" by (cases r)
    obtain k1 where k1: "mutex_call E C M p t op k = Inr (ok, k1)" "mx V k1 = (mx V k)(p := m)"
      using call Some r by auto
    have "lock_wf (mx V k1 p)" using lock_spec_wf [OF Cons.prems] Some r k1(2) by simp
    then have "case lock_specs cs m of None \<Rightarrow> mutex_calls E C M p cs k1 = Inl Stuck
      | Some (tr, m') \<Rightarrow> \<exists>k'. mutex_calls E C M p cs k1 = Inr (tr, k') \<and> mx V k' = (mx V k1)(p := m')"
      using Cons.IH [of k1] k1(2) by simp
    then show ?thesis using Some r k1 by (fastforce simp: c split: option.splits)
  qed
qed

section \<open>How deep a thread holds the lock\<close>

text \<open>Calls that took the lock minus calls that gave it back.\<close>

fun depth :: "tid \<Rightarrow> (tid \<times> lock_op \<times> bool) list \<Rightarrow> int" where
  "depth t [] = 0"
| "depth t ((u, op, ok) # tr) =
     (if u = t \<and> ok then (if op = Unlock_op then - 1 else 1) else 0) + depth t tr"

definition held_by :: "tid \<Rightarrow> (tid \<times> nat) option \<Rightarrow> int" where
  "held_by t m = (case m of None \<Rightarrow> 0 | Some (u, n) \<Rightarrow> if u = t then int n else 0)"

lemma lock_spec_depth:
  "lock_wf m \<Longrightarrow> lock_spec u op m = Some (ok, m') \<Longrightarrow> held_by t m' = held_by t m + depth t [(u, op, ok)]"
  by (cases op; cases m) (auto simp: held_by_def lock_wf_def split: if_splits)

lemma lock_specs_depth:
  "lock_wf m \<Longrightarrow> lock_specs cs m = Some (tr, m') \<Longrightarrow> lock_wf m' \<and> held_by t m' = held_by t m + depth t tr"
proof (induction cs arbitrary: m tr)
  case (Cons c cs)
  obtain u op where c: "c = (u, op)" by (cases c)
  with Cons.prems(2) obtain ok m1 tr1 where m1: "lock_spec u op m = Some (ok, m1)" "lock_specs cs m1 = Some (tr1, m')"
    "tr = (u, op, ok) # tr1" by (auto split: option.splits)
  show ?case
    using lock_spec_depth [OF Cons.prems(1) m1(1)] Cons.IH [OF lock_spec_wf [OF Cons.prems(1) m1(1)] m1(2)]
    by (simp add: m1(3))
qed simp

lemma lock_specs_snoc:
  "lock_specs cs m = Some (tr, m') \<Longrightarrow> lock_specs (cs @ [(t, op)]) m = None \<longleftrightarrow> lock_spec t op m' = None"
  by (induction cs arbitrary: m tr) (auto split: option.splits)

section \<open>Properties\<close>

text \<open>
  C3: a Mutex excludes. However the calls of lock, try_lock and unlock of any threads are interleaved,
  a thread never gives the lock back more often than it took it, at most one thread has
  taken it more often than given it back, and a further lock waits exactly when that is another thread;
  the mutex is free exactly when every thread has given back what it took.
\<close>

theorem mutex_excludes:
  assumes "mutex_laws E C M V" and "errno_laws E" and "clock_laws C" and "mx V k p = None"
    and "mutex_calls E C M p cs k = Inr (tr, k')"
  shows "(\<forall>t. 0 \<le> depth t tr) \<and> (\<forall>t u. 0 < depth t tr \<and> 0 < depth u tr \<longrightarrow> t = u) \<and>
    (\<forall>t. mutex_calls E C M p (cs @ [(t, Lock_op)]) k = Inl Stuck \<longleftrightarrow> (\<exists>u. u \<noteq> t \<and> 0 < depth u tr)) \<and>
    (mx V k' p = None \<longleftrightarrow> (\<forall>t. depth t tr = 0))"
proof -
  have wf: "lock_wf (mx V k p)" by (simp add: assms(4) lock_wf_def)
  note spec = mutex_calls_spec [OF assms(1-3) wf]
  obtain m where m: "lock_specs cs None = Some (tr, m)" "mx V k' = (mx V k)(p := m)"
  proof (cases "lock_specs cs None")
    case None
    then show ?thesis using spec [of cs] assms(4,5) by simp
  next
    case (Some x)
    then show ?thesis using that spec [of cs] assms(4,5) by (cases x) simp
  qed
  have wfm: "lock_wf m" and depth: "depth t tr = held_by t m" for t
    using lock_specs_depth [OF _ m(1)] by (simp_all add: lock_wf_def held_by_def)
  have stuck: "mutex_calls E C M p (cs @ [(t, Lock_op)]) k = Inl Stuck \<longleftrightarrow> lock_spec t Lock_op m = None" for t
  proof (cases "lock_specs (cs @ [(t, Lock_op)]) None")
    case None
    then show ?thesis using spec [of "cs @ [(t, Lock_op)]"] lock_specs_snoc [OF m(1), of t Lock_op] assms(4) by simp
  next
    case (Some x)
    then show ?thesis
      using spec [of "cs @ [(t, Lock_op)]"] lock_specs_snoc [OF m(1), of t Lock_op] assms(4) by (cases x) auto
  qed
  show ?thesis
  proof (cases m)
    case None
    then show ?thesis using m(2) stuck by (simp add: depth held_by_def)
  next
    case (Some x)
    then obtain u n where "m = Some (u, n)" "0 < n" using wfm by (cases x) (auto simp: lock_wf_def)
    then show ?thesis using m(2) stuck by (auto simp: depth held_by_def)
  qed
qed

theorem mutex_excludes_witness:
  "\<exists>k'. mutex_calls ref_errno ref_clock ref_mutex 7
      [(1, Lock_op), (2, Try_lock_op), (1, Lock_op), (1, Unlock_op), (2, Unlock_op)] rk0 =
      Inr ([(1, Lock_op, True), (2, Try_lock_op, False), (1, Lock_op, True), (1, Unlock_op, True), (2, Unlock_op, False)], k') \<and>
    rk_mx k' 7 \<noteq> None"
proof -
  let ?cs = "[(1, Lock_op), (2, Try_lock_op), (1, Lock_op), (1, Unlock_op), (2, Unlock_op)] :: (tid \<times> lock_op) list"
  have free: "mx ref_view rk0 7 = None" by (simp add: rk0_def)
  obtain k' where k': "mutex_calls ref_errno ref_clock ref_mutex 7 ?cs rk0 =
      Inr ([(1, Lock_op, True), (2, Try_lock_op, False), (1, Lock_op, True), (1, Unlock_op, True), (2, Unlock_op, False)], k')"
    using mutex_calls_spec [OF ref_mutex_laws ref_errno_laws ref_clock_laws, of rk0 7 ?cs] free
    by (auto simp: lock_wf_def)
  note conjunct2 [OF conjunct2 [OF conjunct2 [OF mutex_excludes [OF ref_mutex_laws ref_errno_laws ref_clock_laws free k']]]]
  then have "rk_mx k' 7 \<noteq> None" by (auto dest: spec [of _ 1])
  with k' show ?thesis by blast
qed

end
