(* ===== verification/Event_Race.thy ===== *)
theory Event_Race
  imports Event_Class
begin

text \<open>
  \<open>Event::wait_any\<close> and \<open>Event::try_wait_any_for\<close> are two kernel calls each: waiting without
  clearing, then clearing. Between the two another thread or an interrupt may set the same flag. The
  statements of several calls are interleaved here; \<open>one_bit\<close> says what an interleaving can do.
\<close>

unbundle bit_operations_syntax

section \<open>The calls, statement by statement\<close>

datatype event_statement = Wait u32 | Clear u32 | Set u32

fun event_stmt :: "bool \<Rightarrow> clock_api \<Rightarrow> 'k event_api \<Rightarrow> addr \<Rightarrow> event_statement \<Rightarrow> 'k \<Rightarrow> 'k run" where
  "event_stmt q C A p (Wait f) k = (case k_event_wait A p f False (K_FOREVER C) k of
     None \<Rightarrow> Inl Stuck | Some (ret, k') \<Rightarrow> Inr k')"
| "event_stmt q C A p (Clear f) k = Inr (k_event_clear A p f k)"
| "event_stmt q C A p (Set f) k = Inr (Event_set q A f p k)"

fun event_stmts :: "bool \<Rightarrow> clock_api \<Rightarrow> 'k event_api \<Rightarrow> addr \<Rightarrow> event_statement list \<Rightarrow> 'k \<Rightarrow> 'k run" where
  "event_stmts q C A p [] k = Inr k"
| "event_stmts q C A p (x # xs) k = bindR (event_stmt q C A p x k) (event_stmts q C A p xs)"

definition wait_any_code :: "u32 \<Rightarrow> event_statement list" where
  "wait_any_code f = [Wait f, Clear f]"

text \<open>A call that is not interrupted is \<open>wait_any\<close>.\<close>

lemma wait_any_alone: "event_stmts q C A p (wait_any_code f) k = Event_wait_any C A f p k"
  by (simp add: wait_any_code_def Event_wait_any_def split: option.splits)

lemma event_stmts_append:
  "event_stmts q C A p (xs @ ys) k = bindR (event_stmts q C A p xs k) (event_stmts q C A p ys)"
proof (induction xs arbitrary: k)
  case (Cons x xs)
  then have "event_stmts q C A p (xs @ ys) = (\<lambda>k. bindR (event_stmts q C A p xs k) (event_stmts q C A p ys))" by blast
  then show ?case by (simp add: bindR_assoc)
qed simp

section \<open>One flag is one bit\<close>

text \<open>The same statements on a bit; \<open>None\<close>: the waiting thread never goes on.\<close>

fun one_bit :: "event_statement list \<Rightarrow> bool \<Rightarrow> bool option" where
  "one_bit [] b = Some b"
| "one_bit (Wait f # xs) b = (if b then one_bit xs b else None)"
| "one_bit (Clear f # xs) b = one_bit xs False"
| "one_bit (Set f # xs) b = one_bit xs True"

lemma AND_NOT_self: "(x AND NOT f) AND f = 0" for x f :: u32
  by (simp add: bit_eq_iff bit_simps)

lemma OR_AND_self: "(x OR f) AND f = f" for x f :: u32
  by (auto simp: bit_eq_iff bit_simps)

lemma event_stmts_one_bit:
  assumes "event_laws C A V" and "f \<noteq> 0"
  shows "set xs \<subseteq> {Wait f, Clear f, Set f} \<Longrightarrow>
    (case one_bit xs (ev V k p AND f \<noteq> 0) of
       None \<Rightarrow> event_stmts q C A p xs k = Inl Stuck
     | Some b \<Rightarrow> \<exists>k'. event_stmts q C A p xs k = Inr k' \<and> (ev V k' p AND f \<noteq> 0) = b)"
proof (induction xs arbitrary: k)
  case (Cons x xs)
  then consider "x = Wait f" | "x = Clear f" | "x = Set f" by auto
  then show ?case
  proof cases
    case 1
    show ?thesis
    proof (cases "ev V k p AND f = 0")
      case True
      then show ?thesis using event_wait_forever [OF assms(1) True] by (simp add: 1)
    next
      case False
      have "event_stmts q C A p (x # xs) k = event_stmts q C A p xs k"
        using event_wait_posted [OF assms(1) False] by (simp add: 1)
      moreover have "one_bit (x # xs) (ev V k p AND f \<noteq> 0) = one_bit xs (ev V k p AND f \<noteq> 0)"
        using False by (simp add: 1)
      ultimately show ?thesis using Cons.IH [of k] Cons.prems by (simp only: list.set insert_subset)
    qed
  next
    case 2
    let ?k1 = "k_event_clear A p f k"
    have "event_stmts q C A p (x # xs) k = event_stmts q C A p xs ?k1" by (simp add: 2)
    moreover have "one_bit (x # xs) (ev V k p AND f \<noteq> 0) = one_bit xs (ev V ?k1 p AND f \<noteq> 0)"
      using event_clear_view(1) [OF assms(1), of p f k] by (simp add: 2 AND_NOT_self)
    ultimately show ?thesis using Cons.IH [of ?k1] Cons.prems by (simp only: list.set insert_subset)
  next
    case 3
    let ?k1 = "Event_set q A f p k"
    have "event_stmts q C A p (x # xs) k = event_stmts q C A p xs ?k1" by (simp add: 3)
    moreover have "one_bit (x # xs) (ev V k p AND f \<noteq> 0) = one_bit xs (ev V ?k1 p AND f \<noteq> 0)"
      using event_set_view(1) [OF assms(1), of q f p k] assms(2) by (simp add: 3 OR_AND_self)
    ultimately show ?thesis using Cons.IH [of ?k1] Cons.prems by (simp only: list.set insert_subset)
  qed
qed simp

section \<open>Properties\<close>

text \<open>
  C36: \<open>wait_any\<close> can lose an event. One thread sets a flag twice and another waits for it twice,
  and each wait has its set: run one after the other, both waits return. But when the second set
  comes between the kernel's wait and the clear of the first call, it is cleared with the first, and
  the second wait blocks for ever although nobody else uses the event.
\<close>

theorem wait_any_loses_event:
  assumes "event_laws C A V" and "f \<noteq> 0" and "ev V k p AND f = 0"
    and "fair = [Set f, Wait f, Clear f, Set f, Wait f, Clear f]"
    and "unlucky = [Set f, Wait f, Set f, Clear f]"
  shows "fair \<in> shuffles [Set f, Set f] (wait_any_code f @ wait_any_code f) \<and>
    (\<exists>k'. event_stmts q C A p fair k = Inr k') \<and>
    unlucky @ wait_any_code f \<in> shuffles [Set f, Set f] (wait_any_code f @ wait_any_code f) \<and>
    (\<exists>k'. event_stmts q C A p unlucky k = Inr k' \<and> Event_wait_any C A f p k' = Inl Stuck)"
proof -
  note bit = event_stmts_one_bit [OF assms(1,2)]
  have "set fair \<subseteq> {Wait f, Clear f, Set f}" "set unlucky \<subseteq> {Wait f, Clear f, Set f}"
    by (auto simp: assms(4,5))
  note fair = bit [OF this(1), where k = k and p = p and q = q] and unlucky = bit [OF this(2), where k = k and p = p and q = q]
  obtain k' where k': "event_stmts q C A p unlucky k = Inr k'" "ev V k' p AND f = 0"
    using unlucky by (auto simp: assms(3,5))
  have "\<exists>k'. event_stmts q C A p fair k = Inr k'" using fair by (auto simp: assms(3,4))
  with k' event_wait_any_blocks [OF assms(1) k'(2)] show ?thesis
    by (auto simp: assms(4,5) wait_any_code_def Cons_in_shuffles_iff)
qed

theorem wait_any_loses_event_witness:
  "\<exists>k'. event_stmts False ref_clock ref_event 9 [Set 1, Wait 1, Set 1, Clear 1] rk0 = Inr k' \<and>
    Event_wait_any ref_clock ref_event 1 9 k' = Inl Stuck"
proof -
  have "(1 :: u32) \<noteq> 0" "ev ref_view rk0 9 AND 1 = 0" by (simp_all add: rk0_def)
  note wait_any_loses_event [OF ref_event_laws this refl refl, of False]
  then show ?thesis by blast
qed

end
