(* ===== verification/Join_Race.thy ===== *)
theory Join_Race
  imports Thread_Race
begin

text \<open>
  \<open>Thread::join\<close> called for one object by two threads. The call tests \<open>_tid\<close> under the mutex, then
  unlocks it and reads \<open>_tid\<close> again for \<open>k_thread_join\<close>. \<open>join_stmt\<close> executes one statement of the
  call; a call that nothing interrupts is \<open>Thread_join\<close>.
\<close>

section \<open>The statements of join\<close>

text \<open>The statement a caller is about to execute; \<open>res\<close> is the local variable at that point.\<close>

datatype join_pc =
    J_lock | J_test | J_unlock | J_join zephyr_result | J_relock | J_reset | J_leave | J_return zephyr_result

definition asserted ::
  "'k thread_env \<Rightarrow> (('k, 'f) thread_world \<Rightarrow> (zephyr_result \<times> ('k, 'f) thread_world) run) \<Rightarrow>
    ('k, 'f) thread_world \<Rightarrow> (zephyr_result \<times> ('k, 'f) thread_world) run" where
  "asserted env f w = bindR (f w) (\<lambda>(res, w). bindR (ZPP_ASSERT (config_assert env) (r_bool res)) (\<lambda>_. Inr (res, w)))"

fun join_stmt ::
  "'k thread_env \<Rightarrow> tid \<Rightarrow> addr \<Rightarrow> join_pc \<Rightarrow> ('k, 'f) thread_world \<Rightarrow> (join_pc \<times> ('k, 'f) thread_world) run" where
  "join_stmt env me o1 J_lock w =
     bindR (asserted env (obj_lock env me (th_mutex (objs w o1))) w) (\<lambda>(res, w). Inr (J_test, w))"
| "join_stmt env me o1 J_test w = Inr (if th_tid (objs w o1) \<noteq> None then J_unlock else J_leave, w)"
| "join_stmt env me o1 J_unlock w =
     bindR (asserted env (obj_unlock env me (th_mutex (objs w o1))) w) (\<lambda>(res, w). Inr (J_join res, w))"
| "join_stmt env me o1 (J_join res) w = (case th_tid (objs w o1) of
     None \<Rightarrow> Inl Undef
   | Some t \<Rightarrow>
      (case k_thread_join (env_thread env) t (K_FOREVER (env_clock env)) (tkern w) of
         None \<Rightarrow> Inl Stuck
       | Some (ret, k) \<Rightarrow>
           let w = w\<lparr>tkern := k\<rparr> in
           if ret \<noteq> 0 then Inr (J_return (r_assign_error (ret_code ret) res), w) else Inr (J_relock, w)))"
| "join_stmt env me o1 J_relock w =
     bindR (asserted env (obj_lock env me (th_mutex (objs w o1))) w) (\<lambda>(res, w). Inr (J_reset, w))"
| "join_stmt env me o1 J_reset w = Inr (J_leave, set_obj o1 ((objs w o1)\<lparr>th_tid := None\<rparr>) w)"
| "join_stmt env me o1 J_leave w =
     bindR (asserted env (obj_unlock env me (th_mutex (objs w o1))) w) (\<lambda>(res, w). Inr (J_return res, w))"
| "join_stmt env me o1 (J_return res) w = Inr (J_return res, w)"

fun join_alone ::
  "'k thread_env \<Rightarrow> tid \<Rightarrow> addr \<Rightarrow> nat \<Rightarrow> join_pc \<Rightarrow> ('k, 'f) thread_world \<Rightarrow> (join_pc \<times> ('k, 'f) thread_world) run" where
  "join_alone env me o1 0 pc w = Inr (pc, w)"
| "join_alone env me o1 (Suc n) pc w = bindR (join_stmt env me o1 pc w) (\<lambda>(pc, w). join_alone env me o1 n pc w)"

text \<open>Several callers; the list says whose turn it is.\<close>

fun join_sched ::
  "'k thread_env \<Rightarrow> addr \<Rightarrow> tid list \<Rightarrow> (tid \<Rightarrow> join_pc) \<times> ('k, 'f) thread_world \<Rightarrow>
    ((tid \<Rightarrow> join_pc) \<times> ('k, 'f) thread_world) run" where
  "join_sched env o1 [] s = Inr s"
| "join_sched env o1 (me # ts) (pcs, w) =
     bindR (join_stmt env me o1 (pcs me) w) (\<lambda>(pc, w). join_sched env o1 ts (pcs(me := pc), w))"

lemma asserted_frame: "asserted env (obj_lock env me p) w = Inr (res, w') \<Longrightarrow> objs w' = objs w"
  "asserted env (obj_unlock env me p) w = Inr (res, w') \<Longrightarrow> objs w' = objs w"
  by (auto simp: asserted_def obj_lock_def obj_unlock_def on_kern_def bindR_eq_Inr)

lemma join_alone_returned: "join_alone env me o1 n (J_return res) w = Inr (J_return res, w)"
  by (induction n) simp_all

lemma join_alone_leave:
  "join_alone env me o1 (Suc n) J_leave w =
    bindR (asserted env (obj_unlock env me (th_mutex (objs w o1))) w) (\<lambda>(res, w). Inr (J_return res, w))"
  by (cases "asserted env (obj_unlock env me (th_mutex (objs w o1))) w") (auto simp: join_alone_returned)

text \<open>\<open>Thread_join\<close> written with \<open>asserted\<close>.\<close>

lemma Thread_join_asserted:
  fixes w :: "('k, 'f) thread_world" and o1 :: addr
  defines "p \<equiv> th_mutex (objs w o1)"
  shows "Thread_join env me o1 w = bindR (asserted env (obj_lock env me p) w) (\<lambda>(_, w1).
    case th_tid (objs w1 o1) of None \<Rightarrow> asserted env (obj_unlock env me p) w1
    | Some t \<Rightarrow> bindR (asserted env (obj_unlock env me p) w1) (\<lambda>(res, w2).
        case k_thread_join (env_thread env) t (K_FOREVER (env_clock env)) (tkern w2) of None \<Rightarrow> Inl Stuck
        | Some (ret, k) \<Rightarrow>
            let w3 = w2\<lparr>tkern := k\<rparr> in
            if ret \<noteq> 0 then Inr (r_assign_error (ret_code ret) res, w3)
            else bindR (asserted env (obj_lock env me p) w3) (\<lambda>(_, w4).
              asserted env (obj_unlock env me p) (set_obj o1 ((objs w4 o1)\<lparr>th_tid := None\<rparr>) w4))))"
proof -
  have split: "bindR (asserted env f v) (\<lambda>(res, v). g res v) =
      bindR (f v) (\<lambda>(res, v). bindR (ZPP_ASSERT (config_assert env) (r_bool res)) (\<lambda>_. g res v))" for f g and v :: "('k, 'f) thread_world"
    by (simp add: asserted_def bindR_assoc split_def)
  show ?thesis
    unfolding Thread_join_def Let_def p_def [symmetric] split unfolding asserted_def ..
qed

lemma join_alone_relock:
  "join_alone env me o1 (Suc (Suc (Suc n))) J_relock w =
    bindR (asserted env (obj_lock env me (th_mutex (objs w o1))) w) (\<lambda>(_, w4).
      bindR (asserted env (obj_unlock env me (th_mutex (objs w o1))) (set_obj o1 ((objs w4 o1)\<lparr>th_tid := None\<rparr>) w4))
        (\<lambda>(res, w). Inr (J_return res, w)))"
proof (cases "asserted env (obj_lock env me (th_mutex (objs w o1))) w")
  case (Inr x)
  obtain r w4 where x: "x = (r, w4)" by (cases x)
  have "th_mutex (objs (set_obj o1 ((objs w4 o1)\<lparr>th_tid := None\<rparr>) w4) o1) = th_mutex (objs w o1)"
    using asserted_frame(1) [OF Inr [unfolded x]] by (simp add: set_obj_def)
  then show ?thesis
    using Inr x join_alone_leave [of env me o1 n "set_obj o1 ((objs w4 o1)\<lparr>th_tid := None\<rparr>) w4"] by simp
qed simp

lemma join_alone_joining:
  assumes "th_tid (objs w o1) = Some t"
  shows "join_alone env me o1 (Suc (Suc (Suc (Suc n)))) (J_join res) w =
    (case k_thread_join (env_thread env) t (K_FOREVER (env_clock env)) (tkern w) of None \<Rightarrow> Inl Stuck
     | Some (ret, k) \<Rightarrow>
         let w3 = w\<lparr>tkern := k\<rparr> in
         if ret \<noteq> 0 then Inr (J_return (r_assign_error (ret_code ret) res), w3)
         else bindR (asserted env (obj_lock env me (th_mutex (objs w o1))) w3) (\<lambda>(_, w4).
           bindR (asserted env (obj_unlock env me (th_mutex (objs w o1))) (set_obj o1 ((objs w4 o1)\<lparr>th_tid := None\<rparr>) w4))
             (\<lambda>(res, w). Inr (J_return res, w))))"
proof (cases "k_thread_join (env_thread env) t (K_FOREVER (env_clock env)) (tkern w)")
  case (Some z)
  obtain ret k where z: "z = (ret, k)" by (cases z)
  have same: "th_mutex (objs (w\<lparr>tkern := k\<rparr>) o1) = th_mutex (objs w o1)" by simp
  show ?thesis
  proof (cases "ret = 0")
    case True
    then have "join_alone env me o1 (Suc (Suc (Suc (Suc n)))) (J_join res) w =
        join_alone env me o1 (Suc (Suc (Suc n))) J_relock (w\<lparr>tkern := k\<rparr>)"
      using assms Some z by simp
    then show ?thesis unfolding join_alone_relock same using Some z True by (simp add: Let_def)
  next
    case False
    then show ?thesis using assms Some z by (simp add: join_alone_returned)
  qed
qed (use assms in simp)

text \<open>A call that nothing interrupts.\<close>

lemma join_alone_join:
  "join_alone env me o1 7 J_lock w = bindR (Thread_join env me o1 w) (\<lambda>(res, w). Inr (J_return res, w))"
proof -
  let ?p = "th_mutex (objs w o1)"
  have seven: "(7 :: nat) = Suc (Suc (Suc (Suc (Suc (Suc (Suc 0))))))" by simp
  show ?thesis
  proof (cases "asserted env (obj_lock env me ?p) w")
    case lock: (Inr x)
    obtain r w1 where x: "x = (r, w1)" by (cases x)
    have w1: "objs w1 = objs w" by (rule asserted_frame(1) [OF lock [unfolded x]])
    show ?thesis
    proof (cases "th_tid (objs w o1)")
      case None
      have "join_alone env me o1 7 J_lock w = join_alone env me o1 (Suc (Suc (Suc (Suc (Suc 0))))) J_leave w1"
        unfolding seven using lock x w1 None by simp
      then show ?thesis using lock x w1 None by (simp add: Thread_join_asserted join_alone_leave del: join_alone.simps)
    next
      case tid: (Some t)
      show ?thesis
      proof (cases "asserted env (obj_unlock env me ?p) w1")
        case unlock: (Inr y)
        obtain res w2 where y: "y = (res, w2)" by (cases y)
        have w2: "objs w2 = objs w" using asserted_frame(2) [OF unlock [unfolded y]] w1 by simp
        have "join_alone env me o1 7 J_lock w = join_alone env me o1 (Suc (Suc (Suc (Suc 0)))) (J_join res) w2"
          unfolding seven using lock x w1 tid unlock y by simp
        then show ?thesis
          using lock x w1 tid unlock y w2
          by (simp add: Thread_join_asserted join_alone_joining bindR_assoc split_def Let_def del: join_alone.simps split: option.splits)
      qed (unfold seven, use lock x w1 tid in \<open>simp add: Thread_join_asserted\<close>)
    qed
  qed (simp add: seven Thread_join_asserted)
qed

section \<open>Two callers\<close>

lemma join_sched_append:
  "join_sched env o1 (xs @ ys) s = bindR (join_sched env o1 xs s) (join_sched env o1 ys)"
proof (induction xs arbitrary: s)
  case (Cons me xs)
  obtain pcs w where s: "s = (pcs, w)" by (cases s)
  show ?case by (cases "join_stmt env me o1 (pcs me) w") (auto simp: s Cons.IH)
qed simp

lemma join_sched_alone:
  "join_sched env o1 (replicate n me) (pcs, w) = bindR (join_alone env me o1 n (pcs me) w) (\<lambda>(pc, w). Inr (pcs(me := pc), w))"
proof (induction n arbitrary: pcs w)
  case (Suc n)
  show ?case
  proof (cases "join_stmt env me o1 (pcs me) w")
    case (Inr x)
    then show ?thesis by (cases x; cases "join_alone env me o1 n (fst x) (snd x)") (simp_all add: Suc.IH split_def fun_eq_iff)
  qed simp
qed simp

lemma asserted_lock:
  assumes "env_laws env named V TV" and "mx V (tkern w) p = None"
  shows "\<exists>w1. asserted env (obj_lock env me p) w = Inr (ZephyrResult, w1) \<and> mx V (tkern w1) p = Some (me, 1) \<and>
    world_rest V TV p w1 = world_rest V TV p w"
  using obj_lock_free [OF assms, of me] by (auto simp: asserted_def ZPP_ASSERT_def)

lemma asserted_unlock:
  assumes "env_laws env named V TV" and "mx V (tkern w) p = Some (me, 1)"
  shows "\<exists>w1. asserted env (obj_unlock env me p) w = Inr (ZephyrResult, w1) \<and> mx V (tkern w1) p = None \<and>
    world_rest V TV p w1 = world_rest V TV p w"
  using obj_unlock_held [OF assms] by (auto simp: asserted_def ZPP_ASSERT_def)

text \<open>Joining a thread that was joined before.\<close>

lemma Thread_join_again:
  assumes "env_laws env named V TV" and "th_tid (objs w o1) = None" and "mx V (tkern w) (th_mutex (objs w o1)) = None"
  shows "\<exists>w'. Thread_join env me o1 w = Inr (ZephyrResult, w')"
proof -
  let ?p = "th_mutex (objs w o1)"
  obtain w1 where w1: "asserted env (obj_lock env me ?p) w = Inr (ZephyrResult, w1)" "mx V (tkern w1) ?p = Some (me, 1)"
    using asserted_lock [OF assms(1,3)] by blast
  obtain w2 where "asserted env (obj_unlock env me ?p) w1 = Inr (ZephyrResult, w2)"
    using asserted_unlock [OF assms(1) w1(2)] by blast
  with w1 asserted_frame(1) [OF w1(1)] assms(2) show ?thesis by (simp add: Thread_join_asserted)
qed

text \<open>
  C22: two threads cannot join the same Thread safely. When the calls follow each other both return ok;
  but when the second runs while the first is between unlocking the mutex and \<open>k_thread_join\<close>, it
  returns ok and resets the thread id, and the first passes the null pointer to \<open>k_thread_join\<close>.
\<close>

theorem concurrent_joins:
  assumes "env_laws env named V TV" and "th_tid (objs w o1) = Some t" and "TV (tkern w) t = Dead"
    and "mx V (tkern w) (th_mutex (objs w o1)) = None" and "a \<noteq> b"
    and "serial = replicate 7 a @ replicate 7 b" and "overlap = replicate 3 a @ replicate 7 b"
  shows "(\<exists>pcs' w'. join_sched env o1 serial (\<lambda>_. J_lock, w) = Inr (pcs', w') \<and>
      pcs' a = J_return ZephyrResult \<and> pcs' b = J_return ZephyrResult) \<and>
    (\<exists>pcs' w'. join_sched env o1 overlap (\<lambda>_. J_lock, w) = Inr (pcs', w') \<and> pcs' b = J_return ZephyrResult \<and>
      th_tid (objs w' o1) = None) \<and>
    join_sched env o1 (overlap @ [a]) (\<lambda>_. J_lock, w) = Inl Undef"
proof -
  let ?p = "th_mutex (objs w o1)"
  have once: "\<exists>w'. join_sched env o1 (replicate 7 me) (pcs, v) = Inr (pcs(me := J_return ZephyrResult), w') \<and>
      th_tid (objs w' o1) = None \<and> th_mutex (objs w' o1) = ?p \<and> mx V (tkern w') ?p = None"
    if v: "objs v = objs w" "TV (tkern v) = TV (tkern w)" "mx V (tkern v) ?p = None" and "pcs me = J_lock" for me pcs v
  proof -
    obtain w' where "Thread_join env me o1 v = Inr (ZephyrResult, w')"
      "objs w' = (objs v)(o1 := (objs v o1)\<lparr>th_tid := None\<rparr>)" "mx V (tkern w') = mx V (tkern v)"
      using Thread_join_dead [OF assms(1), of v o1 t me] assms(2,3) v by auto
    with v \<open>pcs me = J_lock\<close> show ?thesis by (simp add: join_sched_alone join_alone_join)
  qed
  obtain w1 where w1: "join_sched env o1 (replicate 7 a) (\<lambda>_. J_lock, w) = Inr ((\<lambda>_. J_lock)(a := J_return ZephyrResult), w1)"
    "th_tid (objs w1 o1) = None" "mx V (tkern w1) (th_mutex (objs w1 o1)) = None"
    using once [of w "\<lambda>_. J_lock" a] assms(4) by auto
  obtain w2 where "Thread_join env b o1 w1 = Inr (ZephyrResult, w2)"
    using Thread_join_again [OF assms(1) w1(2,3)] by blast
  with w1(1) assms(5) have serial: "\<exists>pcs' w'. join_sched env o1 serial (\<lambda>_. J_lock, w) = Inr (pcs', w') \<and>
      pcs' a = J_return ZephyrResult \<and> pcs' b = J_return ZephyrResult"
    by (simp add: assms(6) join_sched_append join_sched_alone [of env o1 7 b] join_alone_join)
  obtain w3 where w3: "asserted env (obj_lock env a ?p) w = Inr (ZephyrResult, w3)" "mx V (tkern w3) ?p = Some (a, 1)"
    "world_rest V TV ?p w3 = world_rest V TV ?p w"
    using asserted_lock [OF assms(1,4)] by blast
  obtain w4 where w4: "asserted env (obj_unlock env a ?p) w3 = Inr (ZephyrResult, w4)" "mx V (tkern w4) ?p = None"
    "world_rest V TV ?p w4 = world_rest V TV ?p w3"
    using asserted_unlock [OF assms(1) w3(2)] by blast
  have same: "objs w3 = objs w" "objs w4 = objs w" "TV (tkern w4) = TV (tkern w)" using w3(3) w4(3) by (simp_all add: world_rest_def)
  have "replicate 3 a = [a, a, a]" by (simp add: eval_nat_numeral)
  then have first: "join_sched env o1 (replicate 3 a) (\<lambda>_. J_lock, w) = Inr ((\<lambda>_. J_lock)(a := J_join ZephyrResult), w4)"
    using w3(1) w4(1) assms(2) same by simp
  obtain w5 where w5: "join_sched env o1 (replicate 7 b) ((\<lambda>_. J_lock)(a := J_join ZephyrResult), w4) =
      Inr ((\<lambda>_. J_lock)(a := J_join ZephyrResult, b := J_return ZephyrResult), w5)" "th_tid (objs w5 o1) = None"
    using once [OF same(2,3) w4(2), of "(\<lambda>_. J_lock)(a := J_join ZephyrResult)" b] assms(5) by auto
  have "join_sched env o1 overlap (\<lambda>_. J_lock, w) = Inr ((\<lambda>_. J_lock)(a := J_join ZephyrResult, b := J_return ZephyrResult), w5)"
    using first w5(1) by (simp add: assms(7) join_sched_append)
  with serial w5(2) assms(5) show ?thesis by (simp add: join_sched_append)
qed

theorem concurrent_joins_witness:
  "\<exists>w :: (rk, nat) thread_world. th_tid (objs w 10) = Some 100 \<and> join_sched (demo_env True True) 10 [1, 1, 1, 2, 2, 2, 2, 2, 2, 2, 1] (\<lambda>_. J_lock, w) = Inl Undef"
proof -
  let ?w = "demo_world\<lparr>tkern := rk0\<lparr>rk_th := (rk_th rk0)(100 := Dead)\<rparr>,
    objs := (\<lambda>_. \<lparr>th_mutex = 20, th_event = 21, th_task = None, th_priority = 9, th_name = ''t'', th_tid = Some 100\<rparr>)\<rparr>"
  have w: "th_tid (objs ?w 10) = Some 100" "rk_th (tkern ?w) 100 = Dead" "mx ref_view (tkern ?w) (th_mutex (objs ?w 10)) = None"
    by (simp_all add: rk0_def)
  have "(1 :: tid) \<noteq> 2" by simp
  note concurrent_joins [OF demo_env_laws w this refl refl]
  then have "join_sched (demo_env True True) 10 ((replicate 3 1 @ replicate 7 2) @ [1]) (\<lambda>_. J_lock, ?w) = Inl Undef" by blast
  moreover have "(replicate 3 1 @ replicate 7 2) @ [1] = [1, 1, 1, 2, 2, 2, 2, 2, 2, 2, 1 :: tid]" by (simp add: eval_nat_numeral)
  ultimately show ?thesis using w(1) by (intro exI [of _ ?w]) (simp only: simp_thms)
qed

end
