(* ===== verification/Test_Slicing.thy ===== *)
theory Test_Slicing
  imports Test_Programs
begin

text \<open>
  The test of time slicing in src/zpp_rtos/tests/thread: two threads count until they are told to stop,
  while the main thread sleeps. Which of the two runs is decided by the scheduler: a list of booleans,
  one for each statement, whose length and order are arbitrary. An increment of a 64-bit counter is one
  statement here.
\<close>

section \<open>The counting threads\<close>

datatype slice_pc = At_test | At_count | Exited

record slicing =
  fn1 :: "slice_pc \<times> u64"
  fn2 :: "slice_pc \<times> u64"
  s_stop :: bool

text \<open>One statement of \<open>while (!*stop) { (*counter)++; }\<close>, with the counter of the thread.\<close>

fun thread_fn :: "bool \<Rightarrow> slice_pc \<times> u64 \<Rightarrow> slice_pc \<times> u64" where
  "thread_fn stop (At_test, c) = (if \<not> stop then At_count else Exited, c)"
| "thread_fn stop (At_count, c) = (At_test, c + 1)"
| "thread_fn stop (Exited, c) = (Exited, c)"

definition slice_stmt :: "bool \<Rightarrow> slicing \<Rightarrow> slicing" where
  "slice_stmt first s =
     (if first then s\<lparr>fn1 := thread_fn (s_stop s) (fn1 s)\<rparr> else s\<lparr>fn2 := thread_fn (s_stop s) (fn2 s)\<rparr>)"

definition run_slices :: "bool list \<Rightarrow> slicing \<Rightarrow> slicing" where
  "run_slices sched s = fold slice_stmt sched s"

definition counter_diff :: "u64 \<Rightarrow> u64 \<Rightarrow> u64" where
  "counter_diff c1 c2 = (if c1 > c2 then c1 - c2 else c2 - c1)"

section \<open>The program\<close>

text \<open>Constructing one of the two threads and starting it; the result is asserted.\<close>

definition slice_thread ::
  "'k thread_env \<Rightarrow> int \<Rightarrow> tid \<Rightarrow> addr \<times> addr \<times> addr \<Rightarrow> string \<Rightarrow> ('k, unit) thread_world \<Rightarrow> ('k, unit) thread_world" where
  "slice_thread env N me = (\<lambda>(this, this_mutex, this_event) name w.
     let (ob, k) = Thread_ctor (env_mutex env) (env_event env) this_mutex this_event
           (priority_value N PriorityBelowNormal) (Some name) (tkern w)
     in set_obj this ob (w\<lparr>tkern := k\<rparr>))"

text \<open>
  A thread whose function returned ends in \<open>s_thunk\<close> while the main thread waits in \<open>join\<close>; one that
  never returns lets it wait for ever. \<open>during\<close> is what the two threads execute while the main thread
  sleeps, \<open>joining\<close> what they execute while it joins; \<open>timeslice\<close> is \<open>CONFIG_TIMESLICE_SIZE\<close>.
\<close>

definition join_counter ::
  "'k thread_env \<Rightarrow> tid \<Rightarrow> addr \<Rightarrow> bool \<Rightarrow> ('k, unit) thread_world \<Rightarrow> ('k, unit) thread_world run" where
  "join_counter env me this ended w =
     (if \<not> ended then Inl Stuck
      else bindR (thread_runs env (\<lambda>_ w. Inr w) this w) (expect (Thread_join env me this)))"

definition test_round_robin ::
  "'k thread_env \<Rightarrow> 'k sched_api \<Rightarrow> int \<Rightarrow> int \<Rightarrow> tid \<Rightarrow> addr \<times> addr \<times> addr \<Rightarrow> addr \<times> addr \<times> addr \<Rightarrow>
    bool list \<Rightarrow> bool list \<Rightarrow> ('k, unit) thread_world \<Rightarrow> ('k, unit) thread_world run" where
  "test_round_robin env S N timeslice me th1 th2 during joining w =
     (let kNbrOfTimeSlicesToWait = 100; kDelta = 30000;
          w = slice_thread env N me th2 ''Thread2'' (slice_thread env N me th1 ''Thread1'' w) in
      bindR (expect (Thread_start env me (fst th1) ()) w) (\<lambda>w.
      bindR (expect (Thread_start env me (fst th2) ()) w) (\<lambda>w.
      let k = set_priority S (priority_value N PriorityAboveNormal) (tkern w);
          k = snd (sleep_for_ms S (kNbrOfTimeSlicesToWait * timeslice) k);
          s = run_slices during \<lparr>fn1 = (At_test, 0), fn2 = (At_test, 0), s_stop = False\<rparr>;
          s = s\<lparr>s_stop := True\<rparr>;
          diff = counter_diff (snd (fn1 s)) (snd (fn2 s));
          s = run_slices joining s in
      bindR (join_counter env me (fst th1) (fst (fn1 s) = Exited) (w\<lparr>tkern := k\<rparr>)) (\<lambda>w.
      bindR (join_counter env me (fst th2) (fst (fn2 s) = Exited) w) (\<lambda>w.
      bindR (zpp_zassert_true (diff < kDelta)) (\<lambda>_.
      bindR (Thread_dtor env (fst th2) w) (Thread_dtor env (fst th1))))))))"

section \<open>What the threads count\<close>

lemma run_slices_parts:
  "fn1 (run_slices sched s) = (thread_fn (s_stop s) ^^ count_list sched True) (fn1 s) \<and>
   fn2 (run_slices sched s) = (thread_fn (s_stop s) ^^ count_list sched False) (fn2 s) \<and>
   s_stop (run_slices sched s) = s_stop s"
  by (induction sched arbitrary: s) (auto simp: run_slices_def slice_stmt_def funpow_swap1)

text \<open>Before the stop: every second statement of a thread counts.\<close>

lemma thread_fn_counts:
  "(thread_fn False ^^ j) (At_test, 0) = (if even j then At_test else At_count, of_nat (j div 2))"
proof (induction j)
  case (Suc j)
  then show ?case by (cases "even j") (auto elim!: evenE oddE)
qed simp

text \<open>After the stop: two statements are enough.\<close>

lemma thread_fn_exited: "(thread_fn stop ^^ j) (Exited, c) = (Exited, c)"
  by (induction j) simp_all

lemma thread_fn_stops:
  assumes "2 \<le> j"
  shows "fst ((thread_fn True ^^ j) x) = Exited"
proof -
  have "j = (j - 2) + 2" using assms by simp
  then have "(thread_fn True ^^ j) x = (thread_fn True ^^ (j - 2)) ((thread_fn True ^^ 2) x)"
    by (metis comp_apply funpow_add)
  moreover have "fst ((thread_fn True ^^ 2) x) = Exited" by (cases x; cases "fst x") (simp_all add: numeral_2_eq_2)
  ultimately show ?thesis
    by (cases "(thread_fn True ^^ 2) x") (simp add: thread_fn_exited)
qed

lemma counter_diff_less:
  assumes "m < 2 ^ 64" and "n < 2 ^ 64"
  shows "counter_diff (of_nat m) (of_nat n) < 30000 \<longleftrightarrow> \<bar>int m - int n\<bar> < 30000"
proof -
  have u: "unat (of_nat m :: u64) = m" "unat (of_nat n :: u64) = n" using assms by (simp_all add: unat_of_nat)
  then have "unat (of_nat m - of_nat n :: u64) = m - n" if "n < m" using that by (subst unat_sub) (simp_all add: word_le_nat_alt)
  moreover have "unat (of_nat n - of_nat m :: u64) = n - m" if "m \<le> n"
    using u that by (subst unat_sub) (simp_all add: word_le_nat_alt)
  ultimately show ?thesis by (auto simp: counter_diff_def word_less_nat_alt u)
qed

section \<open>What the calls do\<close>

text \<open>Changing a priority and sleeping change no mutex and no thread.\<close>

definition sched_frame :: "'k sched_api \<Rightarrow> 'k view \<Rightarrow> 'k thread_view \<Rightarrow> bool" where
  "sched_frame S V TV \<longleftrightarrow>
     (\<forall>t p k. mx V (k_thread_priority_set S t p k) = mx V k \<and> TV (k_thread_priority_set S t p k) = TV k) \<and>
     (\<forall>d k. mx V (snd (k_msleep S d k)) = mx V k \<and> TV (snd (k_msleep S d k)) = TV k)"

lemma slice_thread_view:
  assumes "env_laws env named V TV" and "init_frame (env_mutex env) (env_event env) TV"
  shows "\<exists>ob. th_mutex ob = m \<and> th_tid ob = None \<and>
    objs (slice_thread env N me (this, m, e) n w) = (objs w)(this := ob) \<and>
    s_thread_instance_count (slice_thread env N me (this, m, e) n w) = s_thread_instance_count w \<and>
    mx V (tkern (slice_thread env N me (this, m, e) n w)) = (mx V (tkern w))(m := None) \<and>
    TV (tkern (slice_thread env N me (this, m, e) n w)) = TV (tkern w)"
proof -
  define ob :: "unit thread_obj" where "ob = \<lparr>th_mutex = m, th_event = e, th_task = None,
    th_priority = priority_value N PriorityBelowNormal, th_name = n, th_tid = None\<rparr>"
  obtain k where "Thread_ctor (env_mutex env) (env_event env) m e (priority_value N PriorityBelowNormal) (Some n) (tkern w) = (ob, k)"
    "mx V k = (mx V (tkern w))(m := None)" "TV k = TV (tkern w)"
    using Thread_ctor_view [OF assms, of m e "priority_value N PriorityBelowNormal" n "tkern w"] unfolding ob_def by blast
  then show ?thesis by (intro exI [of _ ob]) (simp add: slice_thread_def set_obj_def, simp add: ob_def)
qed

lemma join_counter_ok:
  assumes laws: "env_laws env named V TV" and tid: "th_tid (objs w this) = Some t" "th_task (objs w this) = Some ()"
    and alive: "TV (tkern w) t = Running b s" and free: "mx V (tkern w) (th_mutex (objs w this)) = None"
  shows "returns (join_counter env me this True w) (\<lambda>w'.
    objs w' = (objs w)(this := (objs w this)\<lparr>th_tid := None\<rparr>) \<and> s_thread_instance_count w' = s_thread_instance_count w - 1 \<and>
    TV (tkern w') = (TV (tkern w))(t := Dead) \<and> mx V (tkern w') = mx V (tkern w))"
proof -
  obtain w1 where w1: "thread_runs env (\<lambda>_ w. Inr w) this w = Inr w1" "objs w1 = objs w"
    "s_thread_instance_count w1 = s_thread_instance_count w - 1" "TV (tkern w1) = (TV (tkern w))(t := Dead)"
    "mx V (tkern w1) = mx V (tkern w)"
    using thread_runs_task [OF laws tid alive free, of "\<lambda>_ w. Inr w" "\<lambda>_. True"] by auto
  obtain w2 where "Thread_join env me this w1 = Inr (ZephyrResult, w2)"
    "objs w2 = (objs w1)(this := (objs w1 this)\<lparr>th_tid := None\<rparr>)" "s_thread_instance_count w2 = s_thread_instance_count w1"
    "TV (tkern w2) = TV (tkern w1)" "mx V (tkern w2) = mx V (tkern w1)"
    using Thread_join_dead [OF laws, of w1 this t me] tid w1(2,4,5) free by auto
  with w1 show ?thesis by (simp add: join_counter_def returns_def expect_def zpp_zassert_true_def)
qed

text \<open>The two threads set up and started.\<close>

lemma both_started:
  fixes w :: "('k, unit) thread_world"
  assumes laws: "env_laws env True V TV" and init: "init_frame (env_mutex env) (env_event env) TV"
    and slots: "unat (s_thread_instance_count w) + 1 < length (thread_data env)" "length (thread_data env) \<le> 256"
    and t: "t1 = thread_data env ! unat (s_thread_instance_count w)" "t2 = thread_data env ! (unat (s_thread_instance_count w) + 1)"
    and ne: "t1 \<noteq> t2" "this1 \<noteq> this2" "m1 \<noteq> m2"
    and idle: "\<forall>b n. TV (tkern w) t1 \<noteq> Running b n" "\<forall>b n. TV (tkern w) t2 \<noteq> Running b n"
    and w0_def: "w0 = slice_thread env N me (this2, m2, e2) ''Thread2'' (slice_thread env N me (this1, m1, e1) ''Thread1'' w)"
  shows "\<exists>w1 w2 b1 s1 b2 s2. expect (Thread_start env me this1 ()) w0 = Inr w1 \<and> expect (Thread_start env me this2 ()) w1 = Inr w2 \<and>
    th_tid (objs w2 this1) = Some t1 \<and> th_task (objs w2 this1) = Some () \<and> th_mutex (objs w2 this1) = m1 \<and>
    th_tid (objs w2 this2) = Some t2 \<and> th_task (objs w2 this2) = Some () \<and> th_mutex (objs w2 this2) = m2 \<and>
    mx V (tkern w2) m1 = None \<and> mx V (tkern w2) m2 = None \<and> s_thread_instance_count w2 = s_thread_instance_count w + 2 \<and>
    TV (tkern w2) = (TV (tkern w))(t1 := Running b1 s1, t2 := Running b2 s2)"
proof -
  let ?c = "s_thread_instance_count w"
  have c1: "unat (?c + 1) = unat ?c + 1" using slots by (simp add: unat_plus_if_size word_size)
  let ?wa = "slice_thread env N me (this1, m1, e1) ''Thread1'' w"
  obtain ob1 where wa: "th_mutex ob1 = m1" "th_tid ob1 = None" "objs ?wa = (objs w)(this1 := ob1)"
    "s_thread_instance_count ?wa = ?c" "mx V (tkern ?wa) = (mx V (tkern w))(m1 := None)" "TV (tkern ?wa) = TV (tkern w)"
    using slice_thread_view [OF laws init] by blast
  obtain ob2 where w0: "th_mutex ob2 = m2" "th_tid ob2 = None" "objs w0 = (objs ?wa)(this2 := ob2)"
    "s_thread_instance_count w0 = ?c" "mx V (tkern w0) = (mx V (tkern ?wa))(m2 := None)" "TV (tkern w0) = TV (tkern w)"
    using slice_thread_view [OF laws init, where m = m2 and this = this2 and N = N and me = me and e = e2 and n = "''Thread2''" and w = ?wa] wa(4,6) unfolding w0_def by auto
  obtain w1 where w1: "Thread_start env me this1 () w0 = Inr (ZephyrResult, w1)"
    "objs w1 = (objs w0)(this1 := (objs w0 this1)\<lparr>th_task := Some (), th_tid := Some t1\<rparr>)"
    "s_thread_instance_count w1 = ?c + 1" "TV (tkern w1) = (TV (tkern w))(t1 := Running this1 (unat ?c))"
    "mx V (tkern w1) = mx V (tkern w0)"
    using Thread_start_ok [OF laws, of w0 this1 t1 me "()"] w0 wa ne slots(1) t(1) idle(1) by auto
  obtain w2 where w2: "Thread_start env me this2 () w1 = Inr (ZephyrResult, w2)"
    "objs w2 = (objs w1)(this2 := (objs w1 this2)\<lparr>th_task := Some (), th_tid := Some t2\<rparr>)"
    "s_thread_instance_count w2 = ?c + 1 + 1" "TV (tkern w2) = (TV (tkern w1))(t2 := Running this2 (unat (?c + 1)))"
    "mx V (tkern w2) = mx V (tkern w1)"
    using Thread_start_ok [OF laws, of w1 this2 t2 me "()"] w1 w0 wa ne slots(1) t(2) idle(2) c1 by auto
  have "expect (Thread_start env me this1 ()) w0 = Inr w1" "expect (Thread_start env me this2 ()) w1 = Inr w2"
    using w1(1) w2(1) by (simp_all add: expect_def zpp_zassert_true_def)
  then show ?thesis using w2 w1 w0 wa ne by (intro exI conjI) (auto simp: add.assoc)
qed

section \<open>Properties\<close>

text \<open>
  C25: the test of time slicing decides what it means to. Whatever the scheduler does while the main
  thread sleeps, and if it gives each counting thread two statements while the main thread joins,
  neither join waits for ever, no call fails, and the test passes exactly when the two threads have
  completed numbers of rounds that differ by less than 30000; afterwards both threads have ended and
  their slots are free again.
\<close>

theorem round_robin_measures_slices:
  fixes w :: "('k, unit) thread_world"
  assumes "env_laws env True V TV" and "init_frame (env_mutex env) (env_event env) TV" and "sched_frame S V TV"
    and "unat (s_thread_instance_count w) + 1 < length (thread_data env)" and "length (thread_data env) \<le> 256"
    and "t1 = thread_data env ! unat (s_thread_instance_count w)" and "t2 = thread_data env ! (unat (s_thread_instance_count w) + 1)"
    and "t1 \<noteq> t2" and "this1 \<noteq> this2" and "m1 \<noteq> m2"
    and "\<forall>b n. TV (tkern w) t1 \<noteq> Running b n" and "\<forall>b n. TV (tkern w) t2 \<noteq> Running b n"
    and "rounds1 = count_list during True div 2" and "rounds2 = count_list during False div 2"
    and "rounds1 < 2 ^ 64" and "rounds2 < 2 ^ 64" and "2 \<le> count_list joining True" and "2 \<le> count_list joining False"
    and "test = test_round_robin env S N timeslice me (this1, m1, e1) (this2, m2, e2) during joining w"
  shows "if \<bar>int rounds1 - int rounds2\<bar> < 30000
    then \<exists>w'. test = Inr w' \<and> TV (tkern w') = (TV (tkern w))(t1 := Dead, t2 := Dead) \<and>
      s_thread_instance_count w' = s_thread_instance_count w
    else test = Inl Panic"
proof -
  define w0 where "w0 = slice_thread env N me (this2, m2, e2) ''Thread2'' (slice_thread env N me (this1, m1, e1) ''Thread1'' w)"
  obtain w1 w2 b1 s1 b2 s2 where start: "expect (Thread_start env me this1 ()) w0 = Inr w1"
    "expect (Thread_start env me this2 ()) w1 = Inr w2"
    and w2: "th_tid (objs w2 this1) = Some t1" "th_task (objs w2 this1) = Some ()" "th_mutex (objs w2 this1) = m1"
    "th_tid (objs w2 this2) = Some t2" "th_task (objs w2 this2) = Some ()" "th_mutex (objs w2 this2) = m2"
    "mx V (tkern w2) m1 = None" "mx V (tkern w2) m2 = None" "s_thread_instance_count w2 = s_thread_instance_count w + 2"
    "TV (tkern w2) = (TV (tkern w))(t1 := Running b1 s1, t2 := Running b2 s2)"
    using both_started [OF assms(1,2,4-12) w0_def] by blast
  define w3 where "w3 = w2\<lparr>tkern := snd (sleep_for_ms S (100 * timeslice) (set_priority S (priority_value N PriorityAboveNormal) (tkern w2)))\<rparr>"
  have w3: "objs w3 = objs w2" "s_thread_instance_count w3 = s_thread_instance_count w2" "mx V (tkern w3) = mx V (tkern w2)"
    "TV (tkern w3) = TV (tkern w2)"
    using assms(3) by (simp_all add: w3_def sched_frame_def sleep_for_ms_def set_priority_def)
  let ?s0 = "\<lparr>fn1 = (At_test, 0), fn2 = (At_test, 0), s_stop = False\<rparr>"
  let ?s1 = "run_slices during ?s0"
  have counted: "snd (fn1 ?s1) = of_nat rounds1" "snd (fn2 ?s1) = of_nat rounds2"
    using run_slices_parts [of during ?s0] by (simp_all add: thread_fn_counts assms(13,14))
  let ?s2 = "run_slices joining (?s1\<lparr>s_stop := True\<rparr>)"
  have ended: "fst (fn1 ?s2) = Exited" "fst (fn2 ?s2) = Exited"
    using run_slices_parts [of joining "?s1\<lparr>s_stop := True\<rparr>"] thread_fn_stops [OF assms(17)] thread_fn_stops [OF assms(18)]
    by simp_all
  obtain w4 where w4: "join_counter env me this1 True w3 = Inr w4"
    "objs w4 = (objs w3)(this1 := (objs w3 this1)\<lparr>th_tid := None\<rparr>)" "s_thread_instance_count w4 = s_thread_instance_count w3 - 1"
    "TV (tkern w4) = (TV (tkern w3))(t1 := Dead)" "mx V (tkern w4) = mx V (tkern w3)"
    using join_counter_ok [OF assms(1), of w3 this1 t1 b1 s1 me] w3 w2 assms(8) by (auto simp: returns_def)
  obtain w5 where w5: "join_counter env me this2 True w4 = Inr w5"
    "objs w5 = (objs w4)(this2 := (objs w4 this2)\<lparr>th_tid := None\<rparr>)" "s_thread_instance_count w5 = s_thread_instance_count w4 - 1"
    "TV (tkern w5) = (TV (tkern w4))(t2 := Dead)"
    using join_counter_ok [OF assms(1), of w4 this2 t2 b2 s2 me] w4 w3 w2 assms(8,9) by (auto simp: returns_def)
  have dtors: "Thread_dtor env this2 w5 = Inr w5" "Thread_dtor env this1 w5 = Inr w5"
    using w5(2) w4(2) by (simp_all add: Thread_dtor_def)
  have "test = bindR (zpp_zassert_true (counter_diff (of_nat rounds1) (of_nat rounds2) < 30000)) (\<lambda>_. Inr w5)"
    using start w4(1) w5(1) dtors
    by (simp add: assms(19) test_round_robin_def w0_def [symmetric] w3_def [symmetric] counted ended del: priority_value.simps)
  then have "test = (if \<bar>int rounds1 - int rounds2\<bar> < 30000 then Inr w5 else Inl Panic)"
    by (simp add: counter_diff_less [OF assms(15,16)] zpp_zassert_true_def)
  moreover have "TV (tkern w5) = (TV (tkern w))(t1 := Dead, t2 := Dead)"
    using w5(4) w4(4) w3(4) w2(10) by (auto simp: fun_eq_iff)
  ultimately show ?thesis using w5(3) w4(3) w3(2) w2(9) by simp
qed

text \<open>A scheduler interface that changes nothing.\<close>

definition rk_sched :: "rk sched_api" where
  "rk_sched = \<lparr>k_current_get = (\<lambda>_. 1), k_thread_priority_get = (\<lambda>_ _. 0), k_thread_priority_set = (\<lambda>_ _ k. k),
     k_busy_wait = (\<lambda>_ k. k), k_msleep = (\<lambda>_ k. (0, k)), k_sleep = (\<lambda>_ k. (0, k)),
     K_TIMEOUT_ABS_US = (\<lambda>d. \<lparr>ticks = - 1 - d\<rparr>), K_TIMEOUT_ABS_MS = (\<lambda>d. \<lparr>ticks = - 1 - d\<rparr>),
     K_TIMEOUT_ABS_SEC = (\<lambda>d. \<lparr>ticks = - 1 - d\<rparr>)\<rparr>"

lemma rk_sched_frame: "sched_frame rk_sched ref_view rk_th"
  by (simp add: sched_frame_def rk_sched_def)

theorem round_robin_measures_slices_witness:
  "\<exists>w'. test_round_robin (demo_env True True) rk_sched 15 10 1 (10, 20, 21) (11, 22, 23)
      [True, True, True, False, False, True, False, False] [True, False, False, True] test_world = Inr w' \<and>
    rk_th (tkern w') 100 = Dead \<and> rk_th (tkern w') 101 = Dead"
proof -
  let ?during = "[True, True, True, False, False, True, False, False]" and ?joining = "[True, False, False, True]"
  have slots: "unat (s_thread_instance_count test_world) + 1 < length (thread_data (demo_env True True))"
    "length (thread_data (demo_env True True)) \<le> 256"
    "100 = thread_data (demo_env True True) ! unat (s_thread_instance_count test_world)"
    "101 = thread_data (demo_env True True) ! (unat (s_thread_instance_count test_world) + 1)"
    by (simp_all add: demo_env_def test_world_def)
  have ne: "(100 :: tid) \<noteq> 101" "(10 :: addr) \<noteq> 11" "(20 :: addr) \<noteq> 22"
    and idle: "\<forall>b n. rk_th (tkern test_world) t \<noteq> Running b n" for t
    by (simp_all add: test_world_def rk0_def)
  have joined: "2 \<le> count_list ?joining True" "2 \<le> count_list ?joining False"
    and rounds: "count_list ?during True div 2 < 2 ^ 64" "count_list ?during False div 2 < 2 ^ 64"
    "\<bar>int (count_list ?during True div 2) - int (count_list ?during False div 2)\<bar> < 30000"
    by simp_all
  note round_robin_measures_slices [OF demo_env_laws demo_test(1) rk_sched_frame slots ne idle idle refl refl
      rounds(1,2) joined refl, of 15 10 1 21 23]
  then show ?thesis using rounds(3) ne(1) by (simp only: if_True) (auto simp: fun_upd_def)
qed

end
