(* ===== verification/Display_Safety.thy ===== *)
theory Display_Safety
  imports Display_Text
begin

text \<open>
  Well-typed displays do not go wrong. A display that \<open>initialize\<close> has set up is \<open>display_ok\<close>; every
  public operation keeps it so and asks the driver only for rectangles on the screen whose pixels lie
  in the line buffer, whatever coordinates, lengths and texts it is given. \<open>watches\<close> says that a
  property of the device is kept by such requests; a property that holds after any operation, like
  ``no other request was made'', follows from the requests being well formed.
\<close>

section \<open>Requests to the driver\<close>

definition request_ok :: "nat \<Rightarrow> nat \<Rightarrow> nat \<Rightarrow> u16 \<Rightarrow> u16 \<Rightarrow> display_buffer_descriptor \<Rightarrow> u8 list \<Rightarrow> bool" where
  "request_ok xs ys bpp x y b buf \<longleftrightarrow>
     unat x + unat (desc_width b) \<le> xs \<and> unat y + unat (desc_height b) \<le> ys \<and> pitch b = desc_width b \<and>
     unat (buf_size b) = unat (desc_width b) * unat (desc_height b) * bpp \<and> unat (buf_size b) \<le> length buf"

definition watches :: "'d display_api \<Rightarrow> nat \<Rightarrow> nat \<Rightarrow> nat \<Rightarrow> ('d \<Rightarrow> bool) \<Rightarrow> bool" where
  "watches A xs ys bpp P \<longleftrightarrow>
     (\<forall>x y b buf d. request_ok xs ys bpp x y b buf \<longrightarrow> P d \<longrightarrow> P (snd (display_write A x y b buf d))) \<and>
     (\<forall>d. P d \<longrightarrow> P (snd (display_blanking_off A d)))"

lemma write_line_ok:
  assumes "unat b = bpp" and "bpp = 3 \<or> bpp = 4" and "unat x + unat w \<le> xs" and "line < stop" and "stop \<le> ys"
    and "ys < 65536" and "unat w * bpp \<le> length buf"
  shows "request_ok xs ys bpp x (word_of_nat line) (line_desc w b line stop) buf"
proof -
  have stop: "stop < 65536" using assms(5,6) by simp
  have "unat b = 3 \<or> unat b = 4" using assms(1,2) by simp
  note desc = line_desc_one [OF assms(4) stop this, of w]
  have "unat (word_of_nat line :: u16) = line" using assms(4) stop by simp
  then show ?thesis using desc assms by (simp add: request_ok_def)
qed

lemma watches_write:
  "watches A xs ys bpp P \<Longrightarrow> request_ok xs ys bpp x y b buf \<Longrightarrow> P d \<Longrightarrow> P (snd (display_write A x y b buf d))"
  unfolding watches_def by blast

lemma fill_rectangle_lines_watched:
  assumes "watches A xs ys bpp P" and "unat b = bpp" and "bpp = 3 \<or> bpp = 4" and "unat x + unat w \<le> xs"
    and "stop \<le> ys" and "ys < 65536" and "unat w * bpp \<le> length buf"
  shows "P d \<Longrightarrow> P (fill_rectangle_lines A x w b stop line buf d)"
proof (induction "stop - line" arbitrary: line d)
  case 0
  then show ?case by (simp add: fill_rectangle_lines.simps)
next
  case (Suc n)
  then have less: "line < stop" and n: "n = stop - Suc line" by simp_all
  have "P (snd (display_write A x (word_of_nat line) (line_desc w b line stop) buf d))"
    by (rule watches_write [OF assms(1) write_line_ok [OF assms(2-4) less assms(5-7)] Suc.prems])
  from Suc.hyps(1) [OF n this] show ?case
    using less by (subst fill_rectangle_lines.simps) (simp add: kHStep_def split_beta)
qed

lemma draw_lines_watched:
  assumes watch: "watches A xs ys bpp P" and bpp: "unat b = bpp" "bpp = 3 \<or> bpp = 4" and x: "unat x + unat w \<le> xs"
    and stop: "stop \<le> ys" "ys < 65536"
    and fill: "\<And>pos buf. length buf = m \<Longrightarrow> pos + unat w \<le> length src \<Longrightarrow>
      \<exists>buf'. fill src pos (unat w) buf = Inr buf' \<and> length buf' = m"
    and m: "unat w * bpp \<le> m"
  shows "length buf = m \<Longrightarrow> P d \<Longrightarrow> line < stop \<longrightarrow> pos + (stop - line - 1) * stride + unat w \<le> length src \<Longrightarrow>
    \<exists>buf' d'. draw_lines A fill x w b stride src pos stop line buf d = Inr (buf', d') \<and> length buf' = m \<and> P d'"
proof (induction "stop - line" arbitrary: line pos buf d)
  case 0
  then show ?case by (auto simp: draw_lines.simps)
next
  case (Suc n)
  then have less: "line < stop" and n: "n = stop - Suc line" by simp_all
  then have bound: "pos + (stop - line - 1) * stride + unat w \<le> length src" using Suc.prems by simp
  then have "pos + unat w \<le> length src" by linarith
  from fill [OF Suc.prems(1) this] obtain buf1 where buf1: "fill src pos (unat w) buf = Inr buf1" "length buf1 = m"
    by blast
  let ?d = "snd (display_write A x (word_of_nat line) (line_desc w b line stop) buf1 d)"
  have step: "draw_lines A fill x w b stride src pos stop line buf d =
    draw_lines A fill x w b stride src (pos + stride) stop (Suc line) buf1 ?d"
    using less buf1(1) by (subst draw_lines.simps) (simp add: kHStep_def split_beta)
  have "unat w * bpp \<le> length buf1" using m buf1(2) by simp
  then have P: "P ?d" by (rule watches_write [OF watch write_line_ok [OF bpp x less stop] Suc.prems(2)])
  have "pos + stride + (stop - Suc line - 1) * stride + unat w \<le> length src" if "Suc line < stop"
  proof -
    from that have "stop - line - 1 = Suc (stop - Suc line - 1)" by simp
    with bound show ?thesis by simp
  qed
  then show ?case unfolding step using Suc.hyps(1) [OF n buf1(2) P, of "pos + stride"] by blast
qed

section \<open>The operations\<close>

text \<open>What an operation on a usable display \<open>D\<close> leads to.\<close>

definition safe :: "nat \<Rightarrow> nat \<Rightarrow> ('d \<Rightarrow> bool) \<Rightarrow> display \<Rightarrow> (display \<times> 'd) run \<Rightarrow> bool" where
  "safe xs ys P D r \<longleftrightarrow> (\<exists>D' d'. r = Inr (D', d') \<and> display_ok xs ys D' \<and> P d' \<and>
     p_font D' = p_font D \<and> bytes_per_pixel D' = bytes_per_pixel D)"

lemma safe_set_buffer:
  assumes "display_ok xs ys D" and "length buf = unat (line_buffer_size D)" and "P d"
  shows "safe xs ys P D (Inr (set_buffer D buf, d))"
  using display_ok_set_buffer [OF assms(1,2)] assms(3) by (simp add: safe_def set_buffer_same)

lemma color_known:
  assumes "display_ok xs ys D"
  shows "\<exists>v. get_color_value a (pixel_format_of D) c = Inr v"
  using assms by (auto simp: display_ok_def)

lemma fill_rectangle_safe:
  assumes "watches A xs ys (unat (bytes_per_pixel D)) P" and ok: "display_ok xs ys D" and "P d"
  shows "safe xs ys P D (fill_rectangle a A c x y width height D d)"
proof -
  let ?x = "min16 (lcd_xsize D - 1) (ucast x)"
  let ?w = "min16 (lcd_xsize D - ucast ?x) (ucast width)"
  have sizes: "ys < 65536" "unat (line_buffer_size D) = max xs ys * unat (bytes_per_pixel D)"
    using ok by (simp_all add: display_ok_def)
  obtain v where v: "get_color_value a (pixel_format_of D) c = Inr v" using color_known [OF ok] by blast
  obtain fill buf where fill: "fill_color_function D = Some fill"
    "fill v (unat (line_buffer_size D)) (buffer D) = Inr buf" "length buf = unat (line_buffer_size D)"
    using display_ok_fill_color [OF ok] by blast
  note x = clip_x(1) [OF ok, of "ucast x"] and w = clip_x(2) [OF ok, of "ucast x" "ucast width"]
  have inside: "unat ?x + unat ?w \<le> xs" unfolding x w by (rule clip_inside)
  then have "unat ?w \<le> max xs ys" by simp
  then have len: "unat ?w * unat (bytes_per_pixel D) \<le> length buf" using fill(3) sizes(2) by (simp only: mult_le_mono1)
  let ?d = "fill_rectangle_lines A ?x ?w (bytes_per_pixel D) (min (unat (y + height)) ys) (min (unat y) ys) buf d"
  have "fill_rectangle a A c x y width height D d = Inr (set_buffer D buf, ?d)"
    using v fill(1,2) by (simp add: fill_rectangle_def Let_def clip_y [OF ok])
  moreover have "P ?d"
    by (rule fill_rectangle_lines_watched [OF assms(1) refl bytes_per_pixel_le inside _ sizes(1) len assms(3)]) simp
  ultimately show ?thesis using safe_set_buffer [OF ok fill(3)] by simp
qed

text \<open>The loop of the picture functions, on a picture with at least \<open>W\<close> times \<open>H\<close> elements.\<close>

lemma picture_safe:
  assumes watch: "watches A xs ys (unat (bytes_per_pixel D)) P" and ok: "display_ok xs ys D" and "P d"
    and x: "x = min16 (lcd_xsize D - 1) x0" and w: "w = min16 (lcd_xsize D - ucast x) w0" and "unat w0 \<le> W"
    and stop: "stop \<le> y + H" "stop \<le> ys" and src: "W * H \<le> length src"
  shows "safe xs ys P D (bindR (draw_lines A
      (case fill_line_function D of None \<Rightarrow> (\<lambda>_ _ _ _. Inl Panic) | Some f \<Rightarrow> f) x w (bytes_per_pixel D) W src 0 stop
      (min y ys) (buffer D) d) (\<lambda>(buf, d'). Inr (set_buffer D buf, d')))"
proof -
  have sizes: "ys < 65536" "unat (line_buffer_size D) = max xs ys * unat (bytes_per_pixel D)"
    and len: "length (buffer D) = unat (line_buffer_size D)"
    using ok by (auto simp: display_ok_def buffer_def)
  have inside: "unat x + unat w \<le> xs"
    using clip_x [OF ok, of x0] clip_x(2) [OF ok, of x0 w0] clip_inside [of "unat x0" xs "unat w0"] unfolding x w by simp
  then have w_le: "unat w \<le> max xs ys" by simp
  have "unat w \<le> unat w0" unfolding w by (simp add: unat_min16)
  then have w_W: "unat w \<le> W" using assms(6) by simp
  obtain fill where fill: "fill_line_function D = Some fill"
    "\<And>pos buf. length buf = unat (line_buffer_size D) \<Longrightarrow> pos + unat w \<le> length src \<Longrightarrow>
      \<exists>buf'. fill src pos (unat w) buf = Inr buf' \<and> length buf' = unat (line_buffer_size D)"
    using display_ok_fill_line [OF ok] w_le by metis
  have m: "unat w * unat (bytes_per_pixel D) \<le> unat (line_buffer_size D)"
    using w_le sizes(2) by (simp only: mult_le_mono1)
  have bound: "0 + (stop - min y ys - 1) * W + unat w \<le> length src" if "min y ys < stop"
  proof -
    have "stop - min y ys - 1 \<le> H - 1" using that stop by simp
    then have "(stop - min y ys - 1) * W \<le> (H - 1) * W" by (rule mult_le_mono1)
    moreover have "0 < H" using that stop by (cases H) simp_all
    then have "(H - 1) * W + W = H * W" by (cases H) simp_all
    ultimately show ?thesis using w_W src by (simp only: mult.commute [of W])
  qed
  obtain buf' d' where "draw_lines A fill x w (bytes_per_pixel D) W src 0 stop (min y ys) (buffer D) d = Inr (buf', d')"
    "length buf' = unat (line_buffer_size D)" "P d'"
    using draw_lines_watched [where fill = fill and src = src, OF watch refl bytes_per_pixel_le inside stop(2) sizes(1) fill(2) m len assms(3)]
      bound by blast
  then show ?thesis using fill(1) safe_set_buffer [OF ok, of buf' P d'] by simp
qed

lemma unat_add_le: "unat (a + b) \<le> unat a + unat b" for a b :: u32
  by (simp add: unat_word_ariths)

lemma unat_cast_le: "unat (ucast a :: u16) \<le> unat a" for a :: u32
  by (simp add: unsigned_ucast_eq take_bit_nat_less_eq_self)

lemma draw_icon_safe:
  assumes "watches A xs ys (unat (bytes_per_pixel D)) P" and "display_ok xs ys D" and "P d"
    and "unat logo_width * unat logo_height \<le> length src"
  shows "safe xs ys P D (draw_icon A x y src logo_width logo_height D d)"
  unfolding draw_icon_def Let_def clip_y [OF assms(2)] unat_ucast_16_32
  by (rule picture_safe [OF assms(1-3) refl refl _ _ _ assms(4), where y = "unat y"])
    (use unat_add_le [of "ucast y" "ucast logo_height"] in simp_all)

lemma fill_rgb_rect_safe:
  assumes "watches A xs ys (unat (bytes_per_pixel D)) P" and "display_ok xs ys D" and "P d"
    and "unat width * unat height \<le> length src"
  shows "safe xs ys P D (fill_rgb_rect A x y src width height D d)"
  unfolding fill_rgb_rect_def Let_def clip_y [OF assms(2)]
  by (rule picture_safe [OF assms(1-3) refl refl _ _ _ assms(4), where y = "unat y"])
    (use unat_add_le [of y height] in \<open>simp_all add: unat_cast_le\<close>)

section \<open>Text\<close>

lemma safe_bind:
  assumes "safe xs ys P D r"
    and "\<And>D' d'. display_ok xs ys D' \<Longrightarrow> P d' \<Longrightarrow> p_font D' = p_font D \<Longrightarrow> bytes_per_pixel D' = bytes_per_pixel D \<Longrightarrow>
      safe xs ys P D' (f D' d')"
  shows "safe xs ys P D (bindR r (\<lambda>(D', d'). f D' d'))"
proof -
  obtain D' d' where *: "r = Inr (D', d')" "display_ok xs ys D'" "P d'" "p_font D' = p_font D"
    "bytes_per_pixel D' = bytes_per_pixel D" using assms(1) unfolding safe_def by blast
  with assms(2) [OF *(2-5)] show ?thesis by (simp add: safe_def)
qed

lemma safe_Inr: "display_ok xs ys D \<Longrightarrow> P d \<Longrightarrow> safe xs ys P D (Inr (D, d))"
  by (simp add: safe_def)

lemma char_rows_safe:
  assumes w: "0 < unat w" "unat w < kMaxCharWidth"
    and table: "p_data + (unat w + 7) div 8 * unat (font_height ft) \<le> length (font_table ft)"
  shows "watches A xs ys (unat (bytes_per_pixel D)) P \<Longrightarrow> display_ok xs ys D \<Longrightarrow> P d \<Longrightarrow>
    safe xs ys P D (char_rows a A c ft p_data w x y i D d)"
proof (induction "unat (font_height ft) - i" arbitrary: i y D d)
  case 0
  then show ?case by (simp add: char_rows.simps safe_Inr)
next
  case (Suc r)
  let ?n = "(unat w + 7) div 8"
  have less: "i < unat (font_height ft)" "r = unat (font_height ft) - Suc i" using Suc.hyps(2) by simp_all
  have n8: "?n \<le> 8" using w(2) by (simp add: kMaxCharWidth_def)
  have "?n * Suc i \<le> ?n * unat (font_height ft)" using less(1) by (intro mult_le_mono2) simp
  then have "p_data + ?n * i + ?n \<le> length (font_table ft)" using table by simp
  then obtain l where l: "glyph_line (font_table ft) (p_data + ?n * i) 0 ?n 0 = Inr l"
    using glyph_line_bits [OF n8, of 0] by blast
  obtain v where "get_color_value a (pixel_format_of D) c = Inr v" using color_known [OF Suc.prems(2)] by blast
  then obtain arr where arr: "char_row a c D (unat w) (8 * ?n - unat w) l 0 (replicate kMaxCharWidth 0) = Inr arr"
    "length arr = kMaxCharWidth"
    using char_row_values [of a D c v "unat w" "replicate kMaxCharWidth 0" 0 "8 * ?n - unat w" l] w(2) by auto
  have "safe xs ys P D (fill_rgb_rect A x y arr (ucast w) 1 D d)"
    by (rule fill_rgb_rect_safe [OF Suc.prems]) (use w(2) arr(2) in simp)
  moreover have "char_rows a A c ft p_data w x y i D d = bindR (fill_rgb_rect A x y arr (ucast w) 1 D d)
      (\<lambda>(D', d'). char_rows a A c ft p_data w x (y + 1) (Suc i) D' d')"
    using less(1) l arr(1) Suc.prems(2) by (subst char_rows.simps) (auto simp: Let_def display_ok_def)
  ultimately show ?case using Suc.hyps(1) [OF less(2)] Suc.prems(1) by (simp add: safe_bind)
qed

lemma display_char_safe:
  assumes "watches A xs ys (unat (bytes_per_pixel D)) P" and "display_ok xs ys D" and "P d"
    and ft: "p_font D = Some ft" "font_ok ft"
  shows "safe xs ys P D (display_char a A c x y u D d)"
proof (cases "font_get_glyph_from (font_chars ft) u")
  case None
  with assms(2,3) ft(1) show ?thesis by (simp add: display_char_def with_font_def font_get_glyph_def safe_Inr)
next
  case (Some g)
  obtain p_data w where g: "g = (p_data, w)" by (cases g)
  have glyph: "0 < unat w" "unat w < kMaxCharWidth" "p_data + (unat w + 7) div 8 * unat (font_height ft) \<le> length (font_table ft)"
    using glyph_and_width(2) [OF Some [unfolded g]] ft(2) by (auto simp: font_ok_def)
  have "display_char a A c x y u D d = char_rows a A c ft p_data w x y 0 D d"
    using Some g ft(1) glyph(2) by (simp add: display_char_def with_font_def font_get_glyph_def)
  then show ?thesis using char_rows_safe [OF glyph assms(1-3)] by simp
qed

lemma draw_chars_safe:
  assumes ft: "font_ok ft"
  shows "watches A xs ys (unat (bytes_per_pixel D)) P \<Longrightarrow> display_ok xs ys D \<Longrightarrow> P d \<Longrightarrow> p_font D = Some ft \<Longrightarrow>
    safe xs ys P D (draw_chars a A c y str total_width col D d)"
proof (induction str arbitrary: total_width col D d)
  case (Cons ch str)
  have width: "get_char_width a (p_font D) (ucast ch) = Inr (get_char_width_from (font_chars ft) (ucast ch))"
    using Cons.prems(4) by (simp add: get_char_width_def with_font_def)
  have "safe xs ys P D (bindR (display_char a A c col y (ucast ch) D d) (\<lambda>(D', d').
      draw_chars a A c y str width' col' D' d'))" for width' col'
    by (rule safe_bind [OF display_char_safe [OF Cons.prems ft]]) (use Cons in simp)
  then show ?case using width Cons.prems(2,3) by (simp add: Let_def safe_Inr)
qed (simp add: safe_Inr)

lemma draw_string_at_safe:
  assumes "watches A xs ys (unat (bytes_per_pixel D)) P" and "display_ok xs ys D" and "P d"
    and "p_font D = Some ft" and "font_ok ft"
  shows "safe xs ys P D (draw_string_at a A c x y text D d)"
  using draw_chars_safe [OF assms(5,1-4)] assms(4) by (simp add: draw_string_at_def Let_def)

lemma string_width_known: "\<exists>n. string_width_from a s (Some ft) str n0 = Inr n"
  by (induction str arbitrary: n0) (simp_all add: get_char_width_def with_font_def)

lemma draw_string_at_line_safe:
  assumes "watches A xs ys (unat (bytes_per_pixel D)) P" and "display_ok xs ys D" and "P d"
    and "p_font D = Some ft" and "font_ok ft"
  shows "safe xs ys P D (draw_string_at_line a s A c line text mode D d)"
proof -
  obtain n where "get_string_width a s text D = Inr n"
    using string_width_known [of a s ft "text" 0] assms(4) by (auto simp: get_string_width_def)
  then show ?thesis
    using assms(4) draw_string_at_safe [OF assms]
    by (simp add: draw_string_at_line_def compute_ypos_from_line_number_def get_font_def Let_def)
qed

section \<open>Programs\<close>

text \<open>The calls a client can make on a display that change something.\<close>

datatype display_call =
    Fill_display color
  | Set_background_color color
  | Set_font "font option"
  | Fill_rectangle color u32 u32 u32 u32
  | Draw_vertical_line color u32 u32 u32 u32
  | Draw_horizontal_line color u32 u32 u32 u32
  | Draw_icon u16 u16 "u32 list" u16 u16
  | Draw_string_at_line color u32 "u8 list" align_mode
  | Draw_string_at color u32 u32 "u8 list"

fun call_display :: "bool \<Rightarrow> bool \<Rightarrow> 'd display_api \<Rightarrow> display_call \<Rightarrow> display \<Rightarrow> 'd \<Rightarrow> (display \<times> 'd) run" where
  "call_display a s A (Fill_display c) D d = fill_display a A c D d"
| "call_display a s A (Set_background_color c) D d = bindR (set_background_color a c D) (\<lambda>D'. Inr (D', d))"
| "call_display a s A (Set_font pf) D d = Inr (set_font pf D, d)"
| "call_display a s A (Fill_rectangle c x y w h) D d = fill_rectangle a A c x y w h D d"
| "call_display a s A (Draw_vertical_line c x y n th) D d = draw_vertical_line a A c x y n th D d"
| "call_display a s A (Draw_horizontal_line c x y n th) D d = draw_horizontal_line a A c x y n th D d"
| "call_display a s A (Draw_icon x y src w h) D d = draw_icon A x y src w h D d"
| "call_display a s A (Draw_string_at_line c line str mode) D d = draw_string_at_line a s A c line str mode D d"
| "call_display a s A (Draw_string_at c x y str) D d = draw_string_at a A c x y str D d"

fun call_displays :: "bool \<Rightarrow> bool \<Rightarrow> 'd display_api \<Rightarrow> display_call list \<Rightarrow> display \<Rightarrow> 'd \<Rightarrow> (display \<times> 'd) run" where
  "call_displays a s A [] D d = Inr (D, d)"
| "call_displays a s A (call # calls) D d = bindR (call_display a s A call D d) (\<lambda>(D, d). call_displays a s A calls D d)"

text \<open>
  What the client owes: a picture has as many elements as it announces, a font is well formed, and a
  font is set (\<open>font_set\<close>) before a text is drawn. Coordinates, lengths and texts are arbitrary.
\<close>

fun calls_ok :: "bool \<Rightarrow> display_call list \<Rightarrow> bool" where
  "calls_ok font_set [] \<longleftrightarrow> True"
| "calls_ok font_set (Set_font pf # calls) \<longleftrightarrow>
     (case pf of None \<Rightarrow> calls_ok False calls | Some ft \<Rightarrow> font_ok ft \<and> calls_ok True calls)"
| "calls_ok font_set (Draw_icon x y src w h # calls) \<longleftrightarrow> unat w * unat h \<le> length src \<and> calls_ok font_set calls"
| "calls_ok font_set (Draw_string_at_line c line str mode # calls) \<longleftrightarrow> font_set \<and> calls_ok font_set calls"
| "calls_ok font_set (Draw_string_at c x y str # calls) \<longleftrightarrow> font_set \<and> calls_ok font_set calls"
| "calls_ok font_set (call # calls) \<longleftrightarrow> calls_ok font_set calls"

definition font_is :: "bool \<Rightarrow> display \<Rightarrow> bool" where
  "font_is font_set D \<longleftrightarrow> font_set \<longrightarrow> (\<exists>ft. p_font D = Some ft \<and> font_ok ft)"

lemma fill_display_safe:
  assumes "watches A xs ys (unat (bytes_per_pixel D)) P" and "display_ok xs ys D" and "P d"
  shows "safe xs ys P D (fill_display a A c D d)"
  unfolding fill_display_def
proof (rule safe_bind [OF fill_rectangle_safe [OF assms]])
  fix D' d' assume "display_ok xs ys D'" and "P d'"
  then show "safe xs ys P D' (let (ret, d'') = display_blanking_off A d' in Inr (D', d''))"
    using assms(1) by (simp add: watches_def safe_Inr split_beta)
qed

lemma display_ok_settings:
  "display_ok xs ys (D\<lparr>p_font := pf\<rparr>) = display_ok xs ys D"
  "display_ok xs ys (D\<lparr>background_color := c, background_color_value := v\<rparr>) = display_ok xs ys D"
  unfolding display_ok_def pixel_format_of_def bytes_per_pixel_def by simp_all

lemma set_background_color_safe:
  assumes "display_ok xs ys D" and "P d"
  shows "safe xs ys P D (bindR (set_background_color a c D) (\<lambda>D'. Inr (D', d)))"
proof -
  obtain v where "get_color_value a (pixel_format_of D) c = Inr v" using color_known [OF assms(1)] by blast
  then show ?thesis
    using assms by (simp add: set_background_color_def safe_def display_ok_settings) (simp add: bytes_per_pixel_def pixel_format_of_def)
qed

text \<open>One call, with what it leaves for the calls after it.\<close>

lemma call_display_safe:
  assumes "watches A xs ys (unat (bytes_per_pixel D)) P" and "display_ok xs ys D" and "P d"
    and "calls_ok fs (call # calls)" and "font_is fs D"
  shows "\<exists>D' d' fs'. call_display a s A call D d = Inr (D', d') \<and> display_ok xs ys D' \<and> P d' \<and>
    bytes_per_pixel D' = bytes_per_pixel D \<and> font_is fs' D' \<and> calls_ok fs' calls"
proof -
  have keeps: ?thesis if "safe xs ys P D (call_display a s A call D d)" and "calls_ok fs calls"
    using that assms(5) unfolding safe_def font_is_def by metis
  have font: "\<exists>ft. p_font D = Some ft \<and> font_ok ft" if fs using that assms(5) by (simp add: font_is_def)
  show ?thesis
  proof (cases call)
    case (Set_font pf)
    then have "display_ok xs ys (set_font pf D)" "bytes_per_pixel (set_font pf D) = bytes_per_pixel D"
      using assms(2) by (simp_all add: set_font_def display_ok_settings bytes_per_pixel_def pixel_format_of_def)
    moreover have "font_is (pf \<noteq> None) (set_font pf D) \<and> calls_ok (pf \<noteq> None) calls"
      using assms(4) Set_font by (cases pf) (simp_all add: font_is_def set_font_def)
    ultimately show ?thesis using Set_font assms(3) by auto
  next
    case Draw_string_at_line
    have fs "calls_ok fs calls" using assms(4) unfolding Draw_string_at_line calls_ok.simps by blast+
    from font [OF this(1)] obtain ft where ft: "p_font D = Some ft" "font_ok ft" by blast
    show ?thesis by (rule keeps) (use Draw_string_at_line \<open>calls_ok fs calls\<close> draw_string_at_line_safe [OF assms(1-3) ft] in simp_all)
  next
    case Draw_string_at
    have fs "calls_ok fs calls" using assms(4) unfolding Draw_string_at calls_ok.simps by blast+
    from font [OF this(1)] obtain ft where ft: "p_font D = Some ft" "font_ok ft" by blast
    show ?thesis by (rule keeps) (use Draw_string_at \<open>calls_ok fs calls\<close> draw_string_at_safe [OF assms(1-3) ft] in simp_all)
  qed (rule keeps; use assms(4) fill_display_safe [OF assms(1-3)] set_background_color_safe [OF assms(2), of P d]
      fill_rectangle_safe [OF assms(1-3)] draw_icon_safe [OF assms(1-3)]
      in \<open>simp add: draw_vertical_line_def draw_horizontal_line_def assms(3)\<close>)+
qed

lemma call_displays_safe:
  "watches A xs ys (unat (bytes_per_pixel D)) P \<Longrightarrow> display_ok xs ys D \<Longrightarrow> P d \<Longrightarrow> calls_ok fs calls \<Longrightarrow> font_is fs D \<Longrightarrow>
    \<exists>D' d'. call_displays a s A calls D d = Inr (D', d') \<and> display_ok xs ys D' \<and> P d'"
proof (induction calls arbitrary: fs D d)
  case (Cons call calls)
  obtain D1 d1 fs1 where *: "call_display a s A call D d = Inr (D1, d1)" "display_ok xs ys D1" "P d1"
    "bytes_per_pixel D1 = bytes_per_pixel D" "font_is fs1 D1" "calls_ok fs1 calls"
    using call_display_safe [OF Cons.prems] by blast
  show ?case using Cons.IH [OF _ *(2,3,6,5)] Cons.prems(1) *(1,4) by simp
qed simp

section \<open>Properties\<close>

text \<open>
  C16: well-typed displays do not go wrong. After a successful \<open>initialize\<close>, any sequence of calls with
  any coordinates, lengths, colours and texts returns: no assertion fails, no null pointer is followed
  and no array is accessed outside its bounds, if pictures and fonts are as large as they announce,
  every character of a font is 1 to 47 columns wide (\<open>display_char\<close> asserts fewer than \<open>kMaxCharWidth\<close> = 48)
  and a font is set before a text is drawn. Every request that reaches the driver is for a rectangle on the
  screen with its pixels in the line buffer: what such requests keep, the calls keep.
\<close>

theorem display_calls_well_typed:
  assumes "\<forall>n buf d'. k_heap_alloc A n d0 = (Some buf, d') \<longrightarrow> length buf = n"
    and "x_resolution (display_get_capabilities A d0) \<noteq> 0" and "y_resolution (display_get_capabilities A d0) \<noteq> 0"
    and "initialize E A D0 d0 = (res, D, d)" and "r_bool res" and "calls_ok False calls"
    and "watches A (unat (get_width D)) (unat (get_height D)) (unat (bytes_per_pixel D)) P" and "P d"
  shows "\<exists>D' d'. call_displays a s A calls D d = Inr (D', d') \<and> P d' \<and>
    display_ok (unat (get_width D)) (unat (get_height D)) D'"
proof -
  note initialize_cases [OF assms(1) refl assms(2-4)]
  then have "\<exists>xs ys. display_ok xs ys D" using assms(4,5)
    by (cases "device_is_ready A d0 \<and> current_pixel_format (display_get_capabilities A d0) \<noteq> Other_pixel_format")
      (auto simp: result_defs split: if_splits)
  then have "display_ok (unat (get_width D)) (unat (get_height D)) D" by (auto simp: get_width_def get_height_def display_ok_def)
  from call_displays_safe [OF assms(7) this assms(8,6), of a s] show ?thesis by (auto simp: font_is_def)
qed

theorem display_calls_well_typed_witness:
  "\<exists>D d D' d'. initialize (\<lambda>_. 1) demo_device Display_ctor (\<lambda>_ _. []) = (ZephyrResult, D, d) \<and>
    call_displays True True demo_device [Fill_display Blue, Set_font (Some demo_font), Draw_string_at Green 0xFFFFFFFF 5 [65, 200],
      Draw_string_at_line Green 3 [65, 65] Center, Fill_rectangle White 100 0xFFFFFFFF 0xFFFFFFFF 7] D d = Inr (D', d') \<and>
    d' 8 0 = [] \<and> d' 0 6 = []"
proof -
  let ?calls = "[Fill_display Blue, Set_font (Some demo_font), Draw_string_at Green 0xFFFFFFFF 5 [65, 200],
      Draw_string_at_line Green 3 [65, 65] Center, Fill_rectangle White 100 0xFFFFFFFF 0xFFFFFFFF 7]"
  let ?P = "\<lambda>d :: nat \<Rightarrow> nat \<Rightarrow> u8 list. \<forall>i j. \<not> (i < 8 \<and> j < 6) \<longrightarrow> d i j = []"
  obtain D d where i: "initialize (\<lambda>_. 1) demo_device Display_ctor (\<lambda>_ _. []) = (ZephyrResult, D, d)"
    and D: "unat (get_width D) = 8" "unat (get_height D) = 6" "unat (bytes_per_pixel D) = 3" and d: "d = (\<lambda>_ _. [])"
    by (simp add: initialize_def demo_device_def Let_def Display_ctor_def get_width_def get_height_def
        bytes_per_pixel_def pixel_format_of_def)
  have ok: "calls_ok False ?calls" by (simp add: font_ok_def demo_font_def kMaxCharWidth_def)
  have res: "r_bool ZephyrResult" by (simp add: result_defs)
  have watch: "watches demo_device (unat (get_width D)) (unat (get_height D)) (unat (bytes_per_pixel D)) ?P"
    unfolding D by (auto simp: watches_def request_ok_def demo_device_def)
  have "\<exists>D' d'. call_displays True True demo_device ?calls D d = Inr (D', d') \<and> ?P d' \<and>
      display_ok (unat (get_width D)) (unat (get_height D)) D'"
    by (rule display_calls_well_typed [OF _ _ _ i res ok watch]) (simp_all add: demo_device_def d)
  then obtain D' d' where "call_displays True True demo_device ?calls D d = Inr (D', d')" "?P d'" by blast
  with i show ?thesis by (intro exI conjI) (assumption | simp)+
qed

end
