(* ===== verification/Barrier_User.thy ===== *)
theory Barrier_User
  imports Barrier_Class Mutex_Pool
begin

text \<open>
  \<open>Barrier\<close> in the userspace build: its members take their kernel objects from the pools of
  \<open>Mutex\<close> and \<open>Semaphore\<close>. A barrier that is the only one behaves as in \<open>Barrier_Class\<close>; two of them
  have different mutexes and one semaphore.
\<close>

section \<open>The constructor\<close>

text \<open>Members are initialised in the order of their declaration: the semaphore, then the mutex.\<close>

definition Barrier_ctor_user ::
  "bool \<Rightarrow> nat \<Rightarrow> addr list \<Rightarrow> addr list \<Rightarrow> 'k sem_api \<Rightarrow> u32 \<Rightarrow> mutex_pool \<times> sem_pool \<times> 'k \<Rightarrow>
    (barrier \<times> mutex_pool \<times> sem_pool \<times> 'k) run" where
  "Barrier_ctor_user config_assert totalNbrOfMutexes marr sarr S nbr_of_threads = (\<lambda>(ms, ss, k).
     bindR (Semaphore_ctor_user config_assert sarr S 0 nbr_of_threads (ss, k)) (\<lambda>(p_sem, ss, k).
     bindR (Mutex_ctor_user config_assert totalNbrOfMutexes marr (ms, k)) (\<lambda>(p_mutex, ms, k).
     Inr (\<lparr>bar_sem = p_sem, bar_mutex = p_mutex, bar_count = nbr_of_threads, bar_total = nbr_of_threads\<rparr>, ms, ss, k))))"

text \<open>Pools from which \<open>room\<close> more objects can be taken; no mutex of the array is locked.\<close>

definition pools_ok :: "nat \<Rightarrow> addr list \<Rightarrow> addr list \<Rightarrow> 'k view \<Rightarrow> nat \<Rightarrow> mutex_pool \<times> sem_pool \<times> 'k \<Rightarrow> bool" where
  "pools_ok n marr sarr V room = (\<lambda>(ms, ss, k). pool_inv n marr (ms, k) \<and> card (pool_live marr (ms, k)) + room \<le> n \<and>
     (\<forall>p\<in>set marr. mx V k p = None) \<and>
     (\<exists>m>0. ZPP_SEMAPHORE_ARRAY_BUSY ss = replicate m False) \<and>
     unat (semaphoreInstanceCount ss) + room \<le> length sarr \<and> length sarr < 256)"

lemma Semaphore_ctor_user_first:
  assumes "sem_laws E C S V" and "ZPP_SEMAPHORE_ARRAY_BUSY s = replicate m False" and "0 < m"
    and "unat (semaphoreInstanceCount s) < length arr" and "l \<noteq> 0" and "i \<le> l"
  shows "\<exists>k'. Semaphore_ctor_user a arr S i l (s, k) =
      Inr (arr ! 0, s\<lparr>semaphoreInstanceCount := semaphoreInstanceCount s + 1\<rparr>, k') \<and>
    sm V k' = (sm V k)(arr ! 0 := (unat i, unat l)) \<and> mx V k' = mx V k"
proof -
  obtain k' where k': "k_sem_init S (arr ! 0) i l k = (0, k')" "sm V k' = (sm V k)(arr ! 0 := (unat i, unat l))"
    "mx V k' = mx V k"
    using sem_init_ok [OF assms(1,5,6)] by blast
  have "free_slot (length arr) (replicate m False) = 0"
    using assms(3,4) by (cases m; cases arr) (auto simp: free_slot_def)
  then show ?thesis using k' assms(2-4) by (auto simp: Semaphore_ctor_user_def Let_def)
qed

lemma Barrier_ctor_user_ok:
  assumes "sem_laws E C S V" and "pools_ok n marr sarr V (Suc room) p" and "nbr \<noteq> 0"
  shows "\<exists>b p'. Barrier_ctor_user a n marr sarr S nbr p = Inr (b, p') \<and> pools_ok n marr sarr V room p' \<and>
    bar_sem b = sarr ! 0 \<and> bar_mutex b \<in> set marr \<and> bar_mutex b \<notin> pool_live marr (fst p, snd (snd p)) \<and>
    pool_live marr (fst p', snd (snd p')) = insert (bar_mutex b) (pool_live marr (fst p, snd (snd p))) \<and>
    bar_count b = nbr \<and> bar_total b = nbr \<and> sm V (snd (snd p')) (sarr ! 0) = (0, unat nbr)"
proof -
  obtain ms ss k where p: "p = (ms, ss, k)" by (cases p)
  obtain m where pools: "pool_inv n marr (ms, k)" "card (pool_live marr (ms, k)) < n" "\<forall>p\<in>set marr. mx V k p = None"
    "ZPP_SEMAPHORE_ARRAY_BUSY ss = replicate m False" "0 < m" "unat (semaphoreInstanceCount ss) < length sarr" "length sarr < 256"
    and room: "card (pool_live marr (ms, k)) + Suc room \<le> n" "unat (semaphoreInstanceCount ss) + Suc room \<le> length sarr"
    using assms(2) by (auto simp: p pools_ok_def)
  obtain k1 where k1: "Semaphore_ctor_user a sarr S 0 nbr (ss, k) =
      Inr (sarr ! 0, ss\<lparr>semaphoreInstanceCount := semaphoreInstanceCount ss + 1\<rparr>, k1)"
    "sm V k1 = (sm V k)(sarr ! 0 := (unat 0, unat nbr))" "mx V k1 = mx V k"
    using Semaphore_ctor_user_first [OF assms(1) pools(4-6) assms(3), of 0 a k] by auto
  have same: "pool_inv n marr (ms, k1)" "pool_live marr (ms, k1) = pool_live marr (ms, k)"
    using pools(1) by (simp_all add: pool_inv_def pool_live_def)
  obtain q ms' k2 where q: "Mutex_ctor_user a n marr (ms, k1) = Inr (q, ms', k2)" "q \<notin> pool_live marr (ms, k)"
    "pool_live marr (ms', k2) = insert q (pool_live marr (ms, k))" "pool_inv n marr (ms', k2)"
    using mpool.alloc_fresh [where config_assert = a, OF same(1)] pools(2) same(2) by fastforce
  have k2: "k2 = k1" by (rule Mutex_ctor_user_kernel(1) [OF q(1)])
  have "pool_live marr (ms', k2) \<subseteq> set marr"
    using q(4) live_slots_subset [of marr] by (simp add: pool_inv_def pool_live_def)
  then have "q \<in> set marr" using q(3) by blast
  moreover have "finite (pool_live marr (ms, k))" using pool_inv_card [OF pools(1)] by simp
  then have "card (pool_live marr (ms', k2)) = Suc (card (pool_live marr (ms, k)))" using q(2,3) by simp
  moreover have "unat (semaphoreInstanceCount ss + 1) = Suc (unat (semaphoreInstanceCount ss))"
    using pools(6,7) by (intro unat_u8_inc) simp
  ultimately show ?thesis
    using q k1 k2 pools room
    by (auto simp: p Barrier_ctor_user_def pools_ok_def)
qed

text \<open>The only barrier, when its semaphore is the only one: what \<open>Barrier_Class\<close> proves of it holds.\<close>

lemma user_barrier_fresh:
  assumes "sem_laws E C S V" and "pools_ok n marr sarr V (Suc room) p" and "nbr \<noteq> 0"
  shows "\<exists>b p'. Barrier_ctor_user a n marr sarr S nbr p = Inr (b, p') \<and>
    fresh_barrier V (unat nbr) i \<lparr>kern = snd (snd p'), bars = (\<lambda>_. b), start_time = now\<rparr>"
proof -
  obtain b p' where *: "Barrier_ctor_user a n marr sarr S nbr p = Inr (b, p')" "pools_ok n marr sarr V room p'"
    "bar_sem b = sarr ! 0" "bar_mutex b \<in> set marr" "bar_count b = nbr" "bar_total b = nbr"
    "sm V (snd (snd p')) (sarr ! 0) = (0, unat nbr)"
    using Barrier_ctor_user_ok [OF assms, of a] by blast
  then have "mx V (snd (snd p')) (bar_mutex b) = None" by (auto simp: pools_ok_def)
  with * assms(3) show ?thesis by (simp add: fresh_barrier_def unat_gt_0)
qed

section \<open>Two barriers\<close>

text \<open>Statements of one thread, with the whole kernel state after them.\<close>

lemma lock_call_view:
  assumes "mutex_laws E C M V" and "mx V (kern w) p = None"
  shows "\<exists>k. call_res a (Mutex_lock a C M t p) w = Inr (w\<lparr>kern := k\<rparr>) \<and>
    mx V k = (mx V (kern w))(p := Some (t, 1)) \<and> sm V k = sm V (kern w)"
  using mutex_lock_free [OF assms, of t "K_FOREVER C"] by (auto simp: call_res_def Mutex_lock_def)

lemma unlock_call_view:
  assumes "mutex_laws E C M V" and "mx V (kern w) p = Some (t, 1)"
  shows "\<exists>k. call_res a (Mutex_unlock a M t p) w = Inr (w\<lparr>kern := k\<rparr>) \<and>
    mx V k = (mx V (kern w))(p := None) \<and> sm V k = sm V (kern w)"
  using mutex_unlock_owner [OF assms(1), of "kern w" p t 0] assms(2) by (auto simp: call_res_def Mutex_unlock_def)

lemma run_schedule_append:
  "run_schedule a C S M (xs @ ys) s = (case run_schedule a C S M xs s of None \<Rightarrow> None | Some s' \<Rightarrow> run_schedule a C S M ys s')"
  by (induction xs arbitrary: s) (auto split: option.splits)

text \<open>A thread that is not the last to arrive, up to the wait for the semaphore.\<close>

lemma arrive_early:
  assumes laws: "mutex_laws E C M V" and pc: "pcs s t = Some (i, Locking)" and b: "bars (world s) i = b"
    and free: "mx V (kern (world s)) (bar_mutex b) = None" and count: "bar_count b \<noteq> 1"
  shows "\<exists>s'. run_schedule a C S M (replicate 3 (t, now)) s = Some s' \<and> pcs s' = (pcs s)(t \<mapsto> (i, Acquiring)) \<and>
    bars (world s') = (bars (world s))(i := b\<lparr>bar_count := bar_count b - 1\<rparr>) \<and>
    mx V (kern (world s')) = mx V (kern (world s)) \<and> sm V (kern (world s')) = sm V (kern (world s))"
proof -
  let ?p = "bar_mutex b"
  obtain k1 where k1: "call_res a (Mutex_lock a C M t ?p) (world s) = Inr ((world s)\<lparr>kern := k1\<rparr>)"
    "mx V k1 = (mx V (kern (world s)))(?p := Some (t, 1))" "sm V k1 = sm V (kern (world s))"
    using lock_call_view [OF laws free] by blast
  define w2 where "w2 = (world s)\<lparr>kern := k1, bars := (bars (world s))(i := b\<lparr>bar_count := bar_count b - 1\<rparr>)\<rparr>"
  have w2: "kern w2 = k1" "bars w2 = (bars (world s))(i := b\<lparr>bar_count := bar_count b - 1\<rparr>)" by (simp_all add: w2_def)
  obtain k2 where k2: "call_res a (Mutex_unlock a M t ?p) w2 = Inr (w2\<lparr>kern := k2\<rparr>)"
    "mx V k2 = (mx V k1)(?p := None)" "sm V k2 = sm V k1"
    using unlock_call_view [OF laws, of w2 ?p t a] k1(2) unfolding w2(1) by auto
  let ?s1 = "s\<lparr>world := (world s)\<lparr>kern := k1\<rparr>, pcs := (pcs s)(t \<mapsto> (i, Counting))\<rparr>"
  let ?s2 = "s\<lparr>world := w2, pcs := (pcs s)(t \<mapsto> (i, Unlocking))\<rparr>"
  let ?s3 = "s\<lparr>world := w2\<lparr>kern := k2\<rparr>, pcs := (pcs s)(t \<mapsto> (i, Acquiring))\<rparr>"
  have "sys_step a C S M t now s = Some ?s1" using pc b k1(1) by (simp add: sys_step_def)
  moreover have "sys_step a C S M t now ?s1 = Some ?s2" using b count by (simp add: sys_step_def Let_def w2_def)
  moreover have "sys_step a C S M t now ?s2 = Some ?s3" using k2(1) by (simp add: sys_step_def w2(2))
  ultimately have "run_schedule a C S M (replicate 3 (t, now)) s = Some ?s3" by (simp add: eval_nat_numeral)
  moreover have "mx V k2 = mx V (kern (world s))" using k1(2) k2(2) free by (simp add: fun_eq_iff)
  ultimately show ?thesis using k1(3) k2(3) by (intro exI [of _ ?s3]) (simp add: w2(2))
qed

text \<open>The only thread of a barrier for one, up to the wait for the semaphore.\<close>

lemma arrive_last:
  assumes laws: "mutex_laws E C M V" "sem_laws E C S V" and pc: "pcs s t = Some (i, Locking)" and b: "bars (world s) i = b"
    and free: "mx V (kern (world s)) (bar_mutex b) = None" and one: "bar_count b = 1" "bar_total b = 1"
    and tokens: "sm V (kern (world s)) (bar_sem b) = (0, 1)"
  shows "\<exists>s'. run_schedule a C S M (replicate 6 (t, now)) s = Some s' \<and> pcs s' = (pcs s)(t \<mapsto> (i, Acquiring)) \<and>
    bars (world s') = (bars (world s))(i := b\<lparr>bar_count := 0\<rparr>) \<and> start_time (world s') = now \<and>
    sm V (kern (world s')) (bar_sem b) = (1, 1)"
proof -
  let ?p = "bar_mutex b" and ?q = "bar_sem b"
  obtain k1 where k1: "call_res a (Mutex_lock a C M t ?p) (world s) = Inr ((world s)\<lparr>kern := k1\<rparr>)"
    "mx V k1 = (mx V (kern (world s)))(?p := Some (t, 1))" "sm V k1 = sm V (kern (world s))"
    using lock_call_view [OF laws(1) free] by blast
  define w2 where "w2 = (world s)\<lparr>kern := k1, bars := (bars (world s))(i := b\<lparr>bar_count := 0\<rparr>)\<rparr>"
  define w3 where "w3 = w2\<lparr>start_time := now\<rparr>"
  have w3: "kern w3 = k1" "bars w3 = (bars (world s))(i := b\<lparr>bar_count := 0\<rparr>)" "start_time w3 = now"
    by (simp_all add: w2_def w3_def)
  obtain k2 where k2: "call_res a (Semaphore_release S ?q) w3 = Inr (w3\<lparr>kern := k2\<rparr>)" "sm V k2 ?q = (1, 1)" "mx V k2 = mx V k1"
    using release_call [OF laws(2), of w3 ?q 0 1 a] k1(3) tokens unfolding w3(1) by auto
  have "mx V (kern (w3\<lparr>kern := k2\<rparr>)) ?p = Some (t, 1)" by (simp add: k1(2) k2(3))
  from unlock_call_view [OF laws(1) this, of a] obtain k3 where
    k3: "call_res a (Mutex_unlock a M t ?p) (w3\<lparr>kern := k2\<rparr>) = Inr (w3\<lparr>kern := k3\<rparr>)" "sm V k3 = sm V k2" by auto
  let ?at = "\<lambda>w pc. s\<lparr>world := w, pcs := (pcs s)(t \<mapsto> (i, pc))\<rparr>"
  let ?s6 = "?at (w3\<lparr>kern := k3\<rparr>) Acquiring"
  have "sys_step a C S M t now s = Some (?at ((world s)\<lparr>kern := k1\<rparr>) Counting)" using pc b k1(1) by (simp add: sys_step_def)
  moreover have "sys_step a C S M t now (?at ((world s)\<lparr>kern := k1\<rparr>) Counting) = Some (?at w2 Timing)"
    using b one by (simp add: sys_step_def Let_def w2_def)
  moreover have "sys_step a C S M t now (?at w2 Timing) = Some (?at w3 (Releasing 0))" by (simp add: sys_step_def w3_def)
  moreover have "sys_step a C S M t now (?at w3 (Releasing 0)) = Some (?at (w3\<lparr>kern := k2\<rparr>) (Releasing 1))"
    using k2(1) one by (simp add: sys_step_def w3(2))
  moreover have "sys_step a C S M t now (?at (w3\<lparr>kern := k2\<rparr>) (Releasing 1)) = Some (?at (w3\<lparr>kern := k2\<rparr>) Unlocking)"
    using one by (simp add: sys_step_def w3(2))
  moreover have "sys_step a C S M t now (?at (w3\<lparr>kern := k2\<rparr>) Unlocking) = Some ?s6"
    using k3(1) by (simp add: sys_step_def w3(2))
  moreover have "replicate 6 (t, now) = [(t, now), (t, now), (t, now), (t, now), (t, now), (t, now)]" by (simp add: eval_nat_numeral)
  ultimately have "run_schedule a C S M (replicate 6 (t, now)) s = Some ?s6" by (simp only: run_schedule.simps option.case)
  then show ?thesis using k2(2) k3(2) w3 by (intro exI [of _ ?s6]) simp
qed

text \<open>A thread that waits for a token that is there returns.\<close>

lemma pass_barrier:
  assumes "sem_laws E C S V" and "pcs s t = Some (i, Acquiring)" and "bar_sem (bars (world s) i) = q"
    and "sm V (kern (world s)) q = (Suc c, l)"
  shows "\<exists>s'. run_schedule a C S M (replicate 2 (t, now)) s = Some s' \<and>
    pcs s' = (pcs s)(t \<mapsto> (i, Returned (start_time (world s)))) \<and> bars (world s') = bars (world s) \<and>
    sm V (kern (world s')) q = (c, l)"
proof -
  obtain k where k: "call_res a (Semaphore_acquire C S q) (world s) = Inr ((world s)\<lparr>kern := k\<rparr>)" "sm V k q = (c, l)"
    using acquire_call [OF assms(1,4)] by blast
  let ?at = "\<lambda>pc. s\<lparr>world := (world s)\<lparr>kern := k\<rparr>, pcs := (pcs s)(t \<mapsto> (i, pc))\<rparr>"
  have "sys_step a C S M t now s = Some (?at Returning)" using assms(2,3) k(1) by (simp add: sys_step_def)
  moreover have "sys_step a C S M t now (?at Returning) = Some (?at (Returned (start_time (world s))))" by (simp add: sys_step_def)
  ultimately have "run_schedule a C S M (replicate 2 (t, now)) s = Some (?at (Returned (start_time (world s))))"
    by (simp add: numeral_2_eq_2)
  then show ?thesis using k(2) by (intro exI [of _ "?at (Returned (start_time (world s)))"]) simp
qed

text \<open>
  Two barriers with one semaphore, the second for one thread: \<open>t\<close> counts down at the first and waits,
  \<open>u\<close> opens the second, and the token lets \<open>t\<close> through.
\<close>

lemma shared_semaphore_schedule:
  assumes laws: "mutex_laws E C M V" "sem_laws E C S V" and ne: "t \<noteq> u"
    and pcs: "pcs s t = Some (0, Locking)" "pcs s u = Some (1, Locking)"
    and b0: "bars (world s) 0 = b0" "bar_sem b0 = q" "bar_count b0 \<noteq> 1" "mx V (kern (world s)) (bar_mutex b0) = None"
    and b1: "bars (world s) 1 = b1" "bar_sem b1 = q" "bar_count b1 = 1" "bar_total b1 = 1" "mx V (kern (world s)) (bar_mutex b1) = None"
    and sem: "sm V (kern (world s)) q = (0, 1)"
  shows "\<exists>s'. run_schedule a C S M (replicate 3 (t, now) @ replicate 6 (u, now) @ replicate 2 (t, now)) s = Some s' \<and>
    pcs s' t = Some (0, Returned now) \<and> bar_count (bars (world s') 0) = bar_count b0 - 1 \<and>
    (\<forall>now. sys_step a C S M u now s' = None)"
proof -
  from arrive_early [OF laws(1) pcs(1) b0(1,4,3), of a S now] obtain s1 where
    s1: "run_schedule a C S M (replicate 3 (t, now)) s = Some s1" "pcs s1 = (pcs s)(t \<mapsto> (0, Acquiring))"
    "bars (world s1) = (bars (world s))(0 := b0\<lparr>bar_count := bar_count b0 - 1\<rparr>)"
    "mx V (kern (world s1)) = mx V (kern (world s))" "sm V (kern (world s1)) = sm V (kern (world s))" by blast
  have u1: "pcs s1 u = Some (1, Locking)" "bars (world s1) 1 = b1" "mx V (kern (world s1)) (bar_mutex b1) = None"
    "sm V (kern (world s1)) (bar_sem b1) = (0, 1)" using s1 pcs b1 sem ne by simp_all
  from arrive_last [OF laws u1(1-3) b1(3,4) u1(4), of a now] obtain s2 where
    s2: "run_schedule a C S M (replicate 6 (u, now)) s1 = Some s2" "pcs s2 = (pcs s1)(u \<mapsto> (1, Acquiring))"
    "bars (world s2) = (bars (world s1))(1 := b1\<lparr>bar_count := 0\<rparr>)" "start_time (world s2) = now"
    "sm V (kern (world s2)) (bar_sem b1) = (1, 1)" by blast
  have t2: "pcs s2 t = Some (0, Acquiring)" "bar_sem (bars (world s2) 0) = q" "sm V (kern (world s2)) q = (Suc 0, 1)"
    using s2 s1 ne b0(2) b1(2) by simp_all
  from pass_barrier [OF laws(2) t2, of a M now] obtain s3 where
    s3: "run_schedule a C S M (replicate 2 (t, now)) s2 = Some s3" "pcs s3 = (pcs s2)(t \<mapsto> (0, Returned now))"
    "bars (world s3) = bars (world s2)" "sm V (kern (world s3)) q = (0, 1)" unfolding s2(4) by blast
  have "run_schedule a C S M (replicate 3 (t, now) @ replicate 6 (u, now) @ replicate 2 (t, now)) s = Some s3"
    unfolding run_schedule_append s1(1) option.case s2(1) s3(1) ..
  moreover have "sys_step a C S M u now' s3 = None" for now'
  proof -
    have "pcs s3 u = Some (1, Acquiring)" "bar_sem (bars (world s3) 1) = q"
      using s3(2,3) s2(2,3) b1(2) ne by simp_all
    then show ?thesis using acquire_call_empty [OF laws(2) s3(4), of a] by (simp add: sys_step_def)
  qed
  ultimately show ?thesis using s3(2,3) s2(3) s1(3) by auto
qed

text \<open>
  C35: in the userspace build two barriers do not work side by side. They have the same kernel
  semaphore, although each has a mutex of its own: when a thread waits at the first, for two threads or
  more, and the only thread of the second arrives, the one at the first is let through, with nobody else
  there, while the one at the second, all of whose threads are there, waits for ever.
\<close>

theorem user_barriers_interfere:
  assumes "mutex_laws E C M V" and "sem_laws E C S V" and "pools_ok n marr sarr V 2 p" and "1 < nbr" and "t \<noteq> u"
  shows "\<exists>b0 b1 p1 p2. Barrier_ctor_user a n marr sarr S nbr p = Inr (b0, p1) \<and>
    Barrier_ctor_user a n marr sarr S 1 p1 = Inr (b1, p2) \<and> bar_sem b0 = bar_sem b1 \<and> bar_mutex b0 \<noteq> bar_mutex b1 \<and>
    (let s = \<lparr>world = \<lparr>kern = snd (snd p2), bars = (\<lambda>_. b0)(1 := b1), start_time = time\<rparr>,
        pcs = [t \<mapsto> (0, Locking), u \<mapsto> (1, Locking)]\<rparr>
     in \<exists>s'. run_schedule a C S M (replicate 3 (t, now) @ replicate 6 (u, now) @ replicate 2 (t, now)) s = Some s' \<and>
       pcs s' t = Some (0, Returned now) \<and> unat (bar_count (bars (world s') 0)) = unat nbr - 1 \<and>
       (\<forall>now. sys_step a C S M u now s' = None))"
proof -
  have nbr: "nbr \<noteq> 0" "nbr \<noteq> 1" using assms(4) by auto
  have two: "pools_ok n marr sarr V (Suc (Suc 0)) p" using assms(3) by (simp add: numeral_2_eq_2)
  obtain b0 p1 where b0: "Barrier_ctor_user a n marr sarr S nbr p = Inr (b0, p1)" "pools_ok n marr sarr V (Suc 0) p1"
    "bar_sem b0 = sarr ! 0" "bar_mutex b0 \<in> set marr" "bar_mutex b0 \<in> pool_live marr (fst p1, snd (snd p1))"
    "bar_count b0 = nbr" "bar_total b0 = nbr"
    using Barrier_ctor_user_ok [OF assms(2) two nbr(1), of a] by auto
  obtain b1 p2 where b1: "Barrier_ctor_user a n marr sarr S 1 p1 = Inr (b1, p2)" "pools_ok n marr sarr V 0 p2"
    "bar_sem b1 = sarr ! 0" "bar_mutex b1 \<in> set marr" "bar_mutex b1 \<notin> pool_live marr (fst p1, snd (snd p1))"
    "bar_count b1 = 1" "bar_total b1 = 1" "sm V (snd (snd p2)) (sarr ! 0) = (0, 1)"
    using Barrier_ctor_user_ok [OF assms(2) b0(2), of 1 a] by auto
  let ?k = "snd (snd p2)"
  have free: "mx V ?k (bar_mutex b0) = None" "mx V ?k (bar_mutex b1) = None"
    using b1(2,4) b0(4) by (auto simp: pools_ok_def)
  define s where "s = \<lparr>world = \<lparr>kern = ?k, bars = (\<lambda>_. b0)(1 := b1), start_time = time\<rparr>,
        pcs = [t \<mapsto> (0, Locking), u \<mapsto> (1, Locking)]\<rparr>"
  have s: "pcs s t = Some (0, Locking)" "pcs s u = Some (1, Locking)" "bars (world s) 0 = b0" "bars (world s) 1 = b1"
    "kern (world s) = ?k" using assms(5) by (simp_all add: s_def)
  have "bar_count b0 \<noteq> 1" using b0(6) nbr(2) by simp
  from shared_semaphore_schedule [OF assms(1,2,5) s(1-3) b0(3) this _ s(4) b1(3,6,7), of a now] free b1(8)
  have "\<exists>s'. run_schedule a C S M (replicate 3 (t, now) @ replicate 6 (u, now) @ replicate 2 (t, now)) s = Some s' \<and>
       pcs s' t = Some (0, Returned now) \<and> unat (bar_count (bars (world s') 0)) = unat nbr - 1 \<and>
       (\<forall>now. sys_step a C S M u now s' = None)"
    unfolding s(5) b0(6) using unat_minus_one [OF nbr(1)] by metis
  moreover have "bar_mutex b0 \<noteq> bar_mutex b1" using b0(5) b1(5) by auto
  ultimately show ?thesis using b0(1,3) b1(1,3) unfolding Let_def s_def
    by (intro exI [of _ b0] exI [of _ b1] exI [of _ p1] exI [of _ p2]) simp
qed

theorem user_barriers_interfere_witness:
  "\<exists>b0 b1 p1 p2. Barrier_ctor_user True 2 [10, 20] [40, 50] ref_sem 3
      (pool_init 2, \<lparr>ZPP_SEMAPHORE_ARRAY_BUSY = [False, False], semaphoreInstanceCount = 0\<rparr>, rk0) = Inr (b0, p1) \<and>
    Barrier_ctor_user True 2 [10, 20] [40, 50] ref_sem 1 p1 = Inr (b1, p2) \<and> bar_sem b0 = bar_sem b1"
proof -
  have "pools_ok 2 [10, 20] [40, 50] ref_view 2
      (pool_init 2, \<lparr>ZPP_SEMAPHORE_ARRAY_BUSY = [False, False], semaphoreInstanceCount = 0\<rparr>, rk0)"
    using pool_inv_init [of 2 "[10, 20]" rk0] live_slots_none [of "[10, 20]" 2]
    by (auto simp: pools_ok_def pool_live_def pool_init_def rk0_def numeral_2_eq_2 intro!: exI [of _ 2])
  moreover have "(1 :: u32) < 3" "(1 :: tid) \<noteq> 2" by simp_all
  ultimately show ?thesis using user_barriers_interfere [OF ref_mutex_laws ref_sem_laws] by blast
qed

end
