(* ===== verification/Event_Pool.thy ===== *)
theory Event_Pool
  imports Event_Class Kernel_Pool
begin

text \<open>
  \<open>Event\<close> with \<open>CONFIG_USERSPACE\<close> (src/zpp_rtos/event.cpp): the constructor takes a kernel event
  from \<open>ZPP_EVENT_ARRAY\<close>, the destructor clears it and gives it back; the second constructor only
  copies an address. \<open>arr\<close> stands for \<open>ZPP_EVENT_ARRAY\<close>, whose elements \<open>K_EVENT_DEFINE\<close>
  initialises at boot.

  This branch does not compile as it stands: the counter is defined as \<open>Event::ZPP_ASSERT\<close>, which
  the class does not declare, read by the constructor as \<open>_eventInstanceCount\<close>, which nothing
  declares, and decremented by the destructor under its first name; the last assertion is spelt
  \<open>ZPP_ASSERTSERT\<close>. The model has the statements as they are written: both names are fields of
  their own, and the last assertion is read as \<open>ZPP_ASSERT\<close>.
\<close>

record event_pool =
  ZPP_EVENT_ARRAY_BUSY :: "bool list"
  eventInstanceCount :: u8
  declared_count :: u8

definition Event_ctor_user ::
  "bool \<Rightarrow> nat \<Rightarrow> addr list \<Rightarrow> event_pool \<times> 'k \<Rightarrow> (addr \<times> event_pool \<times> 'k) run" where
  "Event_ctor_user config_assert totalNbrOfEvents arr = (\<lambda>(s, k).
     bindR (ZPP_ASSERT config_assert (unat (eventInstanceCount s) < totalNbrOfEvents)) (\<lambda>_.
     let index = free_slot totalNbrOfEvents (ZPP_EVENT_ARRAY_BUSY s) in
     bindR (ZPP_ASSERT config_assert (index < totalNbrOfEvents)) (\<lambda>_.
     if index < length (ZPP_EVENT_ARRAY_BUSY s) \<and> index < length arr then
       Inr (arr ! index, s\<lparr>ZPP_EVENT_ARRAY_BUSY := (ZPP_EVENT_ARRAY_BUSY s)[index := True]\<rparr>, k)
     else Inl Undef)))"

definition Event_copy_ctor_user :: "addr \<Rightarrow> addr" where
  "Event_copy_ctor_user pEvent = pEvent"

definition Event_dtor_user ::
  "bool \<Rightarrow> nat \<Rightarrow> addr list \<Rightarrow> 'k event_api \<Rightarrow> addr \<Rightarrow> event_pool \<times> 'k \<Rightarrow> (event_pool \<times> 'k) run" where
  "Event_dtor_user config_assert totalNbrOfEvents arr A p = (\<lambda>(s, k).
     let index = slot_of totalNbrOfEvents arr p; found = (index < totalNbrOfEvents); kAllEvents = 0xFFFFFFFF;
         (s', k') = (if found then
             (s\<lparr>ZPP_EVENT_ARRAY_BUSY := (ZPP_EVENT_ARRAY_BUSY s)[index := False],
                declared_count := declared_count s - 1\<rparr>, k_event_clear A p kAllEvents k)
           else (s, k)) in
     bindR (ZPP_ASSERT config_assert found) (\<lambda>_. Inr (s', k')))"

text \<open>The pool at boot, its invariant and the events in use.\<close>

definition epool_init :: "nat \<Rightarrow> event_pool" where
  "epool_init n = \<lparr>ZPP_EVENT_ARRAY_BUSY = replicate n False, eventInstanceCount = 0, declared_count = 0\<rparr>"

definition epool_live :: "addr list \<Rightarrow> event_pool \<times> 'k \<Rightarrow> addr set" where
  "epool_live arr = (\<lambda>(s, k). live_slots arr (ZPP_EVENT_ARRAY_BUSY s))"

definition epool_inv :: "nat \<Rightarrow> addr list \<Rightarrow> event_pool \<times> 'k \<Rightarrow> bool" where
  "epool_inv n arr = (\<lambda>(s, k). distinct arr \<and> length arr = n \<and> length (ZPP_EVENT_ARRAY_BUSY s) = n \<and>
     eventInstanceCount s = 0)"

lemma epool_inv_init: "distinct arr \<Longrightarrow> length arr = n \<Longrightarrow> epool_inv n arr (epool_init n, k)"
  by (simp add: epool_inv_def epool_init_def)

interpretation epool: object_pool
  "Event_ctor_user config_assert n arr" "Event_dtor_user config_assert n arr A" "epool_live arr" n
  "if config_assert then Panic else Undef" "epool_inv n arr"
  for n arr config_assert A
proof (unfold_locales, goal_cases)
  case (1 p)
  then show ?case by (cases p) (auto simp: epool_inv_def epool_live_def intro: live_slots_card)
next
  case (2 p)
  obtain s k where p: "p = (s, k)" by (cases p)
  from 2 p have inv: "distinct arr" "length arr = n" "length (ZPP_EVENT_ARRAY_BUSY s) = n"
    "card (live_slots arr (ZPP_EVENT_ARRAY_BUSY s)) < n" "eventInstanceCount s = 0"
    by (auto simp: epool_inv_def epool_live_def)
  with p take_free_slot [OF inv(1-4)] show ?case
    by (simp add: Event_ctor_user_def epool_inv_def epool_live_def Let_def)
next
  case (3 p)
  obtain s k where p: "p = (s, k)" by (cases p)
  from 3 p have inv: "distinct arr" "length arr = n" "length (ZPP_EVENT_ARRAY_BUSY s) = n"
    "card (live_slots arr (ZPP_EVENT_ARRAY_BUSY s)) = n"
    by (simp_all add: epool_inv_def epool_live_def)
  with p full_has_no_slot [OF inv] show ?case by (simp add: Event_ctor_user_def ZPP_ASSERT_def Let_def)
next
  case (4 p a)
  obtain s k where p: "p = (s, k)" by (cases p)
  from 4 p have inv: "distinct arr" "length arr = n" "length (ZPP_EVENT_ARRAY_BUSY s) = n"
    "a \<in> live_slots arr (ZPP_EVENT_ARRAY_BUSY s)" "eventInstanceCount s = 0"
    by (auto simp: epool_inv_def epool_live_def)
  with p give_back_slot [OF inv(1-4)] show ?case
    by (auto simp: Event_dtor_user_def epool_inv_def epool_live_def Let_def)
qed

text \<open>
  The destructor gives the slot back that the constructor took, clears the event, and counts down a
  counter that no constructor counts up.
\<close>

lemma Event_dtor_after_ctor:
  assumes "epool_inv n arr (s, k)" and "Event_ctor_user config_assert n arr (s, k) = Inr (a, s1, k1)"
  shows "Event_dtor_user config_assert n arr A a (s1, k2) =
      Inr (s\<lparr>declared_count := declared_count s - 1\<rparr>, k_event_clear A a 0xFFFFFFFF k2)" and "a \<in> set arr"
proof -
  let ?busy = "ZPP_EVENT_ARRAY_BUSY s" and ?i = "free_slot n (ZPP_EVENT_ARRAY_BUSY s)"
  from assms(1) have inv: "distinct arr" "length arr = n" "length ?busy = n" by (auto simp: epool_inv_def)
  from assms(2) inv have i: "?i < n" "a = arr ! ?i" and s1: "s1 = s\<lparr>ZPP_EVENT_ARRAY_BUSY := ?busy[?i := True]\<rparr>"
    by (auto simp: Event_ctor_user_def Let_def ZPP_ASSERT_def bindR_def split: if_splits)
  have "slot_of n arr a = ?i" using inv i by (simp add: slot_of_nth)
  moreover have "?busy[?i := False] = ?busy" using free_slot_free [OF i(1) inv(3)] by (metis list_update_id)
  ultimately show "Event_dtor_user config_assert n arr A a (s1, k2) =
      Inr (s\<lparr>declared_count := declared_count s - 1\<rparr>, k_event_clear A a 0xFFFFFFFF k2)"
    using i s1 by (simp add: Event_dtor_user_def Let_def)
  show "a \<in> set arr" using i inv(2) by simp
qed

lemma Event_ctor_user_cong:
  "Event_ctor_user a n arr (s, k) = Inr (p, s', k') \<Longrightarrow> k' = k"
  "Event_ctor_user a n arr (s, k) = Inr (p, s', k') \<Longrightarrow>
    Event_ctor_user a n arr (s\<lparr>declared_count := c\<rparr>, k2) = Inr (p, s'\<lparr>declared_count := c\<rparr>, k2)"
  by (auto simp: Event_ctor_user_def Let_def bindR_eq_Inr split: if_splits)

end
