(* ===== verification/Thread_User.thy ===== *)
theory Thread_User
  imports Thread_Class Mutex_Pool Event_Pool Object_Access "HOL-Library.Countable"
begin

text \<open>
  \<open>Thread\<close> with \<open>CONFIG_USERSPACE\<close> (src/zpp_rtos/thread.cpp): the members \<open>_mutex\<close> and \<open>_event\<close> come
  from the static pools, the tasks are kept in the static array \<open>ZPP_TASKS\<close>, \<open>start\<close> grants the new
  thread access to the two kernel objects, and \<open>s_thunk\<close> works on a second \<open>Mutex\<close> and a second
  \<open>Event\<close> object made from their addresses. \<open>join\<close> and \<open>wait_started\<close> are the same in both builds.

  As published the branch does not compile: \<open>start\<close> names \<open>_thread_data\<close>, which is read as the array
  \<open>thread_data\<close> here, and reads the private member \<open>_event._p_event\<close>; \<open>get_tid\<close> is not declared.
\<close>

unbundle bit_operations_syntax

section \<open>The class\<close>

text \<open>
  The configuration: \<open>base\<close> is what both builds use. \<open>k_thread_create_args\<close> is \<open>k_thread_create\<close> with
  all three arguments of the entry function.
\<close>

record 'k user_env =
  base :: "'k thread_env"
  K_USER :: u32
  K_INHERIT_PERMS :: u32
  k_thread_create_args :: "tid \<Rightarrow> nat \<Rightarrow> nat \<Rightarrow> addr \<Rightarrow> addr \<Rightarrow> int \<Rightarrow> u32 \<Rightarrow> k_timeout_t \<Rightarrow> 'k \<Rightarrow> tid option \<times> 'k"
  env_access :: "'k access_api"
  mutex_array :: "addr list"
  event_array :: "addr list"
  nbr_mutexes :: nat
  nbr_events :: nat

text \<open>The static variables of this build, and the member \<open>_userMode\<close> of every object.\<close>

record 'f user_statics =
  ZPP_TASKS :: "'f option list"
  mutexes :: mutex_pool
  events :: event_pool
  userMode :: "addr \<Rightarrow> bool"

type_synonym ('k, 'f) user_world = "('k, 'f) thread_world \<times> 'f user_statics"

definition Thread_ctor_user ::
  "'k user_env \<Rightarrow> addr \<Rightarrow> u8 \<Rightarrow> string option \<Rightarrow> bool \<Rightarrow> ('k, 'f) user_world \<Rightarrow> ('k, 'f) user_world run" where
  "Thread_ctor_user U o1 prio name user_mode = (\<lambda>(w, u).
     let a = config_assert (base U) in
     bindR (Mutex_ctor_user a (nbr_mutexes U) (mutex_array U) (mutexes u, tkern w)) (\<lambda>(p_mutex, ms, k1).
     bindR (Event_ctor_user a (nbr_events U) (event_array U) (events u, k1)) (\<lambda>(p_event, es, k2).
     Inr (set_obj o1 \<lparr>th_mutex = p_mutex, th_event = p_event, th_task = None, th_priority = prio,
            th_name = (case name of None \<Rightarrow> ''application_unnamed_thread'' | Some n \<Rightarrow> n), th_tid = None\<rparr> (w\<lparr>tkern := k2\<rparr>),
          u\<lparr>mutexes := ms, events := es, userMode := (userMode u)(o1 := user_mode)\<rparr>))))"

text \<open>\<open>start\<close>: what runs under the scoped lock, and the whole.\<close>

definition start_body_user ::
  "'k user_env \<Rightarrow> addr \<Rightarrow> 'f \<Rightarrow> ('k, 'f) user_world \<Rightarrow> (zephyr_result \<times> ('k, 'f) user_world) run" where
  "start_body_user U o1 task = (\<lambda>(w, u).
     let res = ZephyrResult; ob = objs w o1; env = base U; T = env_thread env; i = unat (s_thread_instance_count w) in
     if th_tid ob \<noteq> None then Inr (r_assign_error (Already (env_errno env)) res, w, u)
     else bindR (ZPP_ASSERT (config_assert env) (i < length (thread_data env))) (\<lambda>_.
       if length (thread_data env) \<le> i \<or> length (ZPP_TASKS u) \<le> i then Inl Undef
       else
         let delay = K_FOREVER (env_clock env); u1 = u\<lparr>ZPP_TASKS := (ZPP_TASKS u)[i := Some task]\<rparr>;
             options = (if userMode u o1 then K_USER U OR K_INHERIT_PERMS U else K_INHERIT_PERMS U);
             zephyr_priority = preemptable_thread_priority_to_zephyr_prio (th_priority ob);
             (new_tid, k1) = k_thread_create_args U (thread_data env ! i) i i (th_event ob) (th_mutex ob)
                zephyr_priority options delay (tkern w);
             w1 = set_obj o1 (ob\<lparr>th_tid := new_tid\<rparr>) (w\<lparr>tkern := k1\<rparr>) in
         case new_tid of
           None \<Rightarrow> bindR (ZPP_ASSERT (config_assert env) False) (\<lambda>_. Inr (r_assign_error (Nomem (env_errno env)) res, w1, u1))
         | Some t \<Rightarrow>
             let (ret, k2) = k_thread_name_set T t (th_name ob) k1; w2 = w1\<lparr>tkern := k2\<rparr> in
             if ret \<noteq> 0 then bindR (ZPP_ASSERT (config_assert env) False) (\<lambda>_.
               Inr (r_assign_error (ret_code ret) res, w2, u1))
             else
               let k3 = Event_grant_access (env_access U) (th_event ob) t k2;
                   k4 = Mutex_grant_access (env_access U) (th_mutex ob) t k3 in
               Inr (res, w2\<lparr>tkern := k_thread_start T t k4,
                 s_thread_instance_count := s_thread_instance_count w2 + 1\<rparr>, u1)))"

text \<open>The lock and the unlock of the guard do not touch the static variables, so the body hands them on.\<close>

definition Thread_start_user ::
  "'k user_env \<Rightarrow> tid \<Rightarrow> addr \<Rightarrow> 'f \<Rightarrow> ('k, 'f) user_world \<Rightarrow> (zephyr_result \<times> ('k, 'f) user_world) run" where
  "Thread_start_user U me o1 task = (\<lambda>(w, u).
     let p = th_mutex (objs w o1) in
     bindR (scoped_lock (obj_lock (base U) me p) (obj_unlock (base U) me p)
         (\<lambda>w. bindR (start_body_user U o1 task (w, u)) (\<lambda>(res, w', u'). Inr ((res, u'), w'))) w)
       (\<lambda>((res, u'), w'). Inr (res, w', u')))"

text \<open>
  \<open>s_thunk\<close>, executed by the thread \<open>me\<close> with the three arguments of \<open>k_thread_create\<close>. The two local
  objects are destroyed when it returns, the later one first.
\<close>

definition s_thunk_user ::
  "'k user_env \<Rightarrow> ('f \<Rightarrow> ('k, 'f) user_world \<Rightarrow> ('k, 'f) user_world run) \<Rightarrow> tid \<Rightarrow> nat \<Rightarrow> addr \<Rightarrow> addr
    \<Rightarrow> ('k, 'f) user_world \<Rightarrow> ('k, 'f) user_world run" where
  "s_thunk_user U invoke me p1 p2 p3 = (\<lambda>(w, u).
     let env = base U; a = config_assert env; threadInstanceIndex = p1;
         event = Event_copy_ctor_user p2; mutex = Mutex_copy_ctor_user p3;
         w1 = w\<lparr>tkern := Event_set (qemu_userspace env) (env_event env) kStartedEvent event (tkern w)\<rparr> in
     bindR (if threadInstanceIndex < length (ZPP_TASKS u) then
              case ZPP_TASKS u ! threadInstanceIndex of None \<Rightarrow> Inl Panic | Some f \<Rightarrow> invoke f (w1, u)
            else Inl Undef) (\<lambda>(w2, u2).
     bindR (scoped_lock (obj_lock env me mutex) (obj_unlock env me mutex)
       (\<lambda>w. Inr ((), w\<lparr>s_thread_instance_count := s_thread_instance_count w - 1\<rparr>)) w2) (\<lambda>(_, w3).
     bindR (Mutex_dtor_user a (nbr_mutexes U) (mutex_array U) (env_mutex env) mutex (mutexes u2, tkern w3)) (\<lambda>(ms, k1).
     bindR (Event_dtor_user a (nbr_events U) (event_array U) (env_event env) event (events u2, k1)) (\<lambda>(es, k2).
     Inr (w3\<lparr>tkern := k2\<rparr>, u2\<lparr>mutexes := ms, events := es\<rparr>))))))"

text \<open>The destructor: its body, which is that of both builds, then the members in reverse order.\<close>

definition Thread_dtor_user :: "'k user_env \<Rightarrow> addr \<Rightarrow> ('k, 'f) user_world \<Rightarrow> ('k, 'f) user_world run" where
  "Thread_dtor_user U o1 = (\<lambda>(w, u).
     let env = base U; a = config_assert env; ob = objs w o1 in
     bindR (Thread_dtor env o1 w) (\<lambda>w1.
     bindR (Event_dtor_user a (nbr_events U) (event_array U) (env_event env) (th_event ob) (events u, tkern w1)) (\<lambda>(es, k1).
     bindR (Mutex_dtor_user a (nbr_mutexes U) (mutex_array U) (env_mutex env) (th_mutex ob) (mutexes u, k1)) (\<lambda>(ms, k2).
     Inr (w1\<lparr>tkern := k2\<rparr>, u\<lparr>mutexes := ms, events := es\<rparr>)))))"

definition get_tid :: "addr \<Rightarrow> ('k, 'f) user_world \<Rightarrow> tid option" where
  "get_tid o1 s = th_tid (objs (fst s) o1)"

section \<open>What the operations do\<close>

text \<open>
  Documented of the calls this build adds: \<open>k_thread_create\<close> as in \<open>thread_laws\<close> with three
  arguments; \<open>k_object_access_grant\<close> changes permissions and nothing else; \<open>k_mutex_init\<close> leaves threads
  alone; neither \<open>k_thread_start\<close> nor \<open>k_mutex_unlock\<close> takes permissions away.
\<close>

definition user_laws :: "'k user_env \<Rightarrow> 'k view \<Rightarrow> 'k thread_view \<Rightarrow> ('k \<Rightarrow> (addr \<times> tid) set) \<Rightarrow> bool" where
  "user_laws U V TV perms \<longleftrightarrow> env_laws (base U) True V TV \<and> access_laws (env_access U) perms \<and>
     (\<forall>t s p1 p2 p3 prio opt k. (\<forall>b n. TV k t \<noteq> Running b n) \<longrightarrow>
        (\<exists>k'. k_thread_create_args U t s p1 p2 p3 prio opt (K_FOREVER (env_clock (base U))) k = (Some t, k') \<and>
           TV k' = (TV k)(t := Created p1 s) \<and> mx V k' = mx V k \<and> sm V k' = sm V k \<and> ev V k' = ev V k)) \<and>
     (\<forall>p t k. let k' = k_object_access_grant (env_access U) p t k in
        TV k' = TV k \<and> mx V k' = mx V k \<and> sm V k' = sm V k \<and> ev V k' = ev V k) \<and>
     (\<forall>p k. TV (k_mutex_init (env_mutex (base U)) p k) = TV k) \<and>
     (\<forall>t k. perms k \<subseteq> perms (k_thread_start (env_thread (base U)) t k)) \<and>
     (\<forall>t p k. perms k \<subseteq> perms (snd (k_mutex_unlock (env_mutex (base U)) t p k)))"

lemma user_lawsD:
  assumes "user_laws U V TV perms"
  shows "env_laws (base U) True V TV" and "access_laws (env_access U) perms"
    and "\<forall>b n. TV k t \<noteq> Running b n \<Longrightarrow>
      \<exists>k'. k_thread_create_args U t s p1 p2 p3 prio opt (K_FOREVER (env_clock (base U))) k = (Some t, k') \<and>
        TV k' = (TV k)(t := Created p1 s) \<and> mx V k' = mx V k \<and> sm V k' = sm V k \<and> ev V k' = ev V k"
    and "TV (k_object_access_grant (env_access U) p t k) = TV k" and "mx V (k_object_access_grant (env_access U) p t k) = mx V k"
    and "sm V (k_object_access_grant (env_access U) p t k) = sm V k" and "ev V (k_object_access_grant (env_access U) p t k) = ev V k"
    and "TV (k_mutex_init (env_mutex (base U)) p k) = TV k"
    and "perms k \<subseteq> perms (k_thread_start (env_thread (base U)) t k)"
    and "perms k \<subseteq> perms (snd (k_mutex_unlock (env_mutex (base U)) t p k))"
  using assms by (simp_all add: user_laws_def Let_def)

lemma obj_unlock_perms:
  assumes "user_laws U V TV perms" and "obj_unlock (base U) me p w = Inr (r, w')"
  shows "perms (tkern w) \<subseteq> perms (tkern w')"
  using assms(2) user_lawsD(10) [OF assms(1), of "tkern w" me p]
  by (auto simp: obj_unlock_def on_kern_def Mutex_unlock_def bindR_eq_Inr split: prod.splits if_splits)

lemma start_body_user_ok:
  assumes laws: "user_laws U V TV perms" and tid: "th_tid (objs w o1) = None"
    and i: "i = unat (s_thread_instance_count w)" "i < length (thread_data (base U))" "i < length (ZPP_TASKS u)"
    and slot: "t = thread_data (base U) ! i" "\<forall>b n. TV (tkern w) t \<noteq> Running b n"
  shows "\<exists>w'. start_body_user U o1 f (w, u) = Inr (ZephyrResult, w', u\<lparr>ZPP_TASKS := (ZPP_TASKS u)[i := Some f]\<rparr>) \<and>
    objs w' = (objs w)(o1 := (objs w o1)\<lparr>th_tid := Some t\<rparr>) \<and>
    s_thread_instance_count w' = s_thread_instance_count w + 1 \<and> TV (tkern w') = (TV (tkern w))(t := Running i i) \<and>
    mx V (tkern w') = mx V (tkern w) \<and> sm V (tkern w') = sm V (tkern w) \<and> ev V (tkern w') = ev V (tkern w) \<and>
    {(th_event (objs w o1), t), (th_mutex (objs w o1), t)} \<subseteq> perms (tkern w')"
proof -
  note L = user_lawsD [OF laws]
  let ?ob = "objs w o1" and ?T = "env_thread (base U)" and ?G = "k_object_access_grant (env_access U)"
  have TL: "thread_laws (env_errno (base U)) (env_clock (base U)) ?T True V TV" using L(1) by (simp add: env_laws_def)
  obtain k1 where k1: "k_thread_create_args U t i i (th_event ?ob) (th_mutex ?ob)
      (preemptable_thread_priority_to_zephyr_prio (th_priority ?ob))
      (if userMode u o1 then K_USER U OR K_INHERIT_PERMS U else K_INHERIT_PERMS U) (K_FOREVER (env_clock (base U))) (tkern w) = (Some t, k1)"
    "TV k1 = (TV (tkern w))(t := Created i i)" "mx V k1 = mx V (tkern w)" "sm V k1 = sm V (tkern w)" "ev V k1 = ev V (tkern w)"
    using L(3) [OF slot(2)] by blast
  obtain k2 where k2: "k_thread_name_set ?T t (th_name ?ob) k1 = (0, k2)" "TV k2 = TV k1"
    "mx V k2 = mx V k1" "sm V k2 = sm V k1" "ev V k2 = ev V k1"
    using thread_name_law [OF TL, of t "th_name ?ob" k1] by auto
  define k4 where "k4 = ?G (th_mutex ?ob) t (?G (th_event ?ob) t k2)"
  have k4: "TV k4 = (TV (tkern w))(t := Created i i)" "mx V k4 = mx V (tkern w)" "sm V k4 = sm V (tkern w)" "ev V k4 = ev V (tkern w)"
    using k1 k2 L(4-7) by (simp_all add: k4_def)
  have granted: "{(th_event ?ob, t), (th_mutex ?ob, t)} \<subseteq> perms (k_thread_start ?T t k4)"
    using L(2) L(9) [of k4 t] by (auto simp: access_laws_def k4_def)
  have run: "TV (k_thread_start ?T t k4) = (TV (tkern w))(t := Running i i)"
    using thread_start_law(1) [OF TL, of k4 t i i] k4(1) by simp
  from k1(1) k2(1) tid i have "start_body_user U o1 f (w, u) = Inr (ZephyrResult,
      (set_obj o1 (?ob\<lparr>th_tid := Some t\<rparr>) (w\<lparr>tkern := k1\<rparr>))\<lparr>tkern := k_thread_start ?T t k4,
        s_thread_instance_count := s_thread_instance_count w + 1\<rparr>, u\<lparr>ZPP_TASKS := (ZPP_TASKS u)[i := Some f]\<rparr>)"
    unfolding k4_def slot(1) by (simp add: start_body_user_def Let_def set_obj_def Event_grant_access_def Mutex_grant_access_def)
  with run granted k4 thread_start_law(2-) [OF TL, of t k4] show ?thesis by (simp add: set_obj_def)
qed

lemma Thread_start_user_ok:
  assumes laws: "user_laws U V TV perms" and tid: "th_tid (objs w o1) = None"
    and free: "mx V (tkern w) (th_mutex (objs w o1)) = None"
    and i: "i = unat (s_thread_instance_count w)" "i < length (thread_data (base U))" "i < length (ZPP_TASKS u)"
    and slot: "t = thread_data (base U) ! i" "\<forall>b n. TV (tkern w) t \<noteq> Running b n"
  shows "\<exists>w'. Thread_start_user U me o1 f (w, u) = Inr (ZephyrResult, w', u\<lparr>ZPP_TASKS := (ZPP_TASKS u)[i := Some f]\<rparr>) \<and>
    objs w' = (objs w)(o1 := (objs w o1)\<lparr>th_tid := Some t\<rparr>) \<and>
    s_thread_instance_count w' = s_thread_instance_count w + 1 \<and> TV (tkern w') = (TV (tkern w))(t := Running i i) \<and>
    mx V (tkern w') = mx V (tkern w) \<and> sm V (tkern w') = sm V (tkern w) \<and>
    {(th_event (objs w o1), t), (th_mutex (objs w o1), t)} \<subseteq> perms (tkern w')"
proof -
  note L = user_lawsD(1) [OF laws]
  let ?p = "th_mutex (objs w o1)"
  obtain w1 where w1: "obj_lock (base U) me ?p w = Inr (ZephyrResult, w1)" "mx V (tkern w1) ?p = Some (me, 1)"
    "world_rest V TV ?p w1 = world_rest V TV ?p w" using obj_lock_free [OF L free] by blast
  note D1 = world_restD [OF w1(3) [unfolded world_rest_def [of _ _ _ w]]]
  from start_body_user_ok [OF laws, of w1 o1 i u t f] tid i slot D1 obtain w2 where w2:
    "start_body_user U o1 f (w1, u) = Inr (ZephyrResult, w2, u\<lparr>ZPP_TASKS := (ZPP_TASKS u)[i := Some f]\<rparr>)"
    "objs w2 = (objs w)(o1 := (objs w o1)\<lparr>th_tid := Some t\<rparr>)" "s_thread_instance_count w2 = s_thread_instance_count w + 1"
    "TV (tkern w2) = (TV (tkern w))(t := Running i i)" "mx V (tkern w2) = mx V (tkern w1)" "sm V (tkern w2) = sm V (tkern w)"
    "{(th_event (objs w o1), t), (th_mutex (objs w o1), t)} \<subseteq> perms (tkern w2)" by auto
  then have "mx V (tkern w2) ?p = Some (me, 1)" using w1(2) by simp
  then obtain w3 where w3: "obj_unlock (base U) me ?p w2 = Inr (ZephyrResult, w3)" "mx V (tkern w3) ?p = None"
    "world_rest V TV ?p w3 = world_rest V TV ?p w2" using obj_unlock_held [OF L] by blast
  note D3 = world_restD [OF w3(3) [unfolded world_rest_def [of _ _ _ w2]]]
  have "mx V (tkern w3) = mx V (tkern w)"
    using D3(5) D1(5) w2(5) w3(2) free fun_upd_None_same [of "mx V (tkern w)" ?p] fun_upd_None_same [of "mx V (tkern w3)" ?p]
    by simp
  moreover have "{(th_event (objs w o1), t), (th_mutex (objs w o1), t)} \<subseteq> perms (tkern w3)"
    using w2(7) obj_unlock_perms [OF laws w3(1)] by (rule subset_trans)
  moreover have "Thread_start_user U me o1 f (w, u) = Inr (ZephyrResult, w3, u\<lparr>ZPP_TASKS := (ZPP_TASKS u)[i := Some f]\<rparr>)"
    using w1(1) w2(1) w3(1) by (simp add: Thread_start_user_def scoped_lock_def Let_def)
  ultimately show ?thesis using D3 w2(2-4,6) by (intro exI [of _ w3]) simp
qed

section \<open>The life of a thread\<close>

text \<open>The kernel runs the entry function of thread \<open>t\<close> with its three arguments and the thread ends.\<close>

definition user_thread_runs ::
  "'k user_env \<Rightarrow> ('f \<Rightarrow> ('k, 'f) user_world \<Rightarrow> ('k, 'f) user_world run) \<Rightarrow> tid \<Rightarrow> nat \<Rightarrow> addr \<Rightarrow> addr
    \<Rightarrow> ('k, 'f) user_world \<Rightarrow> ('k, 'f) user_world run" where
  "user_thread_runs U invoke t p1 p2 p3 s =
     bindR (s_thunk_user U invoke t p1 p2 p3 s) (\<lambda>(w, u). Inr (w\<lparr>tkern := k_thread_exit (env_thread (base U)) t (tkern w)\<rparr>, u))"

text \<open>Tasks that return, hold no mutex at their end, and construct, start or destroy nothing.\<close>

definition quiet_user_tasks ::
  "('f \<Rightarrow> ('k, 'f) user_world \<Rightarrow> ('k, 'f) user_world run) \<Rightarrow> 'k view \<Rightarrow> 'k thread_view \<Rightarrow> bool" where
  "quiet_user_tasks invoke V TV \<longleftrightarrow> (\<forall>f w u. \<exists>w' u'. invoke f (w, u) = Inr (w', u') \<and> objs w' = objs w \<and>
     s_thread_instance_count w' = s_thread_instance_count w \<and> mx V (tkern w') = mx V (tkern w) \<and>
     TV (tkern w') = TV (tkern w) \<and> mutexes u' = mutexes u \<and> events u' = events u)"

lemma and_not_all: "x AND NOT 0xFFFFFFFF = (0 :: u32)"
proof -
  have all: "(0xFFFFFFFF :: u32) = - 1" by simp
  show ?thesis unfolding all by simp
qed

lemma user_thread_runs_ok:
  assumes laws: "user_laws U V TV perms" and quiet: "quiet_user_tasks invoke V TV"
    and task: "i < length (ZPP_TASKS u)" "ZPP_TASKS u ! i = Some f"
    and alive: "TV (tkern w) t = Running b s" and free: "mx V (tkern w) m = None"
    and mutex: "\<And>k. Mutex_dtor_user (config_assert (base U)) (nbr_mutexes U) (mutex_array U) (env_mutex (base U)) m (mutexes u, k) =
      Inr (ms, k_mutex_init (env_mutex (base U)) m k)"
    and event: "\<And>k. Event_dtor_user (config_assert (base U)) (nbr_events U) (event_array U) (env_event (base U)) e (events u, k) =
      Inr (es, k_event_clear (env_event (base U)) e 0xFFFFFFFF k)"
  shows "\<exists>w' u'. user_thread_runs U invoke t i e m (w, u) = Inr (w', u') \<and> objs w' = objs w \<and>
    s_thread_instance_count w' = s_thread_instance_count w - 1 \<and> TV (tkern w') = (TV (tkern w))(t := Dead) \<and>
    mx V (tkern w') = mx V (tkern w) \<and> ev V (tkern w') e = 0 \<and> mutexes u' = ms \<and> events u' = es"
proof -
  let ?env = "base U"
  note L = user_lawsD(1) [OF laws]
  have TL: "thread_laws (env_errno ?env) (env_clock ?env) (env_thread ?env) True V TV"
    and EL: "event_laws (env_clock ?env) (env_event ?env) V" and FR: "thread_frame (env_mutex ?env) (env_event ?env) TV"
    and MU: "mutex_laws (env_errno ?env) (env_clock ?env) (env_mutex ?env) V" using L by (simp_all add: env_laws_def)
  let ?w1 = "w\<lparr>tkern := Event_set (qemu_userspace ?env) (env_event ?env) kStartedEvent e (tkern w)\<rparr>"
  have w1: "mx V (tkern ?w1) = mx V (tkern w)" "TV (tkern ?w1) = TV (tkern w)"
    using event_set_view(2) [OF EL] FR by (simp_all add: Event_set_def thread_frame_def)
  obtain w2 u2 where w2: "invoke f (?w1, u) = Inr (w2, u2)" "objs w2 = objs w"
    "s_thread_instance_count w2 = s_thread_instance_count w" "mx V (tkern w2) = mx V (tkern w)"
    "TV (tkern w2) = TV (tkern w)" "mutexes u2 = mutexes u" "events u2 = events u"
    using quiet [unfolded quiet_user_tasks_def, rule_format, of f ?w1 u] w1 by auto
  have "mx V (tkern w2) m = None" using w2(4) free by simp
  from scoped_count_down [OF L this, of t] obtain w3 where w3:
    "scoped_lock (obj_lock ?env t m) (obj_unlock ?env t m)
      (\<lambda>w. Inr ((), w\<lparr>s_thread_instance_count := s_thread_instance_count w - 1\<rparr>)) w2 = Inr ((), w3)"
    "objs w3 = objs w" "s_thread_instance_count w3 = s_thread_instance_count w - 1" "TV (tkern w3) = TV (tkern w)"
    "mx V (tkern w3) = mx V (tkern w)" using w2(2-5) by auto
  define k4 where "k4 = k_event_clear (env_event ?env) e 0xFFFFFFFF (k_mutex_init (env_mutex ?env) m (tkern w3))"
  have "TV k4 = TV (tkern w)" using FR w3(4) user_lawsD(8) [OF laws] by (simp add: k4_def thread_frame_def)
  moreover have "mx V k4 = mx V (tkern w)"
    using event_clear_view(2) [OF EL] MU w3(5) free fun_upd_None_same [of "mx V (tkern w)" m] by (simp add: k4_def mutex_laws_def)
  moreover have "ev V k4 e = 0" using event_clear_view(1) [OF EL] by (simp only: k4_def and_not_all fun_upd_same)
  moreover have "s_thunk_user U invoke t i e m (w, u) = Inr (w3\<lparr>tkern := k4\<rparr>, u2\<lparr>mutexes := ms, events := es\<rparr>)"
    using task w2(1,6,7) w3(1) mutex event
    by (simp add: s_thunk_user_def Let_def Event_copy_ctor_user_def Mutex_copy_ctor_user_def k4_def)
  ultimately show ?thesis
    using w3(2,3) alive thread_exit_law(1) [OF TL, of k4 t b s] thread_exit_law(2-) [OF TL, of t k4] by (simp add: user_thread_runs_def)
qed

text \<open>The static pools: their invariants, a mutex and an event to spare, and unused mutexes are not locked.\<close>

definition user_pools_ok :: "'k user_env \<Rightarrow> 'k view \<Rightarrow> ('k, 'f) user_world \<Rightarrow> bool" where
  "user_pools_ok U V = (\<lambda>(w, u).
     pool_inv (nbr_mutexes U) (mutex_array U) (mutexes u, tkern w) \<and> epool_inv (nbr_events U) (event_array U) (events u, tkern w) \<and>
     card (pool_live (mutex_array U) (mutexes u, tkern w)) < nbr_mutexes U \<and>
     card (epool_live (event_array U) (events u, tkern w)) < nbr_events U \<and>
     (\<forall>p. p \<notin> pool_live (mutex_array U) (mutexes u, tkern w) \<longrightarrow> mx V (tkern w) p = None))"

text \<open>A slot for the next thread: a \<open>struct k_thread\<close> that no running thread uses, and a task.\<close>

definition slot_ready :: "'k user_env \<Rightarrow> 'k thread_view \<Rightarrow> nat \<Rightarrow> ('k, 'f) user_world \<Rightarrow> bool" where
  "slot_ready U TV i = (\<lambda>(w, u). i = unat (s_thread_instance_count w) \<and> i < length (thread_data (base U)) \<and>
     i < length (ZPP_TASKS u) \<and> (\<forall>b n. TV (tkern w) (thread_data (base U) ! i) \<noteq> Running b n))"

lemma Thread_ctor_user_ok:
  assumes "user_pools_ok U V (w, u)"
  obtains pm ms pe es where
    "\<And>k :: 'k. Mutex_ctor_user (config_assert (base U)) (nbr_mutexes U) (mutex_array U) (mutexes u, k) = Inr (pm, ms, k)"
    "\<And>k :: 'k. Event_ctor_user (config_assert (base U)) (nbr_events U) (event_array U) (events u, k) = Inr (pe, es, k)"
    "pm \<notin> pool_live (mutex_array U) (mutexes u, tkern w)" "pe \<notin> epool_live (event_array U) (events u, tkern w)"
proof -
  let ?a = "config_assert (base U)"
  obtain pm ms k1 where m: "Mutex_ctor_user ?a (nbr_mutexes U) (mutex_array U) (mutexes u, tkern w) = Inr (pm, ms, k1)"
    "pm \<notin> pool_live (mutex_array U) (mutexes u, tkern w)"
    using mpool.alloc_fresh [of "nbr_mutexes U" "mutex_array U" "(mutexes u, tkern w)" ?a] assms by (auto simp: user_pools_ok_def)
  obtain pe es k2 where e: "Event_ctor_user ?a (nbr_events U) (event_array U) (events u, tkern w) = Inr (pe, es, k2)"
    "pe \<notin> epool_live (event_array U) (events u, tkern w)"
    using epool.alloc_fresh [of "nbr_events U" "event_array U" "(events u, tkern w)" ?a] assms by (auto simp: user_pools_ok_def)
  have e': "Event_ctor_user ?a (nbr_events U) (event_array U) (events u, k) = Inr (pe, es, k)" for k
    using e(1) by (auto simp: Event_ctor_user_def Let_def bindR_eq_Inr split: if_splits)
  show ?thesis by (rule that [OF Mutex_ctor_user_kernel(2) [OF m(1)] e' m(2) e(2)])
qed

text \<open>
  A thread that is constructed, started and ends. \<open>s3\<close> is the state when it has ended: its pools are
  those before the construction, although the object is alive.
\<close>

lemma user_thread_life:
  fixes w :: "('k, 'f) thread_world"
  assumes laws: "user_laws U V TV perms" and quiet: "quiet_user_tasks invoke V TV"
    and pools: "user_pools_ok U V (w, u)" and slot: "slot_ready U TV i (w, u)"
  obtains s1 s2 w3 u3 pm ms pe es where
    "Thread_ctor_user U o1 prio name um (w, u) = Inr s1"
    "th_mutex (objs (fst s1) o1) = pm" "th_event (objs (fst s1) o1) = pe"
    "Thread_start_user U me o1 f s1 = Inr (ZephyrResult, s2)"
    "{(pe, thread_data (base U) ! i), (pm, thread_data (base U) ! i)} \<subseteq> perms (tkern (fst s2))"
    "ZPP_TASKS (snd s2) ! i = Some f"
    "user_thread_runs U invoke (thread_data (base U) ! i) i pe pm s2 = Inr (w3, u3)"
    "\<And>k :: 'k. Mutex_ctor_user (config_assert (base U)) (nbr_mutexes U) (mutex_array U) (mutexes u, k) = Inr (pm, ms, k)"
    "\<And>k :: 'k. Event_ctor_user (config_assert (base U)) (nbr_events U) (event_array U) (events u, k) = Inr (pe, es, k)"
    "mutexes u3 = mutexes u" "events u3 = (events u)\<lparr>declared_count := declared_count (events u) - 1\<rparr>"
    "th_mutex (objs w3 o1) = pm" "th_event (objs w3 o1) = pe" "th_tid (objs w3 o1) = Some (thread_data (base U) ! i)"
    "TV (tkern w3) (thread_data (base U) ! i) = Dead" "mx V (tkern w3) pm = None" "ev V (tkern w3) pe = 0"
proof -
  let ?t = "thread_data (base U) ! i"
  obtain pm ms pe es where c:
    "\<And>k :: 'k. Mutex_ctor_user (config_assert (base U)) (nbr_mutexes U) (mutex_array U) (mutexes u, k) = Inr (pm, ms, k)"
    "\<And>k :: 'k. Event_ctor_user (config_assert (base U)) (nbr_events U) (event_array U) (events u, k) = Inr (pe, es, k)"
    "pm \<notin> pool_live (mutex_array U) (mutexes u, tkern w)" using Thread_ctor_user_ok [OF pools] by metis
  have inv: "pool_inv (nbr_mutexes U) (mutex_array U) (mutexes u, tkern w)"
    "epool_inv (nbr_events U) (event_array U) (events u, tkern w)" and free: "mx V (tkern w) pm = None"
    using pools c(3) by (simp_all add: user_pools_ok_def)
  define w1 where "w1 = set_obj o1 \<lparr>th_mutex = pm, th_event = pe, th_task = None, th_priority = prio,
    th_name = (case name of None \<Rightarrow> ''application_unnamed_thread'' | Some n \<Rightarrow> n), th_tid = None\<rparr> w"
  define u1 where "u1 = u\<lparr>mutexes := ms, events := es, userMode := (userMode u)(o1 := um)\<rparr>"
  have s1: "Thread_ctor_user U o1 prio name um (w, u) = Inr (w1, u1)"
    using c(1,2) by (simp add: Thread_ctor_user_def Let_def w1_def u1_def)
  have ob: "th_mutex (objs w1 o1) = pm" "th_event (objs w1 o1) = pe" "th_tid (objs w1 o1) = None" "tkern w1 = tkern w"
    "s_thread_instance_count w1 = s_thread_instance_count w" "length (ZPP_TASKS u1) = length (ZPP_TASKS u)"
    "mutexes u1 = ms" "events u1 = es"
    by (simp_all add: w1_def u1_def set_obj_def)
  from Thread_start_user_ok [OF laws ob(3), of i u1 ?t me f] free slot ob obtain w2 where w2:
    "Thread_start_user U me o1 f (w1, u1) = Inr (ZephyrResult, w2, u1\<lparr>ZPP_TASKS := (ZPP_TASKS u1)[i := Some f]\<rparr>)"
    "objs w2 = (objs w1)(o1 := (objs w1 o1)\<lparr>th_tid := Some ?t\<rparr>)" "TV (tkern w2) = (TV (tkern w))(?t := Running i i)"
    "mx V (tkern w2) = mx V (tkern w)" "{(pe, ?t), (pm, ?t)} \<subseteq> perms (tkern w2)"
    by (auto simp: slot_ready_def)
  let ?u2 = "u1\<lparr>ZPP_TASKS := (ZPP_TASKS u1)[i := Some f]\<rparr>"
  have task: "i < length (ZPP_TASKS ?u2)" "ZPP_TASKS ?u2 ! i = Some f" using slot ob by (simp_all add: slot_ready_def)
  have alive: "TV (tkern w2) ?t = Running i i" and unlocked: "mx V (tkern w2) pm = None" using w2(3,4) free by simp_all
  have m: "Mutex_dtor_user (config_assert (base U)) (nbr_mutexes U) (mutex_array U) (env_mutex (base U)) pm (mutexes ?u2, k) =
      Inr (mutexes u, k_mutex_init (env_mutex (base U)) pm k)" for k
    using Mutex_dtor_after_ctor(1) [OF inv(1) c(1)] ob(7) by simp
  have e: "Event_dtor_user (config_assert (base U)) (nbr_events U) (event_array U) (env_event (base U)) pe (events ?u2, k) =
      Inr ((events u)\<lparr>declared_count := declared_count (events u) - 1\<rparr>, k_event_clear (env_event (base U)) pe 0xFFFFFFFF k)" for k
    using Event_dtor_after_ctor(1) [OF inv(2) c(2)] ob(8) by simp
  from user_thread_runs_ok [OF laws quiet task alive unlocked m e]
  obtain w3 u3 where w3: "user_thread_runs U invoke ?t i pe pm (w2, ?u2) = Inr (w3, u3)" "objs w3 = objs w2"
    "TV (tkern w3) = (TV (tkern w2))(?t := Dead)" "mx V (tkern w3) = mx V (tkern w2)" "ev V (tkern w3) pe = 0"
    "mutexes u3 = mutexes u" "events u3 = (events u)\<lparr>declared_count := declared_count (events u) - 1\<rparr>"
    by blast
  show ?thesis
  proof (rule that [OF s1 _ _ w2(1) _ _ w3(1) c(1,2) w3(6,7)])
    show "{(pe, ?t), (pm, ?t)} \<subseteq> perms (tkern (fst (w2, ?u2)))" using w2(5) by simp
    show "ZPP_TASKS (snd (w2, ?u2)) ! i = Some f" using task by simp
  qed (use ob w2(2) w3 unlocked in simp_all)
qed

section \<open>Properties\<close>

text \<open>
  C34: In the userspace build a \<open>Thread\<close> can be constructed and started while the pools have room, and the
  thread may use its mutex and its event. But when it ends, the second \<open>Mutex\<close> and \<open>Event\<close> object of
  \<open>s_thunk\<close> give back what the \<open>Thread\<close> still owns: \<open>wait_started\<close> blocks for ever from then on
  (in the other build it returns), and the next \<open>Thread\<close> constructed has the same kernel mutex and the
  same kernel event. \<open>join\<close> still succeeds.
\<close>

theorem user_thread_gives_up_its_objects:
  assumes "user_laws U V TV perms" and "quiet_user_tasks invoke V TV" and "user_pools_ok U V (w, u)"
    and "slot_ready U TV i (w, u)" and "o1 \<noteq> o2"
  shows "\<exists>s1 s2 w3 u3 s4. Thread_ctor_user U o1 prio name um (w, u) = Inr s1 \<and>
    Thread_start_user U me o1 f s1 = Inr (ZephyrResult, s2) \<and>
    (let p_mutex = th_mutex (objs (fst s1) o1); p_event = th_event (objs (fst s1) o1); t = thread_data (base U) ! i in
     {(p_event, t), (p_mutex, t)} \<subseteq> perms (tkern (fst s2)) \<and>
     user_thread_runs U invoke t i p_event p_mutex s2 = Inr (w3, u3)) \<and>
    Thread_wait_started (base U) o1 w3 = Inl Stuck \<and> (\<exists>w4. Thread_join (base U) me o1 w3 = Inr (ZephyrResult, w4)) \<and>
    Thread_ctor_user U o2 prio2 name2 um2 (w3, u3) = Inr s4 \<and>
    th_mutex (objs (fst s4) o2) = th_mutex (objs (fst s4) o1) \<and> th_event (objs (fst s4) o2) = th_event (objs (fst s4) o1)"
proof -
  obtain s1 s2 w3 u3 pm ms pe es where L: "Thread_ctor_user U o1 prio name um (w, u) = Inr s1"
    "th_mutex (objs (fst s1) o1) = pm" "th_event (objs (fst s1) o1) = pe"
    "Thread_start_user U me o1 f s1 = Inr (ZephyrResult, s2)"
    "{(pe, thread_data (base U) ! i), (pm, thread_data (base U) ! i)} \<subseteq> perms (tkern (fst s2))"
    "user_thread_runs U invoke (thread_data (base U) ! i) i pe pm s2 = Inr (w3, u3)"
    and c: "Mutex_ctor_user (config_assert (base U)) (nbr_mutexes U) (mutex_array U) (mutexes u, tkern w3) = Inr (pm, ms, tkern w3)"
    "Event_ctor_user (config_assert (base U)) (nbr_events U) (event_array U) (events u, tkern w3) = Inr (pe, es, tkern w3)"
    and u3: "mutexes u3 = mutexes u" "events u3 = (events u)\<lparr>declared_count := declared_count (events u) - 1\<rparr>"
    and w3: "th_mutex (objs w3 o1) = pm" "th_event (objs w3 o1) = pe" "th_tid (objs w3 o1) = Some (thread_data (base U) ! i)"
    "TV (tkern w3) (thread_data (base U) ! i) = Dead" "mx V (tkern w3) pm = None" "ev V (tkern w3) pe = 0"
    using user_thread_life [OF assms(1-4), of o1 prio name um me f] by metis
  note E = user_lawsD(1) [OF assms(1)]
  have "Thread_wait_started (base U) o1 w3 = Inl Stuck"
    using E w3(2,6) event_wait_any_blocks [of "env_clock (base U)" "env_event (base U)" V "tkern w3" pe kStartedEvent]
    by (simp add: Thread_wait_started_def env_laws_def)
  moreover obtain w4 where "Thread_join (base U) me o1 w3 = Inr (ZephyrResult, w4)"
    using Thread_join_dead [OF E w3(3,4), of me] w3(1,5) by auto
  moreover have "\<exists>s4. Thread_ctor_user U o2 prio2 name2 um2 (w3, u3) = Inr s4 \<and>
      th_mutex (objs (fst s4) o2) = pm \<and> th_event (objs (fst s4) o2) = pe \<and> objs (fst s4) o1 = objs w3 o1"
    using c(1) u3 Event_ctor_user_cong(2) [OF c(2), of "declared_count (events u) - 1" "tkern w3"] assms(5)
    by (simp add: Thread_ctor_user_def Let_def set_obj_def)
  ultimately show ?thesis
    using L w3(1,2) unfolding Let_def
    by - (rule exI [of _ s1], rule exI [of _ s2], rule exI [of _ w3], rule exI [of _ u3], auto)
qed

text \<open>Two mutexes, two events and three slots for threads; the permissions are kept in a spare field of the kernel.\<close>

definition demo_perms :: "rk \<Rightarrow> (addr \<times> tid) set" where
  "demo_perms k = {q. to_nat q \<in> set (snd (rk_wq k))}"

definition demo_user :: "rk user_env" where
  "demo_user = \<lparr>base = demo_env True True, K_USER = 4, K_INHERIT_PERMS = 8,
     k_thread_create_args = (\<lambda>t s p1 p2 p3 prio opt d k. (Some t, k\<lparr>rk_th := (rk_th k)(t := Created p1 s)\<rparr>)),
     env_access = \<lparr>k_object_access_grant = (\<lambda>p t k. k\<lparr>rk_wq := (fst (rk_wq k), to_nat (p, t) # snd (rk_wq k))\<rparr>)\<rparr>,
     mutex_array = [30, 31], event_array = [40, 41], nbr_mutexes = 2, nbr_events = 2\<rparr>"

definition demo_statics :: "nat user_statics" where
  "demo_statics = \<lparr>ZPP_TASKS = [None, None, None], mutexes = pool_init 2, events = epool_init 2, userMode = (\<lambda>_. True)\<rparr>"

definition demo_user_task :: "nat \<Rightarrow> (rk, nat) user_world \<Rightarrow> (rk, nat) user_world run" where
  "demo_user_task f s = Inr s"

lemma demo_user_laws: "user_laws demo_user ref_view rk_th demo_perms"
proof -
  have "access_laws (env_access demo_user) demo_perms" by (auto simp: access_laws_def demo_user_def demo_perms_def)
  then show ?thesis
    by (simp add: user_laws_def demo_user_def demo_env_laws Let_def)
      (auto simp: demo_env_def ref_mutex_def ref_thread_def demo_perms_def split: option.splits kthread.splits)
qed

lemma demo_user_start:
  "quiet_user_tasks demo_user_task ref_view rk_th" "user_pools_ok demo_user ref_view (demo_world, demo_statics)"
  "slot_ready demo_user rk_th 0 (demo_world, demo_statics)"
proof -
  have "live_slots arr (ZPP_MUTEX_ARRAY_BUSY (mutexes demo_statics)) = {}"
    "live_slots arr (ZPP_EVENT_ARRAY_BUSY (events demo_statics)) = {}" for arr
    by (simp_all add: demo_statics_def pool_init_def epool_init_def)
  then show "user_pools_ok demo_user ref_view (demo_world, demo_statics)"
    by (simp add: user_pools_ok_def pool_live_def epool_live_def pool_inv_def epool_inv_def demo_user_def demo_world_def rk0_def)
      (simp add: demo_statics_def pool_init_def epool_init_def)
qed (simp_all add: quiet_user_tasks_def demo_user_task_def slot_ready_def demo_user_def demo_world_def demo_statics_def rk0_def)

theorem user_thread_gives_up_its_objects_witness:
  "\<exists>s1 s2 w3 u3 s4. Thread_ctor_user demo_user 10 9 None True (demo_world, demo_statics) = Inr s1 \<and>
    Thread_start_user demo_user 1 10 5 s1 = Inr (ZephyrResult, s2) \<and>
    user_thread_runs demo_user demo_user_task 100 0 (th_event (objs (fst s1) 10)) (th_mutex (objs (fst s1) 10)) s2 = Inr (w3, u3) \<and>
    Thread_wait_started (demo_env True True) 10 w3 = Inl Stuck \<and>
    Thread_ctor_user demo_user 11 9 None False (w3, u3) = Inr s4 \<and> th_mutex (objs (fst s4) 11) = th_mutex (objs (fst s4) 10)"
proof -
  have "(10 :: addr) \<noteq> 11" by simp
  moreover have "thread_data (base demo_user) ! 0 = 100" "base demo_user = demo_env True True" by (simp_all add: demo_user_def)
  ultimately show ?thesis
    using user_thread_gives_up_its_objects [OF demo_user_laws demo_user_start, of 10 11 9 None True 1 5 9 None False]
    unfolding Let_def by metis
qed

text \<open>
  The two destructors also count down twice what the constructor counted up once: when the thread was
  the only owner of a mutex, joining and destroying it leaves the counter at 255, and every further
  constructor fails its assertion.
\<close>

theorem user_thread_underflows_mutex_pool:
  assumes "user_laws U V TV perms" and "quiet_user_tasks invoke V TV" and "user_pools_ok U V (w, u)"
    and "slot_ready U TV i (w, u)" and "config_assert (base U)" and "mutexInstanceCount (mutexes u) = 0"
  shows "\<exists>s1 s2 w3 u3 w4 s5. Thread_ctor_user U o1 prio name um (w, u) = Inr s1 \<and>
    Thread_start_user U me o1 f s1 = Inr (ZephyrResult, s2) \<and>
    user_thread_runs U invoke (thread_data (base U) ! i) i (th_event (objs (fst s1) o1)) (th_mutex (objs (fst s1) o1)) s2 = Inr (w3, u3) \<and>
    Thread_join (base U) me o1 w3 = Inr (ZephyrResult, w4) \<and> Thread_dtor_user U o1 (w4, u3) = Inr s5 \<and>
    Thread_ctor_user U o2 prio2 name2 um2 s5 = Inl Panic"
proof -
  let ?a = "config_assert (base U)"
  obtain s1 s2 w3 u3 pm ms pe es where L: "Thread_ctor_user U o1 prio name um (w, u) = Inr s1"
    "th_mutex (objs (fst s1) o1) = pm" "th_event (objs (fst s1) o1) = pe"
    "Thread_start_user U me o1 f s1 = Inr (ZephyrResult, s2)"
    "user_thread_runs U invoke (thread_data (base U) ! i) i pe pm s2 = Inr (w3, u3)"
    and c: "Mutex_ctor_user ?a (nbr_mutexes U) (mutex_array U) (mutexes u, tkern w) = Inr (pm, ms, tkern w)"
    "Event_ctor_user ?a (nbr_events U) (event_array U) (events u, tkern w) = Inr (pe, es, tkern w)"
    and u3: "mutexes u3 = mutexes u"
    and w3: "th_mutex (objs w3 o1) = pm" "th_event (objs w3 o1) = pe" "th_tid (objs w3 o1) = Some (thread_data (base U) ! i)"
    "TV (tkern w3) (thread_data (base U) ! i) = Dead" "mx V (tkern w3) pm = None"
    using user_thread_life [OF assms(1-4), of o1 prio name um me f] by metis
  have inv: "pool_inv (nbr_mutexes U) (mutex_array U) (mutexes u, tkern w)" "epool_inv (nbr_events U) (event_array U) (events u, tkern w)"
    using assms(3) by (simp_all add: user_pools_ok_def)
  obtain w4 where w4: "Thread_join (base U) me o1 w3 = Inr (ZephyrResult, w4)" "objs w4 = (objs w3)(o1 := (objs w3 o1)\<lparr>th_tid := None\<rparr>)"
    using Thread_join_dead [OF user_lawsD(1) [OF assms(1)] w3(3,4), of me] w3(1,5) by auto
  have found: "slot_of (nbr_mutexes U) (mutex_array U) pm < nbr_mutexes U" "slot_of (nbr_events U) (event_array U) pe < nbr_events U"
    using Mutex_dtor_after_ctor(2) [OF inv(1) c(1)] Event_dtor_after_ctor(2) [OF inv(2) c(2)] inv slot_of_member
    by (simp_all add: pool_inv_def epool_inv_def)
  then obtain s5 where s5: "Thread_dtor_user U o1 (w4, u3) = Inr s5" "mutexInstanceCount (mutexes (snd s5)) = 255"
    using w3(1,2) w4(2) u3 assms(6)
    by (simp add: Thread_dtor_user_def Thread_dtor_def Event_dtor_user_def Mutex_dtor_user_def Let_def)
  obtain w5 u5 where p5: "s5 = (w5, u5)" by (cases s5)
  have "nbr_mutexes U < 256" using inv(1) by (simp add: pool_inv_def)
  then have "Thread_ctor_user U o2 prio2 name2 um2 s5 = Inl Panic"
    using s5(2) assms(5) by (simp add: p5 Thread_ctor_user_def Mutex_ctor_user_def ZPP_ASSERT_def)
  with L w4(1) s5(1) show ?thesis
    by - (rule exI [of _ s1], rule exI [of _ s2], rule exI [of _ w3], rule exI [of _ u3], rule exI [of _ w4], rule exI [of _ s5], simp)
qed

end
