(* ===== verification/Test_Secondary.thy ===== *)
theory Test_Secondary
  imports Test_Timing
begin

text \<open>
  The two sleep tests of src/zpp_rtos/tests/thread: the function with the ten waits is run by the main
  thread, and by a thread that the test constructs, starts and joins. The theorem reduces the second
  test to the function, in the state in which the new thread calls it.
\<close>

definition test_sleep_main :: "'k timing_env \<Rightarrow> 'k \<Rightarrow> 'k run" where
  "test_sleep_main te k = sleep_function te k"

definition test_sleep_secondary_thread ::
  "'k thread_env \<Rightarrow> 'k timing_env \<Rightarrow> int \<Rightarrow> tid \<Rightarrow> addr \<times> addr \<times> addr \<Rightarrow> ('k, unit) thread_world \<Rightarrow> ('k, unit) thread_world run" where
  "test_sleep_secondary_thread env te N me other_thread w =
     bindR (test_in_thread env N me other_thread ''secondary_thread''
       (\<lambda>_ w. bindR (sleep_function te (tkern w)) (\<lambda>k. Inr (w\<lparr>tkern := k\<rparr>))) w) (\<lambda>w.
     Thread_dtor env (fst other_thread) w)"

text \<open>Waiting changes no mutex and starts or ends no thread.\<close>

definition wait_frame :: "'k sched_api \<Rightarrow> 'k view \<Rightarrow> 'k thread_view \<Rightarrow> bool" where
  "wait_frame S V TV \<longleftrightarrow> (\<forall>u k. mx V (k_busy_wait S u k) = mx V k \<and> TV (k_busy_wait S u k) = TV k) \<and>
     (\<forall>d k. mx V (snd (k_msleep S d k)) = mx V k \<and> TV (snd (k_msleep S d k)) = TV k)"

lemma timed_waits_keep:
  assumes "\<forall>(wait, us, allowed)\<in>set ws. \<forall>k. P (wait k) = P k" and "timed_waits env ws k = Inr k'"
  shows "P k' = P k"
  using assms
proof (induction ws arbitrary: k)
  case (Cons x ws)
  obtain wait us allowed where x: "x = (wait, us, allowed)" by (cases x)
  from Cons.prems(2) x have "timed_waits env ws (wait k) = Inr k'"
    by (auto simp: bindR_eq_Inr timed_wait_def Let_def)
  with Cons x show ?case by auto
qed simp

lemma sleep_function_keeps:
  assumes "wait_frame (te_sched te) V TV" and "sleep_function te k = Inr k'"
  shows "mx V k' = mx V k" and "TV k' = TV k"
proof -
  have "\<forall>(wait, us, allowed)\<in>set (the_waits (te_sched te)). \<forall>k. (mx V (wait k), TV (wait k)) = (mx V k, TV k)"
    using assms(1) by (simp add: the_waits_def five wait_frame_def busy_wait_def sleep_for_ms_def)
  from timed_waits_keep [OF this] assms(2) have "(mx V k', TV k') = (mx V k, TV k)"
    unfolding sleep_function_waits by blast
  then show "mx V k' = mx V k" "TV k' = TV k" by simp_all
qed

text \<open>
  The second test fails when the waits fail in the new thread, with the same fault, and passes otherwise;
  then it leaves no thread, no locked mutex and the instance counter as before.
\<close>

theorem second_sleep_test:
  fixes w :: "('k, unit) thread_world"
  assumes "env_laws env True V TV" and "init_frame (env_mutex env) (env_event env) TV" and "wait_frame (te_sched te) V TV"
    and "unat (s_thread_instance_count w) < length (thread_data env)"
    and "t = thread_data env ! unat (s_thread_instance_count w)" and "\<forall>b n. TV (tkern w) t \<noteq> Running b n"
  shows "\<exists>k. TV k t = Running this (unat (s_thread_instance_count w)) \<and>
    (case test_sleep_main te k of
       Inl f \<Rightarrow> test_sleep_secondary_thread env te N me (this, m, e) w = Inl f
     | Inr k' \<Rightarrow> \<exists>w'. test_sleep_secondary_thread env te N me (this, m, e) w = Inr w' \<and>
         s_thread_instance_count w' = s_thread_instance_count w \<and> TV (tkern w') = (TV (tkern w))(t := Dead) \<and>
         mx V (tkern w') = (mx V (tkern w))(m := None))"
proof -
  define task where "task = (\<lambda>(_ :: tid) (w :: ('k, unit) thread_world). bindR (sleep_function te (tkern w)) (\<lambda>k. Inr (w\<lparr>tkern := k\<rparr>)))"
  define run where "run = test_in_thread env N me (this, m, e) ''secondary_thread'' task w"
  have test: "test_sleep_secondary_thread env te N me (this, m, e) w = bindR run (Thread_dtor env this)"
    by (simp add: test_sleep_secondary_thread_def run_def task_def)
  obtain w1 where w1: "called_in V TV t this m w w1" "\<And>f. task t w1 = Inl f \<Longrightarrow> run = Inl f"
    "\<And>w2. task t w1 = Inr w2 \<Longrightarrow> outside V TV w2 = outside V TV w1 \<Longrightarrow> \<exists>w'. run = Inr w' \<and> th_tid (objs w' this) = None \<and>
      s_thread_instance_count w' = s_thread_instance_count w \<and> mx V (tkern w') = (mx V (tkern w))(m := None) \<and>
      TV (tkern w') = (TV (tkern w))(t := Dead)"
    using test_in_thread_task [OF assms(1,2,4-6), of this m task N me e "''secondary_thread''"] unfolding run_def by blast
  show ?thesis
  proof (intro exI [of _ "tkern w1"] conjI)
    show "TV (tkern w1) t = Running this (unat (s_thread_instance_count w))" using w1(1) by (simp add: called_in_def)
    show "case test_sleep_main te (tkern w1) of Inl f \<Rightarrow> test_sleep_secondary_thread env te N me (this, m, e) w = Inl f
     | Inr k' \<Rightarrow> \<exists>w'. test_sleep_secondary_thread env te N me (this, m, e) w = Inr w' \<and>
         s_thread_instance_count w' = s_thread_instance_count w \<and> TV (tkern w') = (TV (tkern w))(t := Dead) \<and>
         mx V (tkern w') = (mx V (tkern w))(m := None)"
    proof (cases "sleep_function te (tkern w1)")
      case (Inl f)
      with w1(2) [of f] show ?thesis by (simp add: test_sleep_main_def test task_def)
    next
      case (Inr k')
      note kept = sleep_function_keeps [OF assms(3) Inr]
      have "outside V TV (w1\<lparr>tkern := k'\<rparr>) = outside V TV w1" using kept by (simp add: outside_def)
      with w1(3) [of "w1\<lparr>tkern := k'\<rparr>"] Inr show ?thesis
        by (auto simp: test_sleep_main_def test task_def Thread_dtor_def)
    qed
  qed
qed

end
