(* ===== verification/Spec2Isabelle.thy ===== *)
theory Spec2Isabelle
  imports Barrier_Class Thread_Class Mutex_Pool Semaphore_Class Clock_Time Display_Text
    Digital_Out Message_Queue Work_Queue Ticker_Class Thread_Race Test_Programs Utils_Stats
    Edge_Dispatch Pin_Spec Test_Timing Object_Access Mutex_Exclusion Event_Race Join_Race Test_Slicing
    Display_Safety Barrier_User Event_Pool Thread_User Test_Secondary
begin

text \<open>
  A verification library for zpp_lib, the C++ wrappers around the Zephyr RTOS under src/.

  The program. zpp_lib wraps Zephyr's kernel objects in classes that return result objects
  (zpp_include/zephyr_result.hpp) instead of errno values: \<open>Mutex\<close>, \<open>Semaphore\<close> and \<open>Event\<close>
  (zpp_rtos/mutex.cpp, semaphore.cpp, event.cpp) over one kernel object each; \<open>Thread\<close>
  (thread.cpp), which uses a \<open>Mutex\<close> and an \<open>Event\<close> and takes stacks and thread structures
  from static arrays; \<open>Barrier\<close> (barrier.cpp), which uses a \<open>Mutex\<close>, a \<open>Semaphore\<close> and the
  clock; \<open>ThisThread\<close>, \<open>Time\<close> and the tick conversions; and drivers: \<open>Display\<close>
  (zpp_drivers/display.cpp) and \<open>InterruptIn\<close> (interrupt_in.cpp), whose callbacks are kept by a
  \<open>CallbackRegister\<close> and owned by \<open>RegistrationToken\<close>s, and \<open>DigitalOut\<close> (digital_out.cpp), which
  in the userspace build drives its pin through two system calls of the library's own (syscalls/).
  Three header-only classes remain: \<open>MessageQueue\<close>, \<open>WorkQueue\<close> with \<open>Work\<close>, which uses a
  \<open>Thread\<close> and an \<open>Event\<close>, and \<open>Ticker\<close>.

  How it is modelled. Every operation is a HOL function from its arguments and a state to a
  \<open>run\<close>: a fault (\<open>Panic\<close>, \<open>Stuck\<close>, \<open>Undef\<close>) or a result with the new state. Zephyr is not in
  the repository: its calls are the fields of records (\<open>mutex_api\<close>, \<open>sem_api\<close>, \<open>event_api\<close>,
  \<open>thread_api\<close>, \<open>display_api\<close>, \<open>gpio_api\<close>, ...) over an abstract kernel state, and what the
  library relies on is a named hypothesis over a view of that state (\<open>mutex_laws\<close>, ...).
  \<open>Kernel_Instance\<close> and the \<open>ref_\<close> and \<open>demo_\<close> definitions are instances on which the witnesses
  run.

  The theories.
  \<^item> \<open>Prelude\<close>: faults and sequencing, \<open>ZPP_ASSERT\<close>, word lemmas, searching and counting.
  \<^item> \<open>Zephyr_API\<close>, \<open>GPIO_API\<close>: the kernel calls and their documented behaviour;
    \<open>Kernel_Instance\<close>: a small kernel that satisfies it.
  \<^item> \<open>Error_Result\<close>: error codes and both result classes, with the locale \<open>error_result\<close> they
    instantiate; what the cast of a kernel return value keeps.
  \<^item> \<open>Kernel_Pool\<close>: the locale \<open>object_pool\<close> of a static array with BUSY flags.
  \<^item> \<open>Mutex_Class\<close>, \<open>Mutex_Pool\<close>: the mutex in both builds; the locale \<open>lock_contract\<close> (mutual
    exclusion, recursion, release by the owner only) and its interpretation; exclusiveness of the
    userspace pool; \<open>Mutex_Exclusion\<close>: the calls of any threads in any order, refined to a
    recursive lock.
  \<^item> \<open>Semaphore_Class\<close>: the semaphore in both builds; the locale \<open>counting_semaphore\<close> and the
    refinement of the documented bounded counter by sequences of calls, but for the result of release.
  \<^item> \<open>Event_Class\<close>: events and the locale \<open>one_shot_signal\<close>; \<open>Event_Pool\<close>: the events of the userspace
    build; \<open>Event_Race\<close>: the two kernel calls of \<open>wait_any\<close> with other calls between them, and the event
    that is lost so.
  \<^item> \<open>Barrier_Class\<close>: \<open>wait\<close> as one function and as the statements of several threads in any
    interleaving; the invariant, safety (nobody passes before all have arrived), and completion of
    every fair schedule by counting the statements left; \<open>Barrier_User\<close>: the constructor of the
    userspace build on the pools, and two barriers of that build that share one semaphore.
  \<^item> \<open>Thread_Class\<close>: start, join, destructor and thread function over a store of objects; slots of
    nested threads, and what happens when threads do not nest; \<open>Thread_Race\<close>: two starts interleaved;
    \<open>Join_Race\<close>: two joins of one object interleaved; \<open>Thread_User\<close>: the class in the userspace build,
    on the pools of mutexes and events, and what the end of a thread does to the objects it uses.
  \<^item> \<open>Test_Programs\<close>: the repository's tests of the mutex and the semaphore as clients of several
    classes, proved to pass with a total-correctness judgement for sequenced calls;
    \<open>Test_Timing\<close>: the ten measured waits of the thread tests against the wrap-around of the counter;
    \<open>Test_Secondary\<close>: the same waits in a second thread;
    \<open>Test_Slicing\<close>: the test of time slicing for every order in which the two threads may run.
  \<^item> \<open>This_Thread\<close>, \<open>Clock_Time\<close>: priorities as a linear order, sleeps, uptime and its wrap-around.
  \<^item> \<open>Display_Pixels\<close>: the four buffer routines and the locale \<open>pixel_codec\<close> of the two formats,
    whose pixels read back as they were drawn;
    \<open>Display_Class\<close>: initialisation, rectangles and icons against a screen of pixels;
    \<open>Display_Text\<close>: fonts, characters and strings; \<open>Display_Safety\<close>: any sequence of calls on an
    initialised display returns and sends well-formed requests only.
  \<^item> \<open>Utils_Stats\<close>: the thread reports, the heap summary and the text of the CPU load (utils.cpp).
  \<^item> \<open>Ordered_Map\<close>: \<open>std::map\<close> as a sorted association list, with the locale \<open>ordered_map\<close>;
    \<open>Callback_Register\<close>: the register and its tokens, with the registration records as heap
    nodes; \<open>Interrupt_In\<close>: the pin in both builds and the order in which callbacks run;
    \<open>Token_Life\<close>: the life cycle of tokens as an inductive reachability relation with its
    invariant; callbacks that drop their own token, tokens that outlive their pin, emulated edges;
    \<open>Edge_Dispatch\<close>: an edge reaches every instance on its pin;
    \<open>Pin_Spec\<close>: pins and tokens refine lists of listeners, and the repository's tests of
    InterruptIn print what they announce.
  \<^item> \<open>Digital_Out\<close>: the output pin in both builds, its system calls with their verification, and
    the history of levels a sequence of assignments drives.
  \<^item> \<open>Object_Access\<close>: what \<open>grant_access\<close> grants to a user thread, compared with what the
    class uses.
  \<^item> \<open>Message_Queue\<close>: the queue in both builds; the locale \<open>bounded_fifo\<close> over sequences of calls
    and its interpretation; the userspace pool.
  \<^item> \<open>Work_Queue\<close>: work items and the queue; a running queue refines a list of jobs that keep the
    arguments they were submitted with; stop; the constructor that starts a thread, composed with
    \<open>Thread_Class\<close>.
  \<^item> \<open>Ticker_Class\<close>: attach and the expiry function, and what a destroyed ticker leaves running.

  Bounds and fuel. Machine integers are words of their width, \<open>size_t\<close> has 32 bits. The display
  loops are functions with a proved measure. The loop over the callbacks has fuel, since a callback
  may register further callbacks; fuel for the callbacks registered at the start is enough when
  no callback touches the register (\<open>exec_loop_run_all\<close>). Barrier schedules are finite lists, and
  a schedule as long as the statements left completes.

  Readings. The userspace branches of \<open>Event\<close> and \<open>Thread\<close> do not compile as published. They are modelled
  statement by statement under the readings that \<open>Event_Pool\<close> and \<open>Thread_User\<close> state: an undeclared
  name that stands for a declared one is read as that one, two names of a counter stay two variables.

  Not modelled: interleavings of userspace threads (a thread of that build runs from its start to its end
  in one step), the callback that \<open>Barrier::wait\<close> calls in builds of the tests (\<open>zero_time_cb\<close>), logging,
  scripts and configuration.
\<close>

end
